(* ===== verification/Prelude.thy ===== *)
theory Prelude
  imports Main "HOL-Library.AList" "HOL-Library.Char_ord" "HOL-Library.List_Lexorder"
    "HOL-Library.Multiset"
begin

text \<open>
  What every theory of the development shares: the collections of rewrite rules, results that are
  either an error or a value, programs that thread a state and may raise (with a weakest
  precondition that turns a claim about a program into a claim about its first and last state),
  and lemmas on lists, association lists and texts.

  A Python \<open>str\<close> is the list of the bytes of its UTF-8 encoding. Equality of texts, the order used
  by \<open>sorted\<close> and by \<open>ORDER BY\<close> (code points compare as their encodings do) and \<open>len\<close> of an
  encoded text are those of the byte list.
\<close>

named_theorems wp_rules "weakest preconditions of the program constructors and primitives"

section \<open>Results\<close>

fun and_then :: "'e + 'a \<Rightarrow> ('a \<Rightarrow> 'e + 'b) \<Rightarrow> 'e + 'b" where
  "and_then (Inl e) f = Inl e"
| "and_then (Inr x) f = f x"

definition guard_result :: "bool \<Rightarrow> 'e \<Rightarrow> 'e + unit" where
  "guard_result b e = (if b then Inr () else Inl e)"

fun traverse :: "('a \<Rightarrow> 'e + 'b) \<Rightarrow> 'a list \<Rightarrow> 'e + 'b list" where
  "traverse f [] = Inr []"
| "traverse f (x # xs) = and_then (f x) (\<lambda>y. and_then (traverse f xs) (\<lambda>ys. Inr (y # ys)))"

lemma and_then_Inr_iff [simp]:
  "and_then r f = Inr y \<longleftrightarrow> (\<exists>x. r = Inr x \<and> f x = Inr y)"
  by (cases r) auto

lemma and_then_Inl_iff:
  "and_then r f = Inl e \<longleftrightarrow> r = Inl e \<or> (\<exists>x. r = Inr x \<and> f x = Inl e)"
  by (cases r) auto

lemma guard_result_iff [simp]:
  "guard_result b e = Inr u \<longleftrightarrow> b"
  "guard_result b e = Inl e' \<longleftrightarrow> \<not> b \<and> e' = e"
  by (auto simp: guard_result_def)

lemma and_then_cong [fundef_cong]:
  "\<lbrakk>r = r'; \<And>x. r' = Inr x \<Longrightarrow> f x = g x\<rbrakk> \<Longrightarrow> and_then r f = and_then r' g"
  by (cases r') auto

lemma traverse_cong [fundef_cong]:
  "\<lbrakk>xs = ys; \<And>x. x \<in> set ys \<Longrightarrow> f x = g x\<rbrakk> \<Longrightarrow> traverse f xs = traverse g ys"
proof (induction ys arbitrary: xs)
  case Nil
  then show ?case by simp
next
  case (Cons y ys)
  then have "traverse f ys = traverse g ys" by auto
  with Cons.prems show ?case by simp
qed

lemma traverse_append:
  "traverse f (xs @ ys) =
     and_then (traverse f xs) (\<lambda>us. and_then (traverse f ys) (\<lambda>vs. Inr (us @ vs)))"
proof (induction xs)
  case Nil
  show ?case by (cases "traverse f ys") auto
next
  case (Cons x xs)
  then show ?case
    by (cases "f x"; cases "traverse f xs"; cases "traverse f ys") auto
qed

lemma traverse_Inr_length: "traverse f xs = Inr ys \<Longrightarrow> length ys = length xs"
  by (induction xs arbitrary: ys) auto

lemma traverse_Inr_nth: "\<lbrakk>traverse f xs = Inr ys; i < length xs\<rbrakk> \<Longrightarrow> f (xs ! i) = Inr (ys ! i)"
  by (induction xs arbitrary: ys i) (auto simp: nth_Cons split: nat.split)

lemma traverse_Inr_map: "(\<And>x. x \<in> set xs \<Longrightarrow> f x = Inr (g x)) \<Longrightarrow> traverse f xs = Inr (map g xs)"
  by (induction xs) auto

lemma traverse_from: "traverse f xs = Inr ys \<Longrightarrow> y \<in> set ys \<Longrightarrow> \<exists>x\<in>set xs. f x = Inr y"
  by (induction xs arbitrary: ys) auto

lemma traverse_all_Inr: "traverse f xs = Inr ys \<Longrightarrow> x \<in> set xs \<Longrightarrow> \<exists>y. f x = Inr y \<and> y \<in> set ys"
  by (induction xs arbitrary: ys) auto

section \<open>Programs: a state, a value or an exception\<close>

type_synonym ('s, 'e, 'a) prog = "'s \<Rightarrow> ('e + 'a) \<times> 's"

definition ret :: "'a \<Rightarrow> ('s, 'e, 'a) prog" where
  "ret x = (\<lambda>s. (Inr x, s))"

definition throw :: "'e \<Rightarrow> ('s, 'e, 'a) prog" where
  "throw e = (\<lambda>s. (Inl e, s))"

definition bnd :: "('s, 'e, 'a) prog \<Rightarrow> ('a \<Rightarrow> ('s, 'e, 'b) prog) \<Rightarrow> ('s, 'e, 'b) prog" where
  "bnd p f = (\<lambda>s. case p s of (Inl e, s') \<Rightarrow> (Inl e, s') | (Inr x, s') \<Rightarrow> f x s')"

definition lift :: "'e + 'a \<Rightarrow> ('s, 'e, 'a) prog" where
  "lift r = (\<lambda>s. (r, s))"

definition get_state :: "('s \<Rightarrow> 'a) \<Rightarrow> ('s, 'e, 'a) prog" where
  "get_state f = (\<lambda>s. (Inr (f s), s))"

definition modify :: "('s \<Rightarrow> 's) \<Rightarrow> ('s, 'e, unit) prog" where
  "modify f = (\<lambda>s. (Inr (), f s))"

text \<open>A program that looks at the state it starts in.\<close>

definition with_self :: "('s \<Rightarrow> ('s, 'e, 'a) prog) \<Rightarrow> ('s, 'e, 'a) prog" where
  "with_self f = (\<lambda>s. f s s)"

text \<open>\<open>try: p except BaseException as e: h(e)\<close>\<close>

definition try_except :: "('s, 'e, 'a) prog \<Rightarrow> ('e \<Rightarrow> ('s, 'e, 'a) prog) \<Rightarrow> ('s, 'e, 'a) prog" where
  "try_except p h = (\<lambda>s. case p s of (Inl e, s') \<Rightarrow> h e s' | (Inr x, s') \<Rightarrow> (Inr x, s'))"

text \<open>\<open>with suppress(BaseException): p\<close>\<close>

definition suppress :: "('s, 'e, unit) prog \<Rightarrow> ('s, 'e, unit) prog" where
  "suppress p = try_except p (\<lambda>e. ret ())"

text \<open>\<open>try: p finally: q\<close>; an exception of \<open>q\<close> replaces the outcome of \<open>p\<close>.\<close>

definition try_finally :: "('s, 'e, 'a) prog \<Rightarrow> ('s, 'e, unit) prog \<Rightarrow> ('s, 'e, 'a) prog" where
  "try_finally p q = (\<lambda>s. case p s of (r, s') \<Rightarrow>
     (case q s' of (Inl e, s'') \<Rightarrow> (Inl e, s'') | (Inr _, s'') \<Rightarrow> (r, s'')))"

definition run_if :: "bool \<Rightarrow> ('s, 'e, unit) prog \<Rightarrow> ('s, 'e, unit) prog" where
  "run_if b p = (if b then p else ret ())"

text \<open>\<open>for x in xs: f(x)\<close>\<close>

fun for_each :: "('a \<Rightarrow> ('s, 'e, unit) prog) \<Rightarrow> 'a list \<Rightarrow> ('s, 'e, unit) prog" where
  "for_each f [] = ret ()"
| "for_each f (x # xs) = bnd (f x) (\<lambda>_. for_each f xs)"

section \<open>Weakest preconditions\<close>

definition wp :: "('s, 'e, 'a) prog \<Rightarrow> ('a \<Rightarrow> 's \<Rightarrow> bool) \<Rightarrow> ('e \<Rightarrow> 's \<Rightarrow> bool) \<Rightarrow> 's \<Rightarrow> bool" where
  "wp p Q R s = (case p s of (Inl e, s') \<Rightarrow> R e s' | (Inr x, s') \<Rightarrow> Q x s')"

lemma wp_ret [wp_rules]: "wp (ret x) Q R = Q x"
  by (simp add: wp_def ret_def fun_eq_iff)

lemma wp_throw [wp_rules]: "wp (throw e) Q R = R e"
  by (simp add: wp_def throw_def fun_eq_iff)

lemma wp_bnd [wp_rules]: "wp (bnd p f) Q R = wp p (\<lambda>x. wp (f x) Q R) R"
  by (simp add: wp_def bnd_def fun_eq_iff split: prod.splits sum.splits)

lemma wp_lift [wp_rules]: "wp (lift r) Q R = (case r of Inl e \<Rightarrow> R e | Inr x \<Rightarrow> Q x)"
  by (simp add: wp_def lift_def fun_eq_iff split: sum.split)

lemma wp_get_state [wp_rules]: "wp (get_state f) Q R = (\<lambda>s. Q (f s) s)"
  by (simp add: wp_def get_state_def fun_eq_iff)

lemma wp_modify [wp_rules]: "wp (modify f) Q R = (\<lambda>s. Q () (f s))"
  by (simp add: wp_def modify_def fun_eq_iff)

lemma wp_with_self [wp_rules]: "wp (with_self f) Q R = (\<lambda>s. wp (f s) Q R s)"
  by (simp add: wp_def with_self_def fun_eq_iff)

lemma wp_try_except [wp_rules]:
  "wp (try_except p h) Q R = wp p Q (\<lambda>e. wp (h e) Q R)"
  by (simp add: wp_def try_except_def fun_eq_iff split: prod.splits sum.splits)

lemma wp_suppress [wp_rules]: "wp (suppress p) Q R = wp p Q (\<lambda>_. Q ())"
  by (simp add: suppress_def wp_rules)

lemma wp_try_finally [wp_rules]:
  "wp (try_finally p q) Q R =
     wp p (\<lambda>x. wp q (\<lambda>_. Q x) R) (\<lambda>e. wp q (\<lambda>_. R e) R)"
  by (simp add: wp_def try_finally_def fun_eq_iff split: prod.splits sum.splits)

lemma wp_run_if [wp_rules]: "wp (run_if b p) Q R = (if b then wp p Q R else Q ())"
  by (simp add: run_if_def wp_rules)

lemma wp_if [wp_rules]: "wp (if b then p else q) Q R = (if b then wp p Q R else wp q Q R)"
  by simp

lemma wp_conseq:
  assumes "wp p Q R s" and "\<And>x t. Q x t \<Longrightarrow> Q' x t" and "\<And>e t. R e t \<Longrightarrow> R' e t"
  shows "wp p Q' R' s"
  using assms by (auto simp: wp_def split: prod.splits sum.splits)

lemma wp_InrD: "\<lbrakk>wp p Q R s; p s = (Inr x, t)\<rbrakk> \<Longrightarrow> Q x t"
  by (simp add: wp_def)

lemma wp_any: "wp p (\<lambda>_. Z) (\<lambda>_. Z) s \<longleftrightarrow> Z (snd (p s))"
  by (simp add: wp_def split: prod.split sum.split)

lemma wp_InlD: "\<lbrakk>wp p Q R s; p s = (Inl e, t)\<rbrakk> \<Longrightarrow> R e t"
  by (simp add: wp_def)

lemma wp_for_each:
  assumes "I [] s"
    and "\<And>done x todo t. \<lbrakk>xs = done @ x # todo; I done t\<rbrakk> \<Longrightarrow> wp (f x) (\<lambda>_. I (done @ [x])) R t"
  shows "wp (for_each f xs) (\<lambda>_. I xs) R s"
proof -
  have "wp (for_each f todo) (\<lambda>_. I xs) R t" if "xs = done @ todo" and "I done t" for "done" todo t
    using that
  proof (induction todo arbitrary: "done" t)
    case Nil
    then show ?case by (simp add: wp_rules)
  next
    case (Cons x todo)
    have "wp (f x) (\<lambda>_. I (done @ [x])) R t"
      using Cons.prems by (intro assms(2)) auto
    then have "wp (f x) (\<lambda>_. wp (for_each f todo) (\<lambda>_. I xs) R) R t"
      by (rule wp_conseq) (use Cons in auto)
    then show ?case by (simp add: wp_rules)
  qed
  from this[of "[]" xs s] assms(1) show ?thesis by simp
qed

text \<open>A program that never returns a value.\<close>

definition throwing :: "('s, 'e, 'a) prog \<Rightarrow> bool" where
  "throwing p \<longleftrightarrow> (\<forall>s. \<exists>e. fst (p s) = Inl e)"

lemma throwing_throw: "throwing (throw e)"
  by (simp add: throwing_def throw_def)

lemma throwing_bnd: "(\<And>x. throwing (f x)) \<Longrightarrow> throwing (bnd p f)"
  by (auto simp: throwing_def bnd_def split: prod.split sum.split)

lemma throwing_if: "\<lbrakk>throwing p; throwing q\<rbrakk> \<Longrightarrow> throwing (if b then p else q)"
  by simp

lemma throwingD: "throwing p \<Longrightarrow> p s = (r, s') \<Longrightarrow> \<exists>e. r = Inl e"
  unfolding throwing_def by (metis fst_conv)

section \<open>Lists and association lists\<close>

lemma alist_update_fresh: "k \<notin> fst ` set al \<Longrightarrow> AList.update k v al = al @ [(k, v)]"
  by (induction al) auto

lemma map_of_fresh: "map_of al k = None \<Longrightarrow> AList.update k v al = al @ [(k, v)]"
  by (simp add: alist_update_fresh map_of_eq_None_iff)

lemma map_of_update_alist [simp]: "map_of (AList.update k v al) k' = (if k' = k then Some v else map_of al k')"
  by (simp add: update_conv')

lemma map_of_delete_alist [simp]: "map_of (AList.delete k al) k' = (if k' = k then None else map_of al k')"
  by (simp add: delete_conv')

lemma distinct_map_fst_update [simp]:
  "distinct (map fst al) \<Longrightarrow> distinct (map fst (AList.update k v al))"
  by (rule distinct_update)

lemma distinct_map_fst_delete [simp]:
  "distinct (map fst al) \<Longrightarrow> distinct (map fst (AList.delete k al))"
  by (simp add: distinct_delete)

lemma distinct_map_fst_filter:
  "distinct (map fst al) \<Longrightarrow> distinct (map fst (filter P al))"
  by (induction al) auto

text \<open>Updating a row that no query sees, before or after, leaves every query as it was.\<close>

lemma filter_snd_update_same:
  assumes "distinct (map fst al)" and "map_of al k = Some r" and "\<not> P r" and "\<not> P v"
  shows "filter P (map snd (AList.update k v al)) = filter P (map snd al)"
  using assms
proof (induction al)
  case Nil
  then show ?case by simp
next
  case (Cons a al)
  show ?case
  proof (cases "fst a = k")
    case True
    with Cons.prems show ?thesis by (cases a) auto
  next
    case False
    with Cons show ?thesis by (cases a) auto
  qed
qed

text \<open>Two arrangements of the same rows, sorted by a key that tells them apart, are equal.\<close>

lemma sort_key_mset_unique:
  assumes "mset xs = mset ys" and "inj_on f (set xs)"
  shows "sort_key f xs = sort_key f ys"
  by (rule sort_key_inj_key_eq) (use assms in simp_all)

text \<open>A greatest element added at the end of a list stays there when the list is sorted.\<close>

lemma sort_key_snoc:
  assumes "\<And>y. y \<in> set xs \<Longrightarrow> f y \<le> f x"
  shows "sort_key f (xs @ [x]) = sort_key f xs @ [x]"
proof (rule properties_for_sort_key)
  show "mset (sort_key f xs @ [x]) = mset (xs @ [x])" by simp
  show "filter (\<lambda>y. f k = f y) (sort_key f xs @ [x]) = filter (\<lambda>y. f k = f y) (xs @ [x])" for k
    using sort_key_stable[of f "f k" xs] by (simp add: eq_commute)
  show "sorted (map f (sort_key f xs @ [x]))"
    using assms by (auto simp: sorted_append)
qed

lemma map_of_Some_iff: "distinct (map fst al) \<Longrightarrow> map_of al k = Some v \<longleftrightarrow> (k, v) \<in> set al"
  by (simp add: map_of_eq_Some_iff)

lemma set_update_alist:
  "distinct (map fst al) \<Longrightarrow> set (AList.update k v al) = {kv \<in> set al. fst kv \<noteq> k} \<union> {(k, v)}"
proof -
  assume d: "distinct (map fst al)"
  have "(k', v') \<in> set (AList.update k v al) \<longleftrightarrow> (k' = k \<and> v' = v) \<or> (k' \<noteq> k \<and> (k', v') \<in> set al)" for k' v'
    using map_of_Some_iff[OF d, of k' v'] map_of_Some_iff[OF distinct_update[OF d], of k v k' v']
      map_of_update_alist[of k v al k']
    by (auto split: if_splits)
  then show ?thesis by auto
qed

end
