(* ===== verification/Json.thy ===== *)
theory Json
  imports Prelude
begin

text \<open>
  Python's \<open>json.dumps\<close> (with \<open>ensure_ascii=False, separators=(",", ":")\<close>, with and without
  \<open>sort_keys\<close>) and \<open>json.loads\<close>, the part of the standard library that the canonical
  encoding of \<open>serde.py\<close> is made of. The writer and the reader follow \<open>json/encoder.py\<close> and
  \<open>json/decoder.py\<close>; texts are UTF-8 bytes, as everywhere in the development.

  A float is represented by the text \<open>json.dumps\<close> writes for it. The function that turns the
  text of a number with a fraction or an exponent into that normal form (\<open>repr(float(t))\<close>, or
  \<open>Infinity\<close>) is the argument \<open>fr\<close> of the reader; \<open>float_text_ok\<close> states what it does.
\<close>

section \<open>Values\<close>

datatype scalar =
    SNull
  | SBool bool
  | SInt int
  | SFloat string
  | SStr string

datatype json =
    JLeaf scalar
  | JArr "json list"
  | JObj "(string \<times> json) list"

section \<open>Writing\<close>

abbreviation dquote :: char where "dquote \<equiv> CHR 0x22"
abbreviation bslash :: char where "bslash \<equiv> CHR 0x5C"

definition char_nat :: "char \<Rightarrow> nat" where
  "char_nat c = of_char c"

definition digit_char :: "nat \<Rightarrow> char" where
  "digit_char n = (if n < 10 then char_of (48 + n) else char_of (87 + n))"

definition digit_val :: "char \<Rightarrow> nat option" where
  "digit_val c = (let n = char_nat c in
     if 48 \<le> n \<and> n \<le> 57 then Some (n - 48) else None)"

definition hex_val :: "char \<Rightarrow> nat option" where
  "hex_val c = (let n = char_nat c in
     if 48 \<le> n \<and> n \<le> 57 then Some (n - 48)
     else if 97 \<le> n \<and> n \<le> 102 then Some (n - 87)
     else if 65 \<le> n \<and> n \<le> 70 then Some (n - 55)
     else None)"

fun dec_nat :: "nat \<Rightarrow> string" where
  "dec_nat n = (if n < 10 then [digit_char n] else dec_nat (n div 10) @ [digit_char (n mod 10)])"

declare dec_nat.simps [simp del]

definition dec_int :: "int \<Rightarrow> string" where
  "dec_int i = (if i < 0 then CHR ''-'' # dec_nat (nat (- i)) else dec_nat (nat i))"

text \<open>\<open>py_encode_basestring\<close>: only the quote, the backslash and control characters are escaped.\<close>

definition escape_char :: "char \<Rightarrow> string" where
  "escape_char c =
     (if c = dquote then [bslash, dquote]
      else if c = bslash then [bslash, bslash]
      else if c = CHR 0x0A then [bslash, CHR ''n'']
      else if c = CHR 0x0D then [bslash, CHR ''r'']
      else if c = CHR 0x09 then [bslash, CHR ''t'']
      else if c = CHR 0x0C then [bslash, CHR ''f'']
      else if c = CHR 0x08 then [bslash, CHR ''b'']
      else if char_nat c < 32 then
        [bslash, CHR ''u'', CHR ''0'', CHR ''0'', digit_char (char_nat c div 16), digit_char (char_nat c mod 16)]
      else [c])"

definition write_string :: "string \<Rightarrow> string" where
  "write_string s = dquote # concat (map escape_char s) @ [dquote]"

fun write_scalar :: "scalar \<Rightarrow> string" where
  "write_scalar SNull = ''null''"
| "write_scalar (SBool b) = (if b then ''true'' else ''false'')"
| "write_scalar (SInt i) = dec_int i"
| "write_scalar (SFloat t) = t"
| "write_scalar (SStr s) = write_string s"

fun join :: "string \<Rightarrow> string list \<Rightarrow> string" where
  "join sep [] = []"
| "join sep [x] = x"
| "join sep (x # y # zs) = x @ sep @ join sep (y # zs)"

definition write_member :: "string \<times> string \<Rightarrow> string" where
  "write_member kv = write_string (fst kv) @ '':'' @ snd kv"

text \<open>\<open>json.dumps(v, ensure_ascii=False, separators=(",", ":"))\<close>: members in the dict's order.\<close>

fun dumps_raw :: "json \<Rightarrow> string" where
  "dumps_raw (JLeaf a) = write_scalar a"
| "dumps_raw (JArr xs) = ''['' @ join '','' (map dumps_raw xs) @ '']''"
| "dumps_raw (JObj kvs) =
     ''{'' @ join '','' (map (\<lambda>kv. write_member (fst kv, dumps_raw (snd kv))) kvs) @ ''}''"

text \<open>The same with \<open>sort_keys=True\<close>.\<close>

fun dumps_sorted :: "json \<Rightarrow> string" where
  "dumps_sorted (JLeaf a) = write_scalar a"
| "dumps_sorted (JArr xs) = ''['' @ join '','' (map dumps_sorted xs) @ '']''"
| "dumps_sorted (JObj kvs) =
     ''{'' @ join '','' (map write_member
        (sort_key fst (map (\<lambda>kv. (fst kv, dumps_sorted (snd kv))) kvs))) @ ''}''"

text \<open>A value with the members of every object in key order: equal dicts have equal \<open>canon\<close>.\<close>

fun canon :: "json \<Rightarrow> json" where
  "canon (JLeaf a) = JLeaf a"
| "canon (JArr xs) = JArr (map canon xs)"
| "canon (JObj kvs) = JObj (sort_key fst (map (\<lambda>kv. (fst kv, canon (snd kv))) kvs))"

section \<open>Reading\<close>

definition is_ws :: "char \<Rightarrow> bool" where
  "is_ws c \<longleftrightarrow> c = CHR '' '' \<or> c = CHR 0x09 \<or> c = CHR 0x0A \<or> c = CHR 0x0D"

definition skip_ws :: "string \<Rightarrow> string" where
  "skip_ws s = dropWhile is_ws s"

definition is_digit :: "char \<Rightarrow> bool" where
  "is_digit c \<longleftrightarrow> digit_val c \<noteq> None"

definition read_nat :: "string \<Rightarrow> nat" where
  "read_nat ds = foldl (\<lambda>a c. 10 * a + (case digit_val c of Some d \<Rightarrow> d | None \<Rightarrow> 0)) 0 ds"

text \<open>The UTF-8 bytes of a code point.\<close>

definition utf8 :: "nat \<Rightarrow> string" where
  "utf8 n =
     (if n < 128 then [char_of n]
      else if n < 2048 then [char_of (192 + n div 64), char_of (128 + n mod 64)]
      else if n < 65536 then
        [char_of (224 + n div 4096), char_of (128 + n div 64 mod 64), char_of (128 + n mod 64)]
      else
        [char_of (240 + n div 262144), char_of (128 + n div 4096 mod 64),
         char_of (128 + n div 64 mod 64), char_of (128 + n mod 64)])"

definition hex4 :: "char \<Rightarrow> char \<Rightarrow> char \<Rightarrow> char \<Rightarrow> nat option" where
  "hex4 a b c d =
     (case (hex_val a, hex_val b, hex_val c, hex_val d) of
        (Some w, Some x, Some y, Some z) \<Rightarrow> Some (w * 4096 + x * 256 + y * 16 + z)
      | _ \<Rightarrow> None)"

text \<open>\<open>BACKSLASH\<close> of \<open>json/decoder.py\<close>.\<close>

definition unescape :: "char \<Rightarrow> char option" where
  "unescape e =
     (if e = dquote \<or> e = bslash \<or> e = CHR ''/'' then Some e
      else if e = CHR ''b'' then Some (CHR 0x08)
      else if e = CHR ''f'' then Some (CHR 0x0C)
      else if e = CHR ''n'' then Some (CHR 0x0A)
      else if e = CHR ''r'' then Some (CHR 0x0D)
      else if e = CHR ''t'' then Some (CHR 0x09)
      else None)"

text \<open>
  A low surrogate right after a high one, as a second \<open>\u\<close> escape: the pair's code point and
  the rest of the text.
\<close>

fun low_surrogate :: "nat \<Rightarrow> string \<Rightarrow> (nat \<times> string) option" where
  "low_surrogate hi (c # e # p # q # r # t # rest) =
     (if c = bslash \<and> e = CHR ''u'' \<and> 55296 \<le> hi \<and> hi \<le> 56319 then
        (case hex4 p q r t of
           Some lo \<Rightarrow> if 56320 \<le> lo \<and> lo \<le> 57343
                     then Some (65536 + (hi - 55296) * 1024 + (lo - 56320), rest) else None
         | None \<Rightarrow> None)
      else None)"
| "low_surrogate hi s = None"

lemma low_surrogate_shorter: "low_surrogate hi s = Some (u, rest) \<Longrightarrow> length rest < length s"
  by (induction hi s rule: low_surrogate.induct) (auto split: if_splits option.splits)

text \<open>What follows a backslash: the bytes it stands for and the rest of the text.\<close>

definition scan_escape :: "string \<Rightarrow> (string \<times> string) option" where
  "scan_escape s =
     (case s of
        [] \<Rightarrow> None
      | e # s1 \<Rightarrow>
          if e = CHR ''u'' then
            (case s1 of
               p # q # r # t # s2 \<Rightarrow>
                 (case hex4 p q r t of
                    None \<Rightarrow> None
                  | Some u \<Rightarrow>
                      (case low_surrogate u s2 of
                         Some (u2, s3) \<Rightarrow> Some (utf8 u2, s3)
                       | None \<Rightarrow> Some (utf8 u, s2)))
             | _ \<Rightarrow> None)
          else map_option (\<lambda>d. ([d], s1)) (unescape e))"

lemma scan_escape_shorter: "scan_escape s = Some (d, rest) \<Longrightarrow> length rest < length s"
  by (auto simp: scan_escape_def split: list.splits if_splits option.splits dest: low_surrogate_shorter)

text \<open>\<open>scanstring\<close> (strict), entered after the opening quote.\<close>

function (sequential) scan_string :: "string \<Rightarrow> (string \<times> string) option" where
  "scan_string [] = None"
| "scan_string (c # s) =
     (if c = dquote then Some ([], s)
      else if c = bslash then
        (case scan_escape s of
           None \<Rightarrow> None
         | Some (d, s1) \<Rightarrow> map_option (\<lambda>(v, rest). (d @ v, rest)) (scan_string s1))
      else if char_nat c < 32 then None
      else map_option (\<lambda>(v, rest). (c # v, rest)) (scan_string s))"
  by pat_completeness auto
termination
  by (relation "measure length") (auto dest: scan_escape_shorter)

lemma scan_string_shorter: "scan_string s = Some (v, rest) \<Longrightarrow> length rest < length s"
proof (induction s arbitrary: v rest rule: scan_string.induct)
  case 1
  then show ?case by simp
next
  case (2 c s)
  consider "c = dquote" | "c = bslash" | "c \<noteq> dquote" "c \<noteq> bslash" by blast
  then show ?case
  proof cases
    case 1
    with "2.prems" show ?thesis by simp
  next
    case 2
    with "2.prems" obtain d s1 v' where "scan_escape s = Some (d, s1)" and "scan_string s1 = Some (v', rest)"
      by (auto split: option.splits)
    with "2.IH"(1) 2 scan_escape_shorter[of s d s1] show ?thesis by fastforce
  next
    case 3
    with "2.prems" obtain v' where "\<not> char_nat c < 32" "scan_string s = Some (v', rest)"
      by (auto split: if_splits)
    with "2.IH"(2) 3 show ?thesis by fastforce
  qed
qed

text \<open>\<open>NUMBER_RE\<close>: the integer part, the fraction and the exponent, and the rest of the text.\<close>

definition scan_int_part :: "string \<Rightarrow> (string \<times> string) option" where
  "scan_int_part s =
     (case s of
        [] \<Rightarrow> None
      | c # r \<Rightarrow>
          if c = CHR ''0'' then Some ([c], r)
          else if is_digit c then Some (takeWhile is_digit s, dropWhile is_digit s)
          else None)"

definition scan_frac :: "string \<Rightarrow> string \<times> string" where
  "scan_frac s =
     (case s of
        c # r \<Rightarrow>
          if c = CHR ''.'' \<and> takeWhile is_digit r \<noteq> []
          then (c # takeWhile is_digit r, dropWhile is_digit r) else ([], s)
      | [] \<Rightarrow> ([], s))"

definition scan_exp_sign :: "string \<Rightarrow> string \<times> string" where
  "scan_exp_sign s =
     (case s of [] \<Rightarrow> ([], []) | d # r \<Rightarrow> if d = CHR ''+'' \<or> d = CHR ''-'' then ([d], r) else ([], s))"

definition scan_exp :: "string \<Rightarrow> string \<times> string" where
  "scan_exp s =
     (case s of
        c # r \<Rightarrow>
          if c = CHR ''e'' \<or> c = CHR ''E'' then
            (let (sg, r1) = scan_exp_sign r
             in if takeWhile is_digit r1 \<noteq> []
                then (c # sg @ takeWhile is_digit r1, dropWhile is_digit r1) else ([], s))
          else ([], s)
      | [] \<Rightarrow> ([], s))"

definition scan_sign :: "string \<Rightarrow> bool \<times> string" where
  "scan_sign s = (case s of [] \<Rightarrow> (False, []) | c # r \<Rightarrow> if c = CHR ''-'' then (True, r) else (False, s))"

text \<open>\<open>_match_number\<close>: an \<open>int\<close> without fraction and exponent, else a \<open>float\<close>.\<close>

definition number_value :: "(string \<Rightarrow> string) \<Rightarrow> bool \<Rightarrow> string \<Rightarrow> string \<Rightarrow> string \<Rightarrow> scalar" where
  "number_value fr neg ds f x =
     (if f = [] \<and> x = [] then SInt (if neg then - int (read_nat ds) else int (read_nat ds))
      else SFloat (fr ((if neg then ''-'' else []) @ ds @ f @ x)))"

definition scan_number :: "(string \<Rightarrow> string) \<Rightarrow> string \<Rightarrow> (scalar \<times> string) option" where
  "scan_number fr s =
     (let (neg, s1) = scan_sign s
      in case scan_int_part s1 of
           None \<Rightarrow> None
         | Some (ds, s2) \<Rightarrow>
             (let (f, s3) = scan_frac s2; (x, s4) = scan_exp s3
              in Some (number_value fr neg ds f x, s4)))"

definition strip_prefix :: "string \<Rightarrow> string \<Rightarrow> string option" where
  "strip_prefix p s = (if take (length p) s = p then Some (drop (length p) s) else None)"

text \<open>The scalars of \<open>py_make_scanner\<close>, in its order.\<close>

definition scan_scalar :: "(string \<Rightarrow> string) \<Rightarrow> string \<Rightarrow> (scalar \<times> string) option" where
  "scan_scalar fr s =
     (case s of
        [] \<Rightarrow> None
      | c # r \<Rightarrow>
          if c = dquote then map_option (\<lambda>(v, rest). (SStr v, rest)) (scan_string r)
          else
            (case strip_prefix ''null'' s of Some rest \<Rightarrow> Some (SNull, rest) | None \<Rightarrow>
            (case strip_prefix ''true'' s of Some rest \<Rightarrow> Some (SBool True, rest) | None \<Rightarrow>
            (case strip_prefix ''false'' s of Some rest \<Rightarrow> Some (SBool False, rest) | None \<Rightarrow>
            (case scan_number fr s of Some res \<Rightarrow> Some res | None \<Rightarrow>
            (case strip_prefix ''NaN'' s of Some rest \<Rightarrow> Some (SFloat ''NaN'', rest) | None \<Rightarrow>
            (case strip_prefix ''Infinity'' s of Some rest \<Rightarrow> Some (SFloat ''Infinity'', rest) | None \<Rightarrow>
            (case strip_prefix ''-Infinity'' s of Some rest \<Rightarrow> Some (SFloat ''-Infinity'', rest) | None \<Rightarrow>
             None))))))))"

text \<open>The pairs of an object become a dict: the last value of a key, at the key's first place.\<close>

definition dict_of :: "(string \<times> 'v) list \<Rightarrow> (string \<times> 'v) list" where
  "dict_of kvs = fold (\<lambda>(k, v) d. AList.update k v d) kvs []"

lemma skip_ws_length: "length (skip_ws s) \<le> length s"
  by (simp add: skip_ws_def length_dropWhile_le)

lemma skip_ws_Cons_length: "skip_ws s = c # r \<Longrightarrow> length r < length s"
  using skip_ws_length[of s] by simp

lemma scan_parts_shorter:
  "scan_sign s = (n, r) \<Longrightarrow> length r \<le> length s"
  "scan_int_part s = Some (a, r) \<Longrightarrow> length r < length s"
  "scan_frac s = (a, r) \<Longrightarrow> length r \<le> length s"
  "scan_exp s = (a, r) \<Longrightarrow> length r \<le> length s"
  subgoal by (auto simp: scan_sign_def split: list.splits if_splits)
  subgoal by (auto simp: scan_int_part_def split: list.splits if_splits)
      (metis length_dropWhile_le less_Suc_eq_le)
  subgoal by (auto simp: scan_frac_def split: list.splits if_splits)
      (metis length_dropWhile_le le_SucI)
  subgoal
    by (auto simp: scan_exp_def scan_exp_sign_def Let_def split: list.splits if_splits prod.splits)
      (metis length_dropWhile_le le_SucI)+
  done

lemma scan_number_shorter: "scan_number fr s = Some (v, rest) \<Longrightarrow> length rest < length s"
  by (auto simp: scan_number_def Let_def split: prod.splits option.splits dest!: scan_parts_shorter)

lemma strip_prefix_shorter: "strip_prefix p s = Some r \<Longrightarrow> p \<noteq> [] \<Longrightarrow> length r < length s"
  by (cases "s = []") (auto simp: strip_prefix_def split: if_splits)

lemma scan_scalar_shorter: "scan_scalar fr s = Some (v, rest) \<Longrightarrow> length rest < length s"
  by (auto simp: scan_scalar_def split: list.splits if_splits option.splits
      dest: scan_string_shorter scan_number_shorter strip_prefix_shorter)

text \<open>
  \<open>scan_once\<close>, \<open>JSONArray\<close> and \<open>JSONObject\<close>: a value, the elements of a non-empty array up to its
  bracket, the members of a non-empty object up to its brace. What is left after a value is
  shorter than the text it was read from, which ends the recursion.
\<close>

function (sequential) read_value :: "(string \<Rightarrow> string) \<Rightarrow> string \<Rightarrow> (json \<times> string) option"
  and read_elements :: "(string \<Rightarrow> string) \<Rightarrow> string \<Rightarrow> (json list \<times> string) option"
  and read_members :: "(string \<Rightarrow> string) \<Rightarrow> string \<Rightarrow> ((string \<times> json) list \<times> string) option" where
  "read_value fr s =
     (case s of
        [] \<Rightarrow> None
      | c # r \<Rightarrow>
          if c = CHR ''{'' then
            (case skip_ws r of
               [] \<Rightarrow> None
             | d # r' \<Rightarrow>
                 if d = CHR ''}'' then Some (JObj [], r')
                 else map_option (\<lambda>(kvs, rest). (JObj (dict_of kvs), rest)) (read_members fr (d # r')))
          else if c = CHR ''['' then
            (case skip_ws r of
               [] \<Rightarrow> None
             | d # r' \<Rightarrow>
                 if d = CHR '']'' then Some (JArr [], r')
                 else map_option (\<lambda>(vs, rest). (JArr vs, rest)) (read_elements fr (d # r')))
          else map_option (\<lambda>(a, rest). (JLeaf a, rest)) (scan_scalar fr s))"
| "read_elements fr s =
     (case read_value fr s of
        None \<Rightarrow> None
      | Some (v, s1) \<Rightarrow>
          (case skip_ws s1 of
             [] \<Rightarrow> None
           | c # r \<Rightarrow>
               if c = CHR '']'' then Some ([v], r)
               else if c = CHR '','' then
                 map_option (\<lambda>(vs, rest). (v # vs, rest)) (read_elements fr (skip_ws r))
               else None))"
| "read_members fr s =
     (case s of
        [] \<Rightarrow> None
      | c # r \<Rightarrow>
          if c \<noteq> dquote then None else
          (case scan_string r of
             None \<Rightarrow> None
           | Some (k, s1) \<Rightarrow>
               (case skip_ws s1 of
                  [] \<Rightarrow> None
                | d # s2 \<Rightarrow>
                    if d \<noteq> CHR '':'' then None else
                    (case read_value fr (skip_ws s2) of
                       None \<Rightarrow> None
                     | Some (v, s3) \<Rightarrow>
                         (case skip_ws s3 of
                            [] \<Rightarrow> None
                          | e # s4 \<Rightarrow>
                              if e = CHR ''}'' then Some ([(k, v)], s4)
                              else if e = CHR '','' then
                                map_option (\<lambda>(kvs, rest). ((k, v) # kvs, rest))
                                  (read_members fr (skip_ws s4))
                              else None)))))"
  by pat_completeness auto

lemma read_shorter_aux:
  "read_value_read_elements_read_members_dom (Inl (fr, s)) \<Longrightarrow>
     (\<forall>v rest. read_value fr s = Some (v, rest) \<longrightarrow> length rest < length s)"
  "read_value_read_elements_read_members_dom (Inr (Inl (fr, s))) \<Longrightarrow>
     (\<forall>v rest. read_elements fr s = Some (v, rest) \<longrightarrow> length rest < length s)"
  "read_value_read_elements_read_members_dom (Inr (Inr (fr, s))) \<Longrightarrow>
     (\<forall>v rest. read_members fr s = Some (v, rest) \<longrightarrow> length rest < length s)"
proof (induction fr s and fr s and fr s rule: read_value_read_elements_read_members.pinduct)
  case (1 fr s)
  show ?case
  proof (intro allI impI)
    fix v rest
    assume r: "read_value fr s = Some (v, rest)"
    from r "1.hyps" obtain c r where s: "s = c # r"
      by (auto simp: read_value.psimps split: list.splits)
    consider "c = CHR ''{''" | "c = CHR ''[''" | "c \<noteq> CHR ''{''" "c \<noteq> CHR ''[''" by blast
    then show "length rest < length s"
    proof cases
      case 1
      with r "1.hyps" s obtain d r' where d: "skip_ws r = d # r'"
        by (auto simp: read_value.psimps split: list.splits)
      then show ?thesis
        using r "1.hyps" "1.IH"(1)[OF s 1 d] s 1 skip_ws_Cons_length[OF d]
        by (fastforce simp: read_value.psimps split: if_splits)
    next
      case 2
      with r "1.hyps" s obtain d r' where d: "skip_ws r = d # r'"
        by (auto simp: read_value.psimps split: list.splits)
      then show ?thesis
        using r "1.hyps" "1.IH"(2)[OF s _ 2 d] s 2 skip_ws_Cons_length[OF d]
        by (fastforce simp: read_value.psimps split: if_splits)
    next
      case 3
      with r "1.hyps" s show ?thesis
        by (auto simp: read_value.psimps dest: scan_scalar_shorter)
    qed
  qed
next
  case (2 fr s)
  show ?case
  proof (intro allI impI)
    fix v rest
    assume r: "read_elements fr s = Some (v, rest)"
    from r "2.hyps" obtain x s1 where x: "read_value fr s = Some (x, s1)"
      by (auto simp: read_elements.psimps split: option.splits)
    with r "2.hyps" obtain c r' where c: "skip_ws s1 = c # r'"
      by (auto simp: read_elements.psimps split: list.splits)
    have "length s1 < length s" using "2.IH"(1) x by blast
    then have "length (skip_ws r') < length s"
      using skip_ws_length[of r'] skip_ws_Cons_length[OF c] by simp
    then show "length rest < length s"
      using r x c "2.hyps" "2.IH"(2)[OF x refl c] skip_ws_Cons_length[OF c] \<open>length s1 < length s\<close>
      by (fastforce simp: read_elements.psimps split: if_splits)
  qed
next
  case (3 fr s)
  show ?case
  proof (intro allI impI)
    fix v rest
    assume r: "read_members fr s = Some (v, rest)"
    from r "3.hyps" obtain c r' where s: "s = c # r'" and c: "\<not> c \<noteq> dquote"
      by (auto simp: read_members.psimps split: list.splits if_splits)
    with r "3.hyps" obtain k s1 where k: "scan_string r' = Some (k, s1)"
      by (auto simp: read_members.psimps split: option.splits)
    with r "3.hyps" s c obtain d s2 where d: "skip_ws s1 = d # s2" and d': "\<not> d \<noteq> CHR '':''"
      by (auto simp: read_members.psimps split: list.splits if_splits)
    with r "3.hyps" s c k obtain x s3 where x: "read_value fr (skip_ws s2) = Some (x, s3)"
      by (auto simp: read_members.psimps split: option.splits)
    with r "3.hyps" s c k d d' obtain e s4 where e: "skip_ws s3 = e # s4"
      by (auto simp: read_members.psimps split: list.splits)
    have "length s3 < length (skip_ws s2)"
      using "3.IH"(1)[OF s c k refl d d'] x by blast
    then have l: "length s4 < length s"
      using skip_ws_Cons_length[OF e] skip_ws_length[of s2] skip_ws_Cons_length[OF d]
        scan_string_shorter[OF k] s by simp
    then show "length rest < length s"
      using r s c k d d' x e "3.hyps" "3.IH"(2)[OF s c k refl d d' x refl e] skip_ws_length[of s4]
      by (fastforce simp: read_members.psimps split: if_splits)
  qed
qed

termination read_value
proof (relation "measure (\<lambda>x. case x of Inl (fr, s) \<Rightarrow> 2 * length s
                  | Inr (Inl (fr, s)) \<Rightarrow> 2 * length s + 1
                  | Inr (Inr (fr, s)) \<Rightarrow> 2 * length s + 1)", goal_cases)
  case 1
  show ?case by simp
qed (auto dest!: read_shorter_aux(1)[rule_format] skip_ws_Cons_length scan_string_shorter
      dest: less_le_trans[OF _ skip_ws_length]
      intro!: le_less_trans[OF skip_ws_length] le_less_trans[OF mult_le_mono2[OF skip_ws_length]])

declare read_value.simps [simp del] read_elements.simps [simp del] read_members.simps [simp del]

text \<open>\<open>json.loads\<close>: one value and nothing after it; \<open>None\<close> is \<open>JSONDecodeError\<close>.\<close>

definition json_loads :: "(string \<Rightarrow> string) \<Rightarrow> string \<Rightarrow> json option" where
  "json_loads fr s =
     (case read_value fr (skip_ws s) of
        None \<Rightarrow> None
      | Some (v, rest) \<Rightarrow> if skip_ws rest = [] then Some v else None)"

section \<open>Reading back what was written\<close>

definition is_float_text :: "string \<Rightarrow> bool" where
  "is_float_text t \<longleftrightarrow> scan_number (\<lambda>t. t) t = Some (SFloat t, [])"

definition float_lexeme :: "(string \<Rightarrow> string) \<Rightarrow> string \<Rightarrow> bool" where
  "float_lexeme fr t \<longleftrightarrow>
     t = ''NaN'' \<or> t = ''Infinity'' \<or> t = ''-Infinity'' \<or> is_float_text t \<and> fr t = t"

text \<open>
  What the reader relies on of \<open>float\<close> and \<open>repr\<close>: the text of a float is a number with a fraction
  or an exponent that stands for itself, or an infinity.
\<close>

definition float_text_ok :: "(string \<Rightarrow> string) \<Rightarrow> bool" where
  "float_text_ok fr \<longleftrightarrow> (\<forall>t. is_float_text t \<longrightarrow> float_lexeme fr (fr t))"

fun scalar_ok :: "(string \<Rightarrow> string) \<Rightarrow> scalar \<Rightarrow> bool" where
  "scalar_ok fr (SFloat t) = float_lexeme fr t"
| "scalar_ok fr a = True"

text \<open>The values \<open>json.loads\<close> can return: floats in normal form, dicts without repeated keys.\<close>

fun json_ok :: "(string \<Rightarrow> string) \<Rightarrow> json \<Rightarrow> bool" where
  "json_ok fr (JLeaf a) = scalar_ok fr a"
| "json_ok fr (JArr xs) = list_all (json_ok fr) xs"
| "json_ok fr (JObj kvs) = (distinct (map fst kvs) \<and> list_all (\<lambda>kv. json_ok fr (snd kv)) kvs)"

definition delimited :: "string \<Rightarrow> bool" where
  "delimited s \<longleftrightarrow> (case s of [] \<Rightarrow> True | c # _ \<Rightarrow> c = CHR '','' \<or> c = CHR '']'' \<or> c = CHR ''}'')"

lemma delimited_simps [simp]:
  "delimited []"
  "delimited (CHR '','' # s)" "delimited (CHR '']'' # s)" "delimited (CHR ''}'' # s)"
  by (simp_all add: delimited_def)

lemma char_nat_char_of [simp]: "n < 256 \<Longrightarrow> char_nat (char_of n) = n"
  by (simp add: char_nat_def)

lemma char_nat_eq_iff: "char_nat c = char_nat d \<longleftrightarrow> c = d"
  by (metis char_nat_def char_of_char)

lemma char_of_char_nat [simp]: "char_of (char_nat c) = c"
  by (simp add: char_nat_def)

lemma digit_val_digit_char [simp]: "n < 10 \<Longrightarrow> digit_val (digit_char n) = Some n"
  by (simp add: digit_val_def digit_char_def)

lemma hex_val_digit_char [simp]: "n < 16 \<Longrightarrow> hex_val (digit_char n) = Some n"
  by (auto simp: hex_val_def digit_char_def)

lemma is_digit_digit_char [simp]: "n < 10 \<Longrightarrow> is_digit (digit_char n)"
  by (simp add: is_digit_def)

lemma digit_char_0 [simp]: "digit_char 0 = CHR ''0''"
  by (simp add: digit_char_def char_of_def bit_0)

lemma digit_char_0_iff: "n < 10 \<Longrightarrow> digit_char n = CHR ''0'' \<longleftrightarrow> n = 0"
  by (metis digit_char_0 digit_val_digit_char option.inject zero_less_numeral)

subsection \<open>Integers\<close>

lemma dec_nat_digits: "list_all is_digit (dec_nat n)"
proof (induction n rule: dec_nat.induct)
  case (1 n)
  then show ?case by (subst dec_nat.simps) simp
qed

lemma dec_nat_nonempty [simp]: "dec_nat n \<noteq> []"
  by (subst dec_nat.simps) simp

lemma read_nat_snoc: "read_nat (ds @ [digit_char d]) = 10 * read_nat ds + d" if "d < 10"
  using that by (simp add: read_nat_def)

lemma read_dec_nat [simp]: "read_nat (dec_nat n) = n"
proof (induction n rule: dec_nat.induct)
  case (1 n)
  show ?case
  proof (cases "n < 10")
    case True
    then show ?thesis by (subst dec_nat.simps) (simp add: read_nat_def)
  next
    case False
    with 1 show ?thesis
      by (subst dec_nat.simps) (simp add: read_nat_snoc)
  qed
qed

lemma hd_dec_nat: "0 < n \<Longrightarrow> hd (dec_nat n) \<noteq> CHR ''0''"
proof (induction n rule: dec_nat.induct)
  case (1 n)
  show ?case
  proof (cases "n < 10")
    case True
    with 1(2) show ?thesis by (subst dec_nat.simps) (simp add: digit_char_0_iff)
  next
    case False
    with 1 show ?thesis by (subst dec_nat.simps) simp
  qed
qed

lemma takeWhile_digits:
  "list_all is_digit ds \<Longrightarrow> delimited rest \<Longrightarrow> takeWhile is_digit (ds @ rest) = ds"
  "list_all is_digit ds \<Longrightarrow> delimited rest \<Longrightarrow> dropWhile is_digit (ds @ rest) = rest"
  by (auto simp: list_all_iff delimited_def is_digit_def digit_val_def char_nat_def
      split: list.splits)

lemma scan_int_part_dec:
  assumes "delimited rest"
  shows "scan_int_part (dec_nat n @ rest) = Some (dec_nat n, rest)"
proof (cases "n = 0")
  case True
  have "dec_nat 0 = ''0''" by (subst dec_nat.simps) simp
  with True show ?thesis by (simp add: scan_int_part_def)
next
  case False
  obtain c r where c: "dec_nat n = c # r" by (cases "dec_nat n") auto
  have "c \<noteq> CHR ''0''" using hd_dec_nat[of n] False c by simp
  moreover have "is_digit c" using dec_nat_digits[of n] c by simp
  ultimately show ?thesis
    using takeWhile_digits[OF dec_nat_digits assms, of n] c by (simp add: scan_int_part_def)
qed

lemma scan_frac_exp_delimited:
  "delimited rest \<Longrightarrow> scan_frac rest = ([], rest)"
  "delimited rest \<Longrightarrow> scan_exp rest = ([], rest)"
  by (auto simp: delimited_def scan_frac_def scan_exp_def split: list.splits)

lemma scan_sign_digit: "is_digit c \<Longrightarrow> scan_sign (c # s) = (False, c # s)"
  by (auto simp: scan_sign_def is_digit_def digit_val_def char_nat_def)

lemma scan_number_int:
  assumes "delimited rest"
  shows "scan_number fr (dec_int i @ rest) = Some (SInt i, rest)"
proof (cases "i < 0")
  case True
  then show ?thesis
    using scan_int_part_dec[OF assms, of "nat (- i)"]
    by (simp add: scan_number_def dec_int_def scan_sign_def scan_frac_exp_delimited[OF assms]
        number_value_def)
next
  case False
  obtain c r where c: "dec_nat (nat i) = c # r" by (cases "dec_nat (nat i)") auto
  have "is_digit c" using dec_nat_digits[of "nat i"] c by simp
  then have "scan_sign (dec_nat (nat i) @ rest) = (False, dec_nat (nat i) @ rest)"
    using c by (simp add: scan_sign_digit)
  then show ?thesis
    using False scan_int_part_dec[OF assms, of "nat i"]
    by (simp add: scan_number_def dec_int_def scan_frac_exp_delimited[OF assms] number_value_def)
qed

subsection \<open>Floats\<close>

lemma takeWhile_digits_append:
  "delimited rest \<Longrightarrow> takeWhile is_digit (s @ rest) = takeWhile is_digit s"
  "delimited rest \<Longrightarrow> dropWhile is_digit (s @ rest) = dropWhile is_digit s @ rest"
  by (induction s) (auto simp: delimited_def is_digit_def digit_val_def char_nat_def split: list.splits)

lemma scan_sign_append: "s \<noteq> [] \<Longrightarrow> scan_sign (s @ rest) = map_prod id (\<lambda>r. r @ rest) (scan_sign s)"
  by (cases s) (auto simp: scan_sign_def)

lemma scan_int_part_append:
  assumes "scan_int_part s = Some (ds, r)" and "delimited rest"
  shows "scan_int_part (s @ rest) = Some (ds, r @ rest)"
proof (cases s)
  case Nil
  with assms show ?thesis by (simp add: scan_int_part_def)
next
  case (Cons c s')
  with assms takeWhile_digits_append[OF assms(2), of s] show ?thesis
    by (auto simp: scan_int_part_def split: if_splits)
qed

lemma scan_frac_append:
  assumes "scan_frac s = (f, r)" and "delimited rest"
  shows "scan_frac (s @ rest) = (f, r @ rest)"
proof (cases s)
  case Nil
  with assms scan_frac_exp_delimited(1)[OF assms(2)] show ?thesis by (simp add: scan_frac_def)
next
  case (Cons c s')
  with assms takeWhile_digits_append[OF assms(2), of s'] show ?thesis
    by (auto simp: scan_frac_def split: if_splits)
qed

lemma scan_exp_sign_append:
  "s \<noteq> [] \<Longrightarrow> scan_exp_sign (s @ rest) = map_prod id (\<lambda>r. r @ rest) (scan_exp_sign s)"
  by (cases s) (auto simp: scan_exp_sign_def)

lemma scan_exp_append:
  assumes "scan_exp s = (x, r)" and "delimited rest"
  shows "scan_exp (s @ rest) = (x, r @ rest)"
proof (cases s)
  case Nil
  with assms scan_frac_exp_delimited(2)[OF assms(2)] show ?thesis by (simp add: scan_exp_def)
next
  case s: (Cons c s')
  show ?thesis
  proof (cases "s' = []")
    case True
    then have "takeWhile is_digit (snd (scan_exp_sign rest)) = []"
      using assms(2) by (auto simp: delimited_def scan_exp_sign_def is_digit_def digit_val_def
          char_nat_def split: list.splits)
    with True s assms(1) show ?thesis
      by (auto simp: scan_exp_def scan_exp_sign_def[of "[]"] split: if_splits prod.splits)
  next
    case False
    obtain sg r1 where sg: "scan_exp_sign s' = (sg, r1)" by fastforce
    with scan_exp_sign_append[OF False, of rest]
    have "scan_exp_sign (s' @ rest) = (sg, r1 @ rest)" by simp
    with s sg assms(1) takeWhile_digits_append[OF assms(2), of r1] show ?thesis
      by (auto simp: scan_exp_def split: if_splits)
  qed
qed

lemma number_value_float:
  "number_value (\<lambda>t. t) neg ds f x = SFloat t \<Longrightarrow> number_value fr neg ds f x = SFloat (fr t)"
  by (auto simp: number_value_def split: if_splits)

lemma scan_number_float:
  assumes "is_float_text t" and "delimited rest"
  shows "scan_number fr (t @ rest) = Some (SFloat (fr t), rest)"
proof -
  from assms(1) obtain neg s1 ds s2 f s3 x where
    p: "scan_sign t = (neg, s1)" "scan_int_part s1 = Some (ds, s2)" "scan_frac s2 = (f, s3)"
      "scan_exp s3 = (x, [])" "number_value (\<lambda>t. t) neg ds f x = SFloat t"
    by (auto simp: is_float_text_def scan_number_def split: prod.splits option.splits)
  from p have "t \<noteq> []" by (auto simp: scan_sign_def scan_int_part_def)
  from scan_sign_append[OF this, of rest] p(1) have "scan_sign (t @ rest) = (neg, s1 @ rest)" by simp
  with scan_int_part_append[OF p(2) assms(2)] scan_frac_append[OF p(3) assms(2)]
    scan_exp_append[OF p(4) assms(2)] number_value_float[OF p(5)]
  show ?thesis by (simp add: scan_number_def)
qed

subsection \<open>Strings\<close>

lemma utf8_ascii: "n < 128 \<Longrightarrow> utf8 n = [char_of n]"
  by (simp add: utf8_def)

lemma low_surrogate_small: "n < 55296 \<Longrightarrow> low_surrogate n s = None"
  by (induction n s rule: low_surrogate.induct) auto

lemma scan_escape_control:
  assumes "char_nat c < 32"
  shows "scan_escape (CHR ''u'' # CHR ''0'' # CHR ''0'' # digit_char (char_nat c div 16)
           # digit_char (char_nat c mod 16) # s) = Some ([c], s)"
proof -
  have "hex_val (CHR ''0'') = Some 0" using hex_val_digit_char[of 0] by simp
  moreover have "char_nat c div 16 < 16" and "char_nat c mod 16 < 16" using assms by auto
  ultimately have "hex4 (CHR ''0'') (CHR ''0'') (digit_char (char_nat c div 16))
      (digit_char (char_nat c mod 16)) = Some (char_nat c)"
    by (simp add: hex4_def)
  then show ?thesis
    using assms by (simp add: scan_escape_def low_surrogate_small utf8_ascii)
qed

lemma scan_escape_short:
  "scan_escape (dquote # s) = Some ([dquote], s)"
  "scan_escape (bslash # s) = Some ([bslash], s)"
  "scan_escape (CHR ''n'' # s) = Some ([CHR 0x0A], s)"
  "scan_escape (CHR ''r'' # s) = Some ([CHR 0x0D], s)"
  "scan_escape (CHR ''t'' # s) = Some ([CHR 0x09], s)"
  "scan_escape (CHR ''f'' # s) = Some ([CHR 0x0C], s)"
  "scan_escape (CHR ''b'' # s) = Some ([CHR 0x08], s)"
  by (simp_all add: scan_escape_def unescape_def)

lemma scan_string_escape_char:
  "scan_string (escape_char c @ s) = map_option (\<lambda>(v, rest). (c # v, rest)) (scan_string s)"
  unfolding escape_char_def
  by (simp add: scan_escape_short scan_escape_control)

lemma scan_write_string: "scan_string (concat (map escape_char v) @ dquote # rest) = Some (v, rest)"
  by (induction v) (simp_all add: scan_string_escape_char)

subsection \<open>Scalars\<close>

definition plain_start :: "char \<Rightarrow> bool" where
  "plain_start c \<longleftrightarrow> \<not> is_ws c \<and> c \<notin> {CHR ''{'', CHR ''['', CHR ''}'', CHR '']''}"

lemma digit_not_letter:
  "is_digit c \<Longrightarrow> c \<noteq> CHR ''n'' \<and> c \<noteq> CHR ''t'' \<and> c \<noteq> CHR ''f'' \<and> c \<noteq> CHR ''N'' \<and> c \<noteq> CHR ''I''
     \<and> c \<noteq> CHR ''-'' \<and> c \<noteq> dquote \<and> plain_start c"
  by (auto simp: is_digit_def digit_val_def char_nat_def plain_start_def is_ws_def)

lemma dec_int_start: "\<exists>c r. dec_int i = c # r \<and> (c = CHR ''-'' \<or> is_digit c)"
proof (cases "i < 0")
  case True
  then show ?thesis by (simp add: dec_int_def)
next
  case False
  obtain c r where c: "dec_nat (nat i) = c # r" by (cases "dec_nat (nat i)") auto
  with dec_nat_digits[of "nat i"] False show ?thesis by (auto simp: dec_int_def)
qed

lemma float_text_start: "is_float_text t \<Longrightarrow> \<exists>c r. t = c # r \<and> (c = CHR ''-'' \<or> is_digit c)"
  by (cases t) (auto simp: is_float_text_def scan_number_def scan_sign_def scan_int_part_def
      is_digit_def digit_val_def char_nat_def split: if_splits option.splits prod.splits)

lemma scan_scalar_number:
  assumes "s = c # r" and "c = CHR ''-'' \<or> is_digit c" and "scan_number fr s = Some res"
  shows "scan_scalar fr s = Some res"
  using assms digit_not_letter[of c]
  by (auto simp: scan_scalar_def strip_prefix_def)

lemma scan_scalar_special:
  "scan_scalar fr (''NaN'' @ s) = Some (SFloat ''NaN'', s)"
  "scan_scalar fr (''Infinity'' @ s) = Some (SFloat ''Infinity'', s)"
  "scan_scalar fr (''-Infinity'' @ s) = Some (SFloat ''-Infinity'', s)"
  by (simp_all add: scan_scalar_def strip_prefix_def scan_number_def scan_sign_def
      scan_int_part_def is_digit_def digit_val_def char_nat_def)

lemma scan_write_scalar:
  assumes "scalar_ok fr a" and "delimited rest"
  shows "scan_scalar fr (write_scalar a @ rest) = Some (a, rest)"
proof (cases a)
  case SNull
  then show ?thesis by (simp add: scan_scalar_def strip_prefix_def)
next
  case (SBool b)
  then show ?thesis by (simp add: scan_scalar_def strip_prefix_def)
next
  case (SInt i)
  obtain c r where c: "dec_int i = c # r" "c = CHR ''-'' \<or> is_digit c" using dec_int_start by blast
  show ?thesis
    unfolding SInt write_scalar.simps
    by (rule scan_scalar_number[OF _ c(2) scan_number_int[OF assms(2)]]) (simp add: c)
next
  case (SStr v)
  then show ?thesis by (simp add: scan_scalar_def write_string_def scan_write_string)
next
  case (SFloat t)
  then consider "is_float_text t" "fr t = t" | "t = ''NaN''" | "t = ''Infinity''" | "t = ''-Infinity''"
    using assms(1) by (auto simp: float_lexeme_def)
  then show ?thesis
  proof cases
    case 1
    obtain c r where c: "t = c # r" "c = CHR ''-'' \<or> is_digit c"
      using float_text_start[OF 1(1)] by blast
    have "scan_number fr (t @ rest) = Some (SFloat t, rest)"
      using scan_number_float[OF 1(1) assms(2), of fr] 1(2) by simp
    then show ?thesis
      unfolding SFloat write_scalar.simps
      by (intro scan_scalar_number[OF _ c(2)]) (simp_all add: c)
  qed (use SFloat scan_scalar_special in simp_all)
qed

lemma plain_start_minus [simp]: "plain_start (CHR ''-'')"
  by (simp add: plain_start_def is_ws_def)

lemma number_start: "\<exists>c r. t = c # r \<and> (c = CHR ''-'' \<or> is_digit c) \<Longrightarrow> \<exists>c r. t = c # r \<and> plain_start c"
  by (metis digit_not_letter plain_start_minus)

lemma write_scalar_start:
  assumes "scalar_ok fr a"
  shows "\<exists>c r. write_scalar a = c # r \<and> plain_start c"
proof (cases a)
  case (SInt i)
  then show ?thesis using number_start[OF dec_int_start] by simp
next
  case (SFloat t)
  then consider "is_float_text t" | "t = ''NaN''" | "t = ''Infinity''" | "t = ''-Infinity''"
    using assms by (auto simp: float_lexeme_def)
  then show ?thesis
    by cases (use SFloat number_start[OF float_text_start] in
      \<open>simp_all add: plain_start_def is_ws_def\<close>)
qed (simp_all add: plain_start_def is_ws_def write_string_def)

subsection \<open>Values\<close>

lemma dumps_raw_start:
  assumes "json_ok fr v"
  shows "\<exists>c r. dumps_raw v = c # r \<and> \<not> is_ws c \<and> c \<noteq> CHR '']'' \<and> c \<noteq> CHR ''}''"
  using assms write_scalar_start
  by (cases v) (fastforce simp: is_ws_def plain_start_def)+

lemma skip_ws_not_ws [simp]: "\<not> is_ws c \<Longrightarrow> skip_ws (c # s) = c # s"
  by (simp add: skip_ws_def)

lemma skip_ws_dumps_raw: "json_ok fr v \<Longrightarrow> skip_ws (dumps_raw v @ s) = dumps_raw v @ s"
  using dumps_raw_start by fastforce

lemma not_ws_punct [simp]: "\<not> is_ws (CHR '','')" "\<not> is_ws (CHR '']'')" "\<not> is_ws (CHR ''}'')"
    "\<not> is_ws (CHR '':'')" "\<not> is_ws dquote"
  by (simp_all add: is_ws_def)

lemma read_elements_join:
  assumes "xs \<noteq> []"
    and "\<And>x rest. x \<in> set xs \<Longrightarrow> delimited rest \<Longrightarrow> read_value fr (dumps_raw x @ rest) = Some (x, rest)"
    and "list_all (json_ok fr) xs"
  shows "read_elements fr (join '','' (map dumps_raw xs) @ CHR '']'' # rest) = Some (xs, rest)"
  using assms
proof (induction xs)
  case Nil
  then show ?case by simp
next
  case (Cons x xs)
  show ?case
  proof (cases xs)
    case Nil
    with Cons.prems(2)[of x] show ?thesis by (simp add: read_elements.simps)
  next
    case (Cons y ys)
    let ?tail = "join '','' (map dumps_raw xs) @ CHR '']'' # rest"
    have "read_elements fr ?tail = Some (xs, rest)"
      using Cons.IH Cons.prems Cons by simp
    moreover have "skip_ws ?tail = ?tail"
    proof -
      have "\<exists>u. ?tail = dumps_raw y @ u" using Cons by (cases ys) auto
      with Cons.prems(3) Cons skip_ws_dumps_raw show ?thesis by auto
    qed
    ultimately show ?thesis
      using Cons Cons.prems(2)[of x "CHR '','' # ?tail"]
      by (subst read_elements.simps) simp
  qed
qed

lemma write_member_append: "write_member (k, t) @ s = dquote # concat (map escape_char k) @ dquote # CHR '':'' # t @ s"
  by (simp add: write_member_def write_string_def)

lemma read_members_join:
  assumes "kvs \<noteq> []"
    and "\<And>x rest. x \<in> snd ` set kvs \<Longrightarrow> delimited rest \<Longrightarrow> read_value fr (dumps_raw x @ rest) = Some (x, rest)"
    and "list_all (\<lambda>kv. json_ok fr (snd kv)) kvs"
  shows "read_members fr (join '','' (map (\<lambda>kv. write_member (fst kv, dumps_raw (snd kv))) kvs)
           @ CHR ''}'' # rest) = Some (kvs, rest)"
  using assms
proof (induction kvs)
  case Nil
  then show ?case by simp
next
  case (Cons kv kvs)
  obtain k x where kv: "kv = (k, x)" by (cases kv)
  have ok: "json_ok fr x" using Cons.prems(3) kv by simp
  show ?case
  proof (cases kvs)
    case Nil
    with Cons.prems(2)[of x "CHR ''}'' # rest"] kv show ?thesis
      by (simp add: write_member_append read_members.simps scan_write_string skip_ws_dumps_raw[OF ok])
  next
    case (Cons kv' kvs')
    let ?tail = "join '','' (map (\<lambda>kv. write_member (fst kv, dumps_raw (snd kv))) kvs) @ CHR ''}'' # rest"
    have "read_members fr ?tail = Some (kvs, rest)"
      using Cons.IH Cons.prems Cons by simp
    moreover have "skip_ws ?tail = ?tail"
      using Cons by (cases kvs') (simp_all add: write_member_def write_string_def)
    ultimately show ?thesis
      using Cons Cons.prems(2)[of x "CHR '','' # ?tail"] kv
      by (subst read_members.simps)
        (simp add: write_member_append scan_write_string skip_ws_dumps_raw[OF ok])
  qed
qed

lemma dict_of_distinct: "distinct (map fst kvs) \<Longrightarrow> dict_of kvs = kvs"
proof (induction kvs rule: rev_induct)
  case Nil
  show ?case by (simp add: dict_of_def)
next
  case (snoc kv kvs)
  then show ?case
    by (cases kv) (simp add: dict_of_def alist_update_fresh)
qed

lemma read_dumps_raw:
  "json_ok fr v \<Longrightarrow> delimited rest \<Longrightarrow> read_value fr (dumps_raw v @ rest) = Some (v, rest)"
proof (induction v arbitrary: rest)
  case (JLeaf a)
  obtain c r where "write_scalar a = c # r" "plain_start c"
    using write_scalar_start JLeaf.prems(1) by (metis json_ok.simps(1))
  with JLeaf show ?case
    using scan_write_scalar[of fr a rest] by (simp add: read_value.simps plain_start_def)
next
  case (JArr xs)
  show ?case
  proof (cases xs)
    case Nil
    then show ?thesis by (simp add: read_value.simps)
  next
    case (Cons x ys)
    let ?body = "join '','' (map dumps_raw xs) @ CHR '']'' # rest"
    have e: "read_elements fr ?body = Some (xs, rest)"
      by (rule read_elements_join) (use JArr Cons in \<open>auto simp: list_all_iff\<close>)
    obtain u where u: "?body = dumps_raw x @ u" using Cons by (cases ys) auto
    obtain c r where c: "dumps_raw x = c # r" "\<not> is_ws c" "c \<noteq> CHR '']''"
      using dumps_raw_start[of fr x] JArr.prems(1) Cons by auto
    from e u c show ?thesis by (simp add: read_value.simps)
  qed
next
  case (JObj kvs)
  show ?case
  proof (cases kvs)
    case Nil
    then show ?thesis by (simp add: read_value.simps)
  next
    case (Cons kv kvs')
    let ?body = "join '','' (map (\<lambda>kv. write_member (fst kv, dumps_raw (snd kv))) kvs) @ CHR ''}'' # rest"
    have e: "read_members fr ?body = Some (kvs, rest)"
    proof (rule read_members_join)
      show "kvs \<noteq> []" using Cons by simp
      show "list_all (\<lambda>kv. json_ok fr (snd kv)) kvs" using JObj.prems by simp
      fix x and rest' :: string
      assume "x \<in> snd ` set kvs" and d: "delimited rest'"
      then obtain k where "(k, x) \<in> set kvs" by auto
      with JObj.IH[of "(k, x)" x rest'] JObj.prems(1) d
      show "read_value fr (dumps_raw x @ rest') = Some (x, rest')"
        by (auto simp: list_all_iff)
    qed
    obtain u where u: "?body = dquote # u"
      using Cons by (cases kvs') (simp_all add: write_member_def write_string_def)
    from e u JObj.prems show ?thesis
      by (simp add: read_value.simps dict_of_distinct)
  qed
qed

subsection \<open>What the reader returns\<close>

definition no_digit_next :: "string \<Rightarrow> bool" where
  "no_digit_next s \<longleftrightarrow> (case s of [] \<Rightarrow> True | c # _ \<Rightarrow> \<not> is_digit c)"

lemma takeWhile_digits_stop:
  assumes "list_all is_digit ds" and "no_digit_next r"
  shows "takeWhile is_digit (ds @ r) = ds" and "dropWhile is_digit (ds @ r) = r"
  using assms by (induction ds) (auto simp: no_digit_next_def split: list.splits)

lemma takeWhile_is_digit_all: "list_all is_digit (takeWhile is_digit s)"
  by (simp add: list_all_iff) (metis set_takeWhileD)

lemma digit_0: "is_digit (CHR ''0'')"
  by (simp add: is_digit_def digit_val_def char_nat_def)

lemma scan_int_part_again:
  assumes "scan_int_part s = Some (ds, r)" and "no_digit_next r'"
  shows "scan_int_part (ds @ r') = Some (ds, r')"
proof -
  from assms(1) consider "ds = ''0''" | c u where "s = c # u" "c \<noteq> CHR ''0''" "is_digit c" "ds = takeWhile is_digit s"
    by (auto simp: scan_int_part_def split: list.splits if_splits)
  then show ?thesis
  proof cases
    case 1
    then show ?thesis by (simp add: scan_int_part_def)
  next
    case 2
    then have "takeWhile is_digit (ds @ r') = ds" "dropWhile is_digit (ds @ r') = r'"
      using takeWhile_digits_stop[OF takeWhile_is_digit_all assms(2), of s] by auto
    with 2 show ?thesis by (auto simp: scan_int_part_def)
  qed
qed

lemma scan_frac_cases:
  assumes "scan_frac s = (f, r)"
  obtains "f = []" "r = s" | ds where "f = CHR ''.'' # ds" "ds \<noteq> []" "list_all is_digit ds"
  using assms by (auto simp: scan_frac_def takeWhile_is_digit_all split: list.splits if_splits)

lemma scan_exp_sign_cases:
  assumes "scan_exp_sign s = (sg, r)"
  shows "sg = [] \<or> sg = ''+'' \<or> sg = ''-''"
  using assms by (auto simp: scan_exp_sign_def split: list.splits if_splits)

lemma scan_exp_cases:
  assumes "scan_exp s = (x, r)"
  obtains "x = []" | c sg ds where "x = c # sg @ ds" "c = CHR ''e'' \<or> c = CHR ''E''"
    "sg = [] \<or> sg = ''+'' \<or> sg = ''-''" "ds \<noteq> []" "list_all is_digit ds"
proof -
  consider "x = []" | c u sg r1 where "s = c # u" "c = CHR ''e'' \<or> c = CHR ''E''"
    "scan_exp_sign u = (sg, r1)" "x = c # sg @ takeWhile is_digit r1" "takeWhile is_digit r1 \<noteq> []"
    using assms by (auto simp: scan_exp_def split: list.splits if_splits prod.splits)
  then show thesis
  proof cases
    case 1
    then show thesis by (rule that(1))
  next
    case 2
    then show thesis
      using that(2)[OF 2(4,2) scan_exp_sign_cases[OF 2(3)] 2(5) takeWhile_is_digit_all] by blast
  qed
qed

lemma scan_frac_again:
  assumes "scan_frac s = (f, r)" and "no_digit_next r'"
    and "f = [] \<Longrightarrow> scan_frac r' = ([], r')"
  shows "scan_frac (f @ r') = (f, r')"
  using assms(1)
proof (cases rule: scan_frac_cases)
  case 1
  with assms(3) show ?thesis by simp
next
  case (2 ds)
  with takeWhile_digits_stop[OF 2(3) assms(2)] show ?thesis by (simp add: scan_frac_def)
qed

lemma scan_exp_again:
  assumes "scan_exp s = (x, r)"
  shows "scan_exp x = (x, [])"
  using assms
proof (cases rule: scan_exp_cases)
  case 1
  then show ?thesis by (simp add: scan_exp_def)
next
  case (2 c sg ds)
  obtain d u where d: "ds = d # u" "is_digit d" using 2(4,5) by (cases ds) auto
  then have "d \<noteq> CHR ''+''" "d \<noteq> CHR ''-''"
    by (auto simp: is_digit_def digit_val_def char_nat_def)
  with 2 d takeWhile_digits_stop[OF 2(5), of "[]"] show ?thesis
    by (auto simp: scan_exp_def scan_exp_sign_def no_digit_next_def)
qed

lemma scan_exp_no_digit: "scan_exp s = (x, r) \<Longrightarrow> no_digit_next x \<and> scan_frac x = ([], x)"
  by (erule scan_exp_cases)
    (auto simp: no_digit_next_def scan_frac_def is_digit_def digit_val_def char_nat_def)

lemma scan_frac_no_digit: "scan_frac s = (f, r) \<Longrightarrow> no_digit_next x \<Longrightarrow> no_digit_next (f @ x)"
  by (erule scan_frac_cases)
    (auto simp: no_digit_next_def is_digit_def digit_val_def char_nat_def)

lemma scan_number_float_text:
  assumes "scan_number fr s = Some (SFloat t, rest)" and "float_text_ok fr"
  shows "float_lexeme fr t"
proof -
  from assms(1) obtain neg s1 ds s2 f s3 x where
    p: "scan_sign s = (neg, s1)" "scan_int_part s1 = Some (ds, s2)" "scan_frac s2 = (f, s3)"
      "scan_exp s3 = (x, rest)" "number_value fr neg ds f x = SFloat t"
    by (auto simp: scan_number_def split: prod.splits option.splits)
  define w where "w = ds @ f @ x"
  have i: "scan_int_part w = Some (ds, f @ x)"
    unfolding w_def using scan_exp_no_digit[OF p(4)] scan_frac_no_digit[OF p(3)]
    by (intro scan_int_part_again[OF p(2)]) blast
  have f: "scan_frac (f @ x) = (f, x)"
    using scan_exp_no_digit[OF p(4)] by (intro scan_frac_again[OF p(3)]) auto
  have x: "scan_exp x = (x, [])" by (rule scan_exp_again[OF p(4)])
  from i obtain c u where c: "w = c # u" "is_digit c"
    by (auto simp: scan_int_part_def digit_0 split: list.splits if_splits)
  have "scan_sign ((if neg then ''-'' else []) @ w) = (neg, w)"
    using c by (simp add: scan_sign_digit) (simp add: scan_sign_def)
  with i f x p(5) have "is_float_text ((if neg then ''-'' else []) @ w)"
    by (auto simp: is_float_text_def scan_number_def number_value_def w_def split: if_splits)
  moreover have "t = fr ((if neg then ''-'' else []) @ w)"
    using p(5) by (auto simp: number_value_def w_def split: if_splits)
  ultimately show ?thesis using assms(2) by (auto simp: float_text_ok_def)
qed

lemma scan_scalar_ok:
  assumes "scan_scalar fr s = Some (a, rest)" and "float_text_ok fr"
  shows "scalar_ok fr a"
proof (cases a)
  case (SFloat t)
  with assms(1) have "scan_number fr s = Some (SFloat t, rest) \<or> t = ''NaN'' \<or> t = ''Infinity'' \<or> t = ''-Infinity''"
    by (auto simp: scan_scalar_def split: list.splits if_splits option.splits)
  with assms(2) scan_number_float_text[of fr s t rest] SFloat show ?thesis
    by (auto simp: float_lexeme_def)
qed simp_all

lemma dict_of_update_snoc:
  "dict_of (kvs @ [(k, v)]) = AList.update k v (dict_of kvs)"
  by (simp add: dict_of_def)

lemma dict_of_distinct_keys: "distinct (map fst (dict_of kvs))"
proof (induction kvs rule: rev_induct)
  case Nil
  show ?case by (simp add: dict_of_def)
next
  case (snoc kv kvs)
  then show ?case by (cases kv) (simp only: dict_of_update_snoc distinct_map_fst_update)
qed

lemma dict_of_values: "snd ` set (dict_of kvs) \<subseteq> snd ` set kvs"
proof (induction kvs rule: rev_induct)
  case Nil
  show ?case by (simp add: dict_of_def)
next
  case (snoc kv kvs)
  obtain k v where kv: "kv = (k, v)" by (cases kv)
  have "snd ` set (AList.update k v al) \<subseteq> insert v (snd ` set al)" for al
    by (induction al) auto
  from this[of "dict_of kvs"] snoc have "snd ` set (AList.update k v (dict_of kvs)) \<subseteq> insert v (snd ` set kvs)"
    by blast
  then show ?case by (simp add: kv dict_of_update_snoc)
qed

lemma read_ok_aux:
  "float_text_ok fr \<Longrightarrow> read_value fr s = Some (v, rest) \<Longrightarrow> json_ok fr v"
  "float_text_ok fr \<Longrightarrow> read_elements fr s = Some (vs, rest) \<Longrightarrow> list_all (json_ok fr) vs"
  "float_text_ok fr \<Longrightarrow> read_members fr s = Some (kvs, rest) \<Longrightarrow> list_all (\<lambda>kv. json_ok fr (snd kv)) kvs"
proof (induction fr s and fr s and fr s arbitrary: v rest and vs rest and kvs rest
    rule: read_value_read_elements_read_members.induct)
  case (1 fr s)
  have obj: "json_ok fr (JObj (dict_of ms))" if "list_all (\<lambda>kv. json_ok fr (snd kv)) ms" for ms
    using that dict_of_distinct_keys[of ms] dict_of_values[of ms] by (fastforce simp: list_all_iff)
  from "1.prems"(2) obtain c r where s: "s = c # r"
    by (auto simp: read_value.simps[of fr s] split: list.splits)
  consider "c = CHR ''{''" | "c = CHR ''[''" | "c \<noteq> CHR ''{''" "c \<noteq> CHR ''[''" by blast
  then show ?case
  proof cases
    case 1
    with "1.prems"(2) s obtain d r' where d: "skip_ws r = d # r'"
      by (auto simp: read_value.simps split: list.splits)
    show ?thesis
      using "1.prems" "1.IH"(1)[OF s 1 d] s 1 d obj
      by (fastforce simp: read_value.simps split: if_splits)
  next
    case 2
    with "1.prems"(2) s obtain d r' where d: "skip_ws r = d # r'"
      by (auto simp: read_value.simps split: list.splits)
    show ?thesis
      using "1.prems" "1.IH"(2)[OF s _ 2 d] s 2 d
      by (fastforce simp: read_value.simps split: if_splits)
  next
    case 3
    with "1.prems" s show ?thesis
      by (auto simp: read_value.simps dest: scan_scalar_ok)
  qed
next
  case (2 fr s)
  from "2.prems"(2) obtain x s1 c r' where x: "read_value fr s = Some (x, s1)" and c: "skip_ws s1 = c # r'"
    by (auto simp: read_elements.simps[of fr s] split: option.splits list.splits)
  show ?case
    using "2.prems" x c "2.IH"(1)[OF _ x] "2.IH"(2)[OF x refl c]
    by (fastforce simp: read_elements.simps[of fr s] split: if_splits)
next
  case (3 fr s)
  from "3.prems"(2) obtain c r' k s1 where s: "s = c # r'" and c: "\<not> c \<noteq> dquote"
    and k: "scan_string r' = Some (k, s1)"
    by (auto simp: read_members.simps[of fr s] split: list.splits if_splits option.splits)
  with "3.prems"(2) obtain d s2 x s3 where d: "skip_ws s1 = d # s2" and d': "\<not> d \<noteq> CHR '':''"
    and x: "read_value fr (skip_ws s2) = Some (x, s3)"
    by (auto simp: read_members.simps[of fr "dquote # r'"] split: list.splits if_splits option.splits)
  with "3.prems"(2) s c k obtain e s4 where e: "skip_ws s3 = e # s4"
    by (auto simp: read_members.simps[of fr "dquote # r'"] split: list.splits)
  show ?case
    using "3.prems" s c k d d' x e "3.IH"(1)[OF s c k refl d d' _ x]
      "3.IH"(2)[OF s c k refl d d' x refl e]
    by (fastforce simp: read_members.simps[of fr "dquote # r'"] split: if_splits)
qed

lemma json_loads_ok: "float_text_ok fr \<Longrightarrow> json_loads fr s = Some v \<Longrightarrow> json_ok fr v"
  by (auto simp: json_loads_def split: option.splits if_splits dest: read_ok_aux(1))

lemma json_loads_dumps_raw: "json_ok fr v \<Longrightarrow> json_loads fr (dumps_raw v) = Some v"
  using read_dumps_raw[of fr v "[]"] skip_ws_dumps_raw[of fr v "[]"]
  by (simp add: json_loads_def) (simp add: skip_ws_def)

section \<open>Canonical form\<close>

lemma insort_key_map_snd:
  "insort_key fst (fst kv, g (snd kv)) (map (\<lambda>kv. (fst kv, g (snd kv))) ys)
     = map (\<lambda>kv. (fst kv, g (snd kv))) (insort_key fst kv ys)"
  by (induction ys) auto

lemma sort_key_map_snd:
  "sort_key fst (map (\<lambda>kv. (fst kv, g (snd kv))) kvs) = map (\<lambda>kv. (fst kv, g (snd kv))) (sort_key fst kvs)"
  by (induction kvs) (simp_all add: insort_key_map_snd)

lemma dumps_sorted_canon: "dumps_sorted v = dumps_raw (canon v)"
proof (induction v)
  case (JLeaf a)
  show ?case by simp
next
  case (JArr xs)
  then have "map dumps_sorted xs = map (\<lambda>x. dumps_raw (canon x)) xs" by (intro map_cong) auto
  then show ?case by (simp only: dumps_sorted.simps canon.simps dumps_raw.simps map_map comp_def)
next
  case (JObj kvs)
  have "map (\<lambda>kv. (fst kv, dumps_sorted (snd kv))) kvs
      = map (\<lambda>kv. (fst kv, dumps_raw (canon (snd kv)))) kvs"
    using JObj by (intro map_cong) (auto simp: snds.simps)
  moreover have "sort_key fst (map (\<lambda>kv. (fst kv, dumps_raw (canon (snd kv)))) kvs)
      = map (\<lambda>kv. (fst kv, dumps_raw (snd kv))) (sort_key fst (map (\<lambda>kv. (fst kv, canon (snd kv))) kvs))"
    by (simp only: sort_key_map_snd[where g = "\<lambda>x. dumps_raw (canon x)"]
        sort_key_map_snd[where g = canon] map_map comp_def fst_conv snd_conv)
  ultimately show ?case
    by (simp only: dumps_sorted.simps canon.simps dumps_raw.simps map_map comp_def)
qed

lemma canon_ok: "json_ok fr v \<Longrightarrow> json_ok fr (canon v)"
proof (induction v)
  case (JObj kvs)
  then show ?case
    by (auto simp: list_all_iff comp_def sort_key_map_snd[where g = canon] distinct_map
        inj_on_def intro: snds.intros)
qed (auto simp: list_all_iff)

lemma canon_canon: "canon (canon v) = canon v"
proof (induction v)
  case (JObj kvs)
  have "map (\<lambda>kv. (fst kv, canon (canon (snd kv)))) kvs = map (\<lambda>kv. (fst kv, canon (snd kv))) kvs"
    using JObj by (intro map_cong) (auto simp: snds.simps)
  moreover have "sort_key fst (map (\<lambda>kv. (fst kv, canon (snd kv))) (sort_key fst (map (\<lambda>kv. (fst kv, canon (snd kv))) kvs)))
      = sort_key fst (map (\<lambda>kv. (fst kv, canon (canon (snd kv)))) kvs)"
    by (simp only: sort_key_map_snd[where g = canon] sort_key_map_snd[where g = "\<lambda>x. canon (canon x)"]
        map_map comp_def fst_conv snd_conv sort_key_id_if_sorted sorted_sort_key)
  ultimately show ?case by (simp only: canon.simps)
qed auto


lemma json_loads_dumps_sorted: "json_ok fr v \<Longrightarrow> json_loads fr (dumps_sorted v) = Some (canon v)"
  by (simp add: dumps_sorted_canon json_loads_dumps_raw canon_ok)

text \<open>The canonical text determines the value up to the order of object members.\<close>

lemma dumps_sorted_inj:
  assumes "json_ok fr u" and "json_ok fr v"
  shows "dumps_sorted u = dumps_sorted v \<longleftrightarrow> canon u = canon v"
proof
  assume "dumps_sorted u = dumps_sorted v"
  then show "canon u = canon v"
    using json_loads_dumps_sorted[OF assms(1)] json_loads_dumps_sorted[OF assms(2)] by simp
next
  assume "canon u = canon v"
  then show "dumps_sorted u = dumps_sorted v" by (simp only: dumps_sorted_canon)
qed

lemma canon_member_order:
  assumes "mset kvs = mset kvs'" and "distinct (map fst kvs)"
  shows "canon (JObj kvs) = canon (JObj kvs')"
proof -
  let ?f = "\<lambda>kv. (fst kv, canon (snd kv))"
  have "sort_key fst (map ?f kvs) = sort_key fst (map ?f kvs')"
  proof (rule sort_key_mset_unique)
    show "mset (map ?f kvs) = mset (map ?f kvs')" using assms(1) by simp
    show "inj_on fst (set (map ?f kvs))"
      using assms(2) by (auto simp: distinct_map inj_on_def)
  qed
  then show ?thesis by simp
qed

lemma canon_obj_member:
  assumes "canon (JObj kvs) = canon (JObj kvs')" and "distinct (map fst kvs)" and "distinct (map fst kvs')"
  shows "map_option canon (map_of kvs k) = map_option canon (map_of kvs' k)"
proof -
  let ?f = "\<lambda>kv. (fst kv, canon (snd kv))"
  have "sort_key fst (map ?f kvs) = sort_key fst (map ?f kvs')"
    using assms(1) by (simp only: canon.simps json.inject)
  from arg_cong[OF this, of mset] have "set_mset (mset (map ?f kvs)) = set_mset (mset (map ?f kvs'))"
    by (simp only: mset_sort)
  then have m: "set (map ?f kvs) = set (map ?f kvs')" by (simp only: set_mset_mset)
  have d: "distinct (map fst (map ?f kvs))" "distinct (map fst (map ?f kvs'))"
    using assms(2,3) by (simp_all add: comp_def)
  have "map_of (map ?f kvs) = map_of (map ?f kvs')"
    using map_of_inject_set[OF d] m by blast
  moreover have "map_of (map ?f al) k = map_option canon (map_of al k)" for al
    by (induction al) auto
  ultimately show ?thesis by metis
qed

lemma canon_arr_iff: "canon (JArr xs) = canon (JArr ys) \<longleftrightarrow> map canon xs = map canon ys"
  by simp

end
