(* ===== verification/Errors.thy ===== *)
theory Errors
  imports Json
begin

text \<open>
  The exceptions of \<open>errors.py\<close> (with the two defined beside the code that raises them,
  \<open>ProjectionUnavailableError\<close> and \<open>PackHarnessError\<close>), those of ActiveGraph, the SurrealDB SDK
  and Python that the provider raises or tells apart, and \<open>Foreign\<close> for every other class: its
  name and its \<open>str\<close>. Also the text primitives that messages and checks on messages use.
\<close>

section \<open>Texts\<close>

text \<open>\<open>repr\<close> of a \<open>str\<close>; characters beyond ASCII are printed as they are.\<close>

definition repr_char :: "char \<Rightarrow> char \<Rightarrow> string" where
  "repr_char q c =
     (if c = q \<or> c = bslash then [bslash, c]
      else if c = CHR 0x0A then [bslash, CHR ''n'']
      else if c = CHR 0x0D then [bslash, CHR ''r'']
      else if c = CHR 0x09 then [bslash, CHR ''t'']
      else if char_nat c < 32 \<or> char_nat c = 127 then
        [bslash, CHR ''x'', digit_char (char_nat c div 16), digit_char (char_nat c mod 16)]
      else [c])"

definition py_repr :: "string \<Rightarrow> string" where
  "py_repr s =
     (let q = (if CHR 0x27 \<in> set s \<and> dquote \<notin> set s then dquote else CHR 0x27)
      in q # concat (map (repr_char q) s) @ [q])"

definition lower_char :: "char \<Rightarrow> char" where
  "lower_char c = (if 65 \<le> char_nat c \<and> char_nat c \<le> 90 then char_of (char_nat c + 32) else c)"

definition lower :: "string \<Rightarrow> string" where
  "lower s = map lower_char s"

text \<open>\<open>w in s\<close>, \<open>s.startswith(w)\<close> and \<open>s.endswith(w)\<close>.\<close>

definition starts_with :: "string \<Rightarrow> string \<Rightarrow> bool" where
  "starts_with w s \<longleftrightarrow> take (length w) s = w"

definition ends_with :: "string \<Rightarrow> string \<Rightarrow> bool" where
  "ends_with w s \<longleftrightarrow> starts_with (rev w) (rev s)"

fun occurs_in :: "string \<Rightarrow> string \<Rightarrow> bool" where
  "occurs_in w [] = (w = [])"
| "occurs_in w (c # s) = (starts_with w (c # s) \<or> occurs_in w s)"

lemma starts_with_append [simp]: "starts_with w (w @ s)"
  by (simp add: starts_with_def)

lemma starts_with_iff: "starts_with w s \<longleftrightarrow> (\<exists>r. s = w @ r)"
  by (auto simp: starts_with_def) (metis append_take_drop_id)

lemma ends_with_iff: "ends_with w s \<longleftrightarrow> (\<exists>r. s = r @ w)"
  unfolding ends_with_def starts_with_iff by (metis rev_append rev_rev_ident)

lemma occurs_in_iff: "occurs_in w s \<longleftrightarrow> (\<exists>a b. s = a @ w @ b)"
proof (induction s)
  case Nil
  then show ?case by auto
next
  case (Cons c s)
  show ?case
  proof
    assume "occurs_in w (c # s)"
    then consider r where "c # s = w @ r" | "occurs_in w s" by (auto simp: starts_with_iff)
    then show "\<exists>a b. c # s = a @ w @ b"
    proof cases
      case 1
      then show ?thesis by (metis append_Nil)
    next
      case 2
      with Cons show ?thesis by (metis append_Cons)
    qed
  next
    assume "\<exists>a b. c # s = a @ w @ b"
    then obtain a b where ab: "c # s = a @ w @ b" by blast
    then have "a = [] \<longrightarrow> starts_with w (c # s)" by (auto simp: starts_with_iff)
    moreover have "a \<noteq> [] \<longrightarrow> occurs_in w s" using ab Cons by (cases a) auto
    ultimately show "occurs_in w (c # s)" by auto
  qed
qed

section \<open>Exceptions\<close>

datatype exn =
    ConfigurationError string
  | SurrealProviderError string
  | LedgerIntegrityError string
  | ConcurrentWriterError string
  | ForkPointNotFoundError string
  | RunAlreadyExistsError string
  | UnsupportedCompactedRunError string
  | ClosedStoreError string
  | ProjectionUnavailableError string
  | PackHarnessError string
  | DuplicateEventError string
  | EventNotFoundError string
  | NonSerializableEventError string
  | SdkNotFoundError string
  | ValueError string
  | TypeError string
  | KeyError string
  | JSONDecodeError string
  | TimeoutError string
  | ImportError string
  | Foreign string string

text \<open>\<open>str(exc)\<close>\<close>

fun exn_text :: "exn \<Rightarrow> string" where
  "exn_text (ConfigurationError m) = m"
| "exn_text (SurrealProviderError m) = m"
| "exn_text (LedgerIntegrityError m) = m"
| "exn_text (ConcurrentWriterError m) = m"
| "exn_text (ForkPointNotFoundError m) = py_repr m"
| "exn_text (RunAlreadyExistsError m) = m"
| "exn_text (UnsupportedCompactedRunError m) = m"
| "exn_text (ClosedStoreError m) = m"
| "exn_text (ProjectionUnavailableError m) = m"
| "exn_text (PackHarnessError m) = m"
| "exn_text (DuplicateEventError m) = m"
| "exn_text (EventNotFoundError m) = m"
| "exn_text (NonSerializableEventError m) = m"
| "exn_text (SdkNotFoundError m) = m"
| "exn_text (ValueError m) = m"
| "exn_text (TypeError m) = m"
| "exn_text (KeyError m) = py_repr m"
| "exn_text (JSONDecodeError m) = m"
| "exn_text (TimeoutError m) = m"
| "exn_text (ImportError m) = m"
| "exn_text (Foreign c m) = m"

text \<open>\<open>type(exc).__name__\<close>\<close>

fun exn_class :: "exn \<Rightarrow> string" where
  "exn_class (ConfigurationError m) = ''ConfigurationError''"
| "exn_class (SurrealProviderError m) = ''SurrealProviderError''"
| "exn_class (LedgerIntegrityError m) = ''LedgerIntegrityError''"
| "exn_class (ConcurrentWriterError m) = ''ConcurrentWriterError''"
| "exn_class (ForkPointNotFoundError m) = ''ForkPointNotFoundError''"
| "exn_class (RunAlreadyExistsError m) = ''RunAlreadyExistsError''"
| "exn_class (UnsupportedCompactedRunError m) = ''UnsupportedCompactedRunError''"
| "exn_class (ClosedStoreError m) = ''ClosedStoreError''"
| "exn_class (ProjectionUnavailableError m) = ''ProjectionUnavailableError''"
| "exn_class (PackHarnessError m) = ''PackHarnessError''"
| "exn_class (DuplicateEventError m) = ''DuplicateEventError''"
| "exn_class (EventNotFoundError m) = ''EventNotFoundError''"
| "exn_class (NonSerializableEventError m) = ''NonSerializableEventError''"
| "exn_class (SdkNotFoundError m) = ''NotFoundError''"
| "exn_class (ValueError m) = ''ValueError''"
| "exn_class (TypeError m) = ''TypeError''"
| "exn_class (KeyError m) = ''KeyError''"
| "exn_class (JSONDecodeError m) = ''JSONDecodeError''"
| "exn_class (TimeoutError m) = ''TimeoutError''"
| "exn_class (ImportError m) = ''ImportError''"
| "exn_class (Foreign c m) = c"

text \<open>The bases of the provider's own classes, nearest first: \<open>isinstance(exc, cls)\<close>.\<close>

fun bases :: "string \<Rightarrow> string list" where
  "bases c =
     (if c = ''ConfigurationError'' then [''ValueError'']
      else if c \<in> {''LedgerIntegrityError'', ''ConcurrentWriterError'', ''RunAlreadyExistsError'',
                   ''UnsupportedCompactedRunError'', ''ClosedStoreError'', ''ProjectionUnavailableError''}
        then [''SurrealProviderError'', ''StorageError'']
      else if c = ''ForkPointNotFoundError'' then [''SurrealProviderError'', ''StorageError'', ''KeyError'']
      else if c = ''SurrealProviderError'' then [''StorageError'']
      else if c = ''PackHarnessError'' then [''RuntimeError'']
      else if c = ''JSONDecodeError'' then [''ValueError'']
      else [])"

definition is_instance :: "exn \<Rightarrow> string \<Rightarrow> bool" where
  "is_instance e c \<longleftrightarrow> c = exn_class e \<or> c \<in> set (bases (exn_class e))"

definition is_duplicate :: "exn \<Rightarrow> bool" where
  "is_duplicate e \<longleftrightarrow> (case e of DuplicateEventError _ \<Rightarrow> True | _ \<Rightarrow> False)"

definition is_concurrent :: "exn \<Rightarrow> bool" where
  "is_concurrent e \<longleftrightarrow> (case e of ConcurrentWriterError _ \<Rightarrow> True | _ \<Rightarrow> False)"

definition is_event_not_found :: "exn \<Rightarrow> bool" where
  "is_event_not_found e \<longleftrightarrow> (case e of EventNotFoundError _ \<Rightarrow> True | _ \<Rightarrow> False)"

definition is_run_exists :: "exn \<Rightarrow> bool" where
  "is_run_exists e \<longleftrightarrow> (case e of RunAlreadyExistsError _ \<Rightarrow> True | _ \<Rightarrow> False)"

definition is_sdk_not_found :: "exn \<Rightarrow> bool" where
  "is_sdk_not_found e \<longleftrightarrow> (case e of SdkNotFoundError _ \<Rightarrow> True | _ \<Rightarrow> False)"

end
