(* ===== verification/Keys.thy ===== *)
theory Keys
  imports Errors
begin

text \<open>
  \<open>keys.py\<close>: opaque record keys. A key is the SHA-256 digest of its parts, each preceded by its
  length in eight bytes. The digest is the argument \<open>sha\<close> (the hexadecimal digest of a byte
  string); nothing is assumed of it, and what is shown of keys is stated up to a collision of it.
\<close>

text \<open>\<open>n.to_bytes(8, "big")\<close>; no text in memory is \<open>2^64\<close> bytes long.\<close>

fun big_endian :: "nat \<Rightarrow> nat \<Rightarrow> string" where
  "big_endian 0 n = []"
| "big_endian (Suc k) n = big_endian k (n div 256) @ [char_of (n mod 256)]"

definition be8 :: "nat \<Rightarrow> string" where
  "be8 n = big_endian 8 n"

definition framed :: "string \<Rightarrow> string" where
  "framed part = be8 (length part) @ part"

definition record_key :: "(string \<Rightarrow> string) \<Rightarrow> string list \<Rightarrow> string" where
  "record_key sha parts = sha (concat (map framed parts))"

text \<open>\<open>connection.record_id(table, *parts)\<close>: the key under which the table holds the record.\<close>

definition record_id :: "(string \<Rightarrow> string) \<Rightarrow> string \<Rightarrow> string list \<Rightarrow> string" where
  "record_id sha table parts = record_key sha (table # parts)"

definition bytes_value :: "string \<Rightarrow> nat" where
  "bytes_value s = foldl (\<lambda>a c. 256 * a + char_nat c) 0 s"

lemma bytes_value_big_endian: "n < 256 ^ k \<Longrightarrow> bytes_value (big_endian k n) = n"
proof (induction k arbitrary: n)
  case 0
  then show ?case by (simp add: bytes_value_def)
next
  case (Suc k)
  then have "bytes_value (big_endian k (n div 256)) = n div 256"
    by (simp add: less_mult_imp_div_less mult.commute)
  then show ?case by (simp add: bytes_value_def char_nat_def)
qed

lemma length_be8 [simp]: "length (be8 n) = 8"
proof -
  have "length (big_endian k n) = k" for k n by (induction k arbitrary: n) auto
  then show ?thesis by (simp add: be8_def)
qed

lemma bytes_value_be8: "n < 2 ^ 64 \<Longrightarrow> bytes_value (be8 n) = n"
  unfolding be8_def by (rule bytes_value_big_endian) simp

lemma be8_inj: "be8 m = be8 n \<Longrightarrow> m < 2 ^ 64 \<Longrightarrow> n < 2 ^ 64 \<Longrightarrow> m = n"
  by (metis bytes_value_be8)

lemma framed_inj:
  assumes "framed p @ r = framed q @ s" and "length p < 2 ^ 64" and "length q < 2 ^ 64"
  shows "p = q \<and> r = s"
proof -
  from assms(1) have "be8 (length p) = be8 (length q)" and b: "p @ r = q @ s"
    by (simp_all add: framed_def)
  then have "length p = length q"
    using be8_inj assms(2,3) by blast
  with b show ?thesis by simp
qed

lemma framed_nonempty: "framed p \<noteq> []"
  using length_be8[of "length p"] by (cases "be8 (length p)") (simp_all add: framed_def)

lemma framed_parts_inj:
  "\<lbrakk>concat (map framed ps) = concat (map framed qs);
    \<forall>p\<in>set ps. length p < 2 ^ 64; \<forall>q\<in>set qs. length q < 2 ^ 64\<rbrakk> \<Longrightarrow> ps = qs"
proof (induction ps arbitrary: qs)
  case Nil
  then show ?case using framed_nonempty by (cases qs) auto
next
  case (Cons p ps)
  then obtain q qs' where qs: "qs = q # qs'"
    using framed_nonempty by (cases qs) auto
  with Cons.prems have "p = q \<and> concat (map framed ps) = concat (map framed qs')"
    by (intro framed_inj) auto
  with Cons qs show ?case by auto
qed

text \<open>Keys that agree although their parts differ exhibit a collision of the digest.\<close>

lemma record_key_inj_or_collision:
  assumes "record_key sha ps = record_key sha qs"
    and "\<forall>p\<in>set ps. length p < 2 ^ 64" and "\<forall>q\<in>set qs. length q < 2 ^ 64"
  shows "ps = qs \<or> (concat (map framed ps) \<noteq> concat (map framed qs)
     \<and> sha (concat (map framed ps)) = sha (concat (map framed qs)))"
  using framed_parts_inj[OF _ assms(2,3)] assms(1) unfolding record_key_def by blast

end
