(* ===== verification/Serde.thy ===== *)
theory Serde
  imports Keys
begin

text \<open>
  \<open>serde.py\<close>: canonical JSON, the rows that events, objects, relations and patches are stored as,
  and the event hash.

  What the module takes from elsewhere is the record \<open>lib\<close>, an argument of every definition that
  uses it: the SHA-256 digest of \<open>hashlib\<close>, the text of a float, and ActiveGraph's
  \<open>encode_payload\<close>. \<open>lib_ok\<close> states what the provider relies on of the last two.
\<close>

section \<open>Values and entities\<close>

text \<open>
  A payload is a Python value: what JSON has, dicts and lists of values, and any other object,
  which only ActiveGraph's adapters can encode.
\<close>

datatype 'x pyval =
    PLeaf scalar
  | PList "'x pyval list"
  | PDict "(string \<times> 'x pyval) list"
  | PExt 'x

fun of_json :: "json \<Rightarrow> 'x pyval" where
  "of_json (JLeaf a) = PLeaf a"
| "of_json (JArr xs) = PList (map of_json xs)"
| "of_json (JObj kvs) = PDict (map (\<lambda>kv. (fst kv, of_json (snd kv))) kvs)"

record 'x lib =
  sha256 :: "string \<Rightarrow> string"
  float_text :: "string \<Rightarrow> string"
  encode_payload :: "'x pyval \<Rightarrow> exn + string"

record 'x event =
  ev_id :: string
  ev_type :: string
  ev_payload :: "'x pyval"
  ev_actor :: "string option"
  ev_frame_id :: "string option"
  ev_caused_by :: "string option"
  ev_timestamp :: string

record 'x object =
  ob_id :: string
  ob_type :: string
  ob_data :: "'x pyval"
  ob_version :: int
  ob_provenance :: "'x pyval"

record 'x relation =
  re_id :: string
  re_source :: string
  re_target :: string
  re_type :: string
  re_data :: "'x pyval"
  re_provenance :: "'x pyval"

record 'x patch =
  pa_id :: string
  pa_target :: string
  pa_op :: string
  pa_value :: "'x pyval"
  pa_expected_version :: int
  pa_proposed_by :: string
  pa_rationale :: "string option"
  pa_evidence :: "'x pyval list"
  pa_status :: string
  pa_rejection_reason :: "string option"
  pa_provenance :: "'x pyval"

section \<open>Canonical JSON\<close>

definition loads :: "('x, 'z) lib_scheme \<Rightarrow> string \<Rightarrow> exn + json" where
  "loads L t = (case json_loads (float_text L) t of
     None \<Rightarrow> Inl (JSONDecodeError ''Expecting value'') | Some j \<Rightarrow> Inr j)"

definition adapted :: "('x, 'z) lib_scheme \<Rightarrow> 'x pyval \<Rightarrow> exn + json" where
  "adapted L v = and_then (encode_payload L v) (loads L)"

definition canonical_json :: "('x, 'z) lib_scheme \<Rightarrow> 'x pyval \<Rightarrow> exn + string" where
  "canonical_json L v = and_then (adapted L v) (\<lambda>j. Inr (dumps_sorted j))"

definition parse_json :: "('x, 'z) lib_scheme \<Rightarrow> string \<Rightarrow> exn + 'x pyval" where
  "parse_json L t = and_then (loads L t) (\<lambda>j. Inr (of_json j))"

section \<open>Events\<close>

text \<open>The columns \<open>event_to_record\<close> fills; the store adds scope, run, position and hashes.\<close>

record event_fields =
  event_id :: string
  event_type :: string
  payload_json :: string
  actor :: "string option"
  frame_id :: "string option"
  caused_by :: "string option"
  timestamp :: string

definition event_to_record :: "('x, 'z) lib_scheme \<Rightarrow> 'x event \<Rightarrow> exn + event_fields" where
  "event_to_record L e =
     and_then (canonical_json L (ev_payload e)) (\<lambda>t. Inr
       \<lparr>event_id = ev_id e, event_type = ev_type e, payload_json = t, actor = ev_actor e,
        frame_id = ev_frame_id e, caused_by = ev_caused_by e, timestamp = ev_timestamp e\<rparr>)"

definition record_to_event :: "('x, 'z) lib_scheme \<Rightarrow> 'r event_fields_scheme \<Rightarrow> exn + 'x event" where
  "record_to_event L r =
     and_then (parse_json L (payload_json r)) (\<lambda>p. Inr
       \<lparr>ev_id = event_id r, ev_type = event_type r, ev_payload = p, ev_actor = actor r,
        ev_frame_id = frame_id r, ev_caused_by = caused_by r, ev_timestamp = timestamp r\<rparr>)"

definition opt_text :: "string option \<Rightarrow> 'x pyval" where
  "opt_text t = PLeaf (case t of None \<Rightarrow> SNull | Some s \<Rightarrow> SStr s)"

definition hash_preimage ::
  "string \<Rightarrow> string \<Rightarrow> int \<Rightarrow> 'x event \<Rightarrow> string option \<Rightarrow> 'x pyval" where
  "hash_preimage scope run_id seq e previous = PDict
     [(''scope'', PLeaf (SStr scope)),
      (''run_id'', PLeaf (SStr run_id)),
      (''seq'', PLeaf (SInt seq)),
      (''id'', PLeaf (SStr (ev_id e))),
      (''type'', PLeaf (SStr (ev_type e))),
      (''payload'', ev_payload e),
      (''actor'', opt_text (ev_actor e)),
      (''frame_id'', opt_text (ev_frame_id e)),
      (''caused_by'', opt_text (ev_caused_by e)),
      (''timestamp'', PLeaf (SStr (ev_timestamp e))),
      (''previous_hash'', opt_text previous)]"

definition event_hash ::
  "('x, 'z) lib_scheme \<Rightarrow> string \<Rightarrow> string \<Rightarrow> int \<Rightarrow> 'x event \<Rightarrow> string option \<Rightarrow> exn + string" where
  "event_hash L scope run_id seq e previous =
     and_then (canonical_json L (hash_preimage scope run_id seq e previous))
       (\<lambda>t. Inr (sha256 L t))"

section \<open>Objects, relations and patches\<close>

text \<open>
  The columns of \<open>ag_vertex\<close> that describe an object are optional in the schema: a placeholder
  vertex has none of them. \<open>object_from_record\<close> raises \<open>KeyError\<close> on a missing one.
\<close>

record object_fields =
  object_id :: string
  object_type :: "string option"
  data_json :: "string option"
  version :: "int option"
  provenance_json :: "string option"

definition required :: "string \<Rightarrow> 'a option \<Rightarrow> exn + 'a" where
  "required name v = (case v of None \<Rightarrow> Inl (KeyError name) | Some x \<Rightarrow> Inr x)"

definition object_to_record :: "('x, 'z) lib_scheme \<Rightarrow> 'x object \<Rightarrow> exn + object_fields" where
  "object_to_record L obj =
     and_then (canonical_json L (ob_data obj)) (\<lambda>d.
     and_then (canonical_json L (ob_provenance obj)) (\<lambda>p. Inr
       \<lparr>object_id = ob_id obj, object_type = Some (ob_type obj), data_json = Some d,
        version = Some (ob_version obj), provenance_json = Some p\<rparr>))"

definition object_from_record :: "('x, 'z) lib_scheme \<Rightarrow> 'r object_fields_scheme \<Rightarrow> exn + 'x object" where
  "object_from_record L r =
     and_then (required ''object_type'' (object_type r)) (\<lambda>t.
     and_then (required ''data_json'' (data_json r)) (\<lambda>dt.
     and_then (parse_json L dt) (\<lambda>d.
     and_then (required ''version'' (version r)) (\<lambda>v.
     and_then (required ''provenance_json'' (provenance_json r)) (\<lambda>pt.
     and_then (parse_json L pt) (\<lambda>p. Inr
       \<lparr>ob_id = object_id r, ob_type = t, ob_data = d, ob_version = v, ob_provenance = p\<rparr>))))))"

record relation_fields =
  relation_id :: string
  source :: string
  target :: string
  relation_type :: string
  rel_data_json :: string
  rel_provenance_json :: string

definition relation_to_record :: "('x, 'z) lib_scheme \<Rightarrow> 'x relation \<Rightarrow> exn + relation_fields" where
  "relation_to_record L rel =
     and_then (canonical_json L (re_data rel)) (\<lambda>d.
     and_then (canonical_json L (re_provenance rel)) (\<lambda>p. Inr
       \<lparr>relation_id = re_id rel, source = re_source rel, target = re_target rel,
        relation_type = re_type rel, rel_data_json = d, rel_provenance_json = p\<rparr>))"

definition record_to_relation :: "('x, 'z) lib_scheme \<Rightarrow> 'r relation_fields_scheme \<Rightarrow> exn + 'x relation" where
  "record_to_relation L r =
     and_then (parse_json L (rel_data_json r)) (\<lambda>d.
     and_then (parse_json L (rel_provenance_json r)) (\<lambda>p. Inr
       \<lparr>re_id = relation_id r, re_source = source r, re_target = target r,
        re_type = relation_type r, re_data = d, re_provenance = p\<rparr>))"

record patch_fields =
  patch_id :: string
  patch_target :: string
  op :: string
  value_json :: string
  expected_version :: int
  proposed_by :: string
  rationale :: "string option"
  evidence_json :: string
  patch_status :: string
  rejection_reason :: "string option"
  patch_provenance_json :: string

text \<open>\<open>list(v)\<close> of a decoded value: the elements, the keys or the characters.\<close>

fun utf8_chars :: "string \<Rightarrow> string list" where
  "utf8_chars [] = []"
| "utf8_chars (c # s) =
     (let n = (if char_nat c < 192 then 0 else if char_nat c < 224 then 1
               else if char_nat c < 240 then 2 else 3)
      in (c # take n s) # utf8_chars (drop n s))"

fun json_list :: "json \<Rightarrow> exn + json list" where
  "json_list (JArr xs) = Inr xs"
| "json_list (JObj kvs) = Inr (map (\<lambda>kv. JLeaf (SStr (fst kv))) kvs)"
| "json_list (JLeaf (SStr s)) = Inr (map (\<lambda>c. JLeaf (SStr c)) (utf8_chars s))"
| "json_list (JLeaf a) = Inl (TypeError ''object is not iterable'')"

definition patch_to_record :: "('x, 'z) lib_scheme \<Rightarrow> 'x patch \<Rightarrow> exn + patch_fields" where
  "patch_to_record L pa =
     and_then (canonical_json L (pa_value pa)) (\<lambda>v.
     and_then (canonical_json L (PList (pa_evidence pa))) (\<lambda>e.
     and_then (canonical_json L (pa_provenance pa)) (\<lambda>p. Inr
       \<lparr>patch_id = pa_id pa, patch_target = pa_target pa, op = pa_op pa, value_json = v,
        expected_version = pa_expected_version pa, proposed_by = pa_proposed_by pa,
        rationale = pa_rationale pa, evidence_json = e, patch_status = pa_status pa,
        rejection_reason = pa_rejection_reason pa, patch_provenance_json = p\<rparr>)))"

definition patch_from_record :: "('x, 'z) lib_scheme \<Rightarrow> 'r patch_fields_scheme \<Rightarrow> exn + 'x patch" where
  "patch_from_record L r =
     and_then (parse_json L (value_json r)) (\<lambda>v.
     and_then (loads L (evidence_json r)) (\<lambda>ej.
     and_then (json_list ej) (\<lambda>e.
     and_then (parse_json L (patch_provenance_json r)) (\<lambda>p. Inr
       \<lparr>pa_id = patch_id r, pa_target = patch_target r, pa_op = op r, pa_value = v,
        pa_expected_version = expected_version r, pa_proposed_by = proposed_by r,
        pa_rationale = rationale r, pa_evidence = map of_json e, pa_status = patch_status r,
        pa_rejection_reason = rejection_reason r, pa_provenance = p\<rparr>))))"

section \<open>What is relied on of the libraries\<close>

text \<open>
  ActiveGraph encodes a value as JSON: scalars, lists and dicts as they are, any other object as
  its adapter \<open>f\<close> says (a decimal as a string, a set as a sorted list), or it raises.
\<close>

fun adapt :: "('x \<Rightarrow> exn + json) \<Rightarrow> 'x pyval \<Rightarrow> exn + json" where
  "adapt f (PLeaf a) = Inr (JLeaf a)"
| "adapt f (PExt x) = f x"
| "adapt f (PList xs) = and_then (traverse (adapt f) xs) (\<lambda>js. Inr (JArr js))"
| "adapt f (PDict kvs) =
     and_then (traverse (\<lambda>kv. and_then (adapt f (snd kv)) (\<lambda>j. Inr (fst kv, j))) kvs)
       (\<lambda>ms. Inr (JObj ms))"

text \<open>Python values as they occur: floats in normal form and no key twice in a dict.\<close>

fun pyval_ok :: "(string \<Rightarrow> string) \<Rightarrow> 'x pyval \<Rightarrow> bool" where
  "pyval_ok fr (PLeaf a) = scalar_ok fr a"
| "pyval_ok fr (PExt x) = True"
| "pyval_ok fr (PList xs) = list_all (pyval_ok fr) xs"
| "pyval_ok fr (PDict kvs) = (distinct (map fst kvs) \<and> list_all (\<lambda>kv. pyval_ok fr (snd kv)) kvs)"

definition encodes_with :: "('x, 'z) lib_scheme \<Rightarrow> ('x \<Rightarrow> exn + json) \<Rightarrow> bool" where
  "encodes_with L f \<longleftrightarrow>
     (\<forall>x j. f x = Inr j \<longrightarrow> json_ok (float_text L) j) \<and>
     (\<forall>v. pyval_ok (float_text L) v \<longrightarrow>
        (case adapt f v of
           Inl e \<Rightarrow> \<exists>e'. encode_payload L v = Inl e'
         | Inr j \<Rightarrow> \<exists>t j'. encode_payload L v = Inr t \<and> json_loads (float_text L) t = Some j'
                      \<and> canon j' = canon j))"

definition lib_ok :: "('x, 'z) lib_scheme \<Rightarrow> bool" where
  "lib_ok L \<longleftrightarrow> float_text_ok (float_text L) \<and> (\<exists>f. encodes_with L f)"

definition event_ok :: "('x, 'z) lib_scheme \<Rightarrow> 'x event \<Rightarrow> bool" where
  "event_ok L e \<longleftrightarrow> pyval_ok (float_text L) (ev_payload e)"

lemma adapt_of_json [simp]: "adapt f (of_json j) = Inr j"
proof (induction j)
  case (JArr xs)
  then have "traverse (adapt f) (map of_json xs) = Inr xs"
    by (induction xs) auto
  then show ?case by simp
next
  case (JObj kvs)
  then have "traverse (\<lambda>kv. and_then (adapt f (snd kv)) (\<lambda>j. Inr (fst kv, j)))
      (map (\<lambda>kv. (fst kv, of_json (snd kv))) kvs) = Inr kvs"
    by (induction kvs) (auto simp: snds.simps)
  then show ?case by simp
qed simp

lemma pyval_ok_of_json [simp]: "pyval_ok fr (of_json j) = json_ok fr j"
proof (induction j)
  case (JArr xs)
  then show ?case by (auto simp: list_all_iff)
next
  case (JObj kvs)
  then show ?case by (fastforce simp: list_all_iff comp_def snds.simps)
qed simp

lemma adapt_ok:
  assumes "\<And>x j. f x = Inr j \<Longrightarrow> json_ok fr j"
  shows "pyval_ok fr v \<Longrightarrow> adapt f v = Inr j \<Longrightarrow> json_ok fr j"
proof (induction v arbitrary: j)
  case (PLeaf a)
  then show ?case by auto
next
  case (PExt x)
  then show ?case using assms by simp
next
  case (PList xs)
  then obtain js where js: "traverse (adapt f) xs = Inr js" "j = JArr js" by auto
  have "list_all (json_ok fr) js"
    using traverse_from[OF js(1)] PList.IH PList.prems(1) by (fastforce simp: list_all_iff)
  with js show ?case by simp
next
  case (PDict kvs)
  then obtain ms where ms: "traverse (\<lambda>kv. and_then (adapt f (snd kv)) (\<lambda>j. Inr (fst kv, j))) kvs = Inr ms"
      "j = JObj ms" by auto
  have "map fst ms = map fst kvs"
    using ms(1) by (induction kvs arbitrary: ms) auto
  moreover have "json_ok fr (snd m)" if "m \<in> set ms" for m
  proof -
    from traverse_from[OF ms(1) that] obtain kv where
      kv: "kv \<in> set kvs" "adapt f (snd kv) = Inr (snd m)" by auto
    then show ?thesis
      using PDict.IH[of kv "snd kv"] PDict.prems(1) by (auto simp: snds.simps list_all_iff)
  qed
  ultimately show ?case using ms(2) PDict.prems(1) by (auto simp: list_all_iff)
qed

section \<open>Canonical texts\<close>

lemma loads_Inr [simp]: "loads L t = Inr j \<longleftrightarrow> json_loads (float_text L) t = Some j"
  by (auto simp: loads_def split: option.splits)

lemma adapted_ok: "float_text_ok (float_text L) \<Longrightarrow> adapted L v = Inr j \<Longrightarrow> json_ok (float_text L) j"
  by (auto simp: adapted_def dest: json_loads_ok)

lemma canonical_json_Inr: "canonical_json L v = Inr t \<longleftrightarrow> (\<exists>j. adapted L v = Inr j \<and> t = dumps_sorted j)"
  by (auto simp: canonical_json_def)

lemma parse_canonical:
  assumes "float_text_ok (float_text L)" and "adapted L v = Inr j"
  shows "parse_json L (dumps_sorted j) = Inr (of_json (canon j))"
  using json_loads_dumps_sorted[OF adapted_ok[OF assms]] by (simp add: parse_json_def)

lemma parse_json_ok:
  "float_text_ok (float_text L) \<Longrightarrow> parse_json L t = Inr v \<Longrightarrow> pyval_ok (float_text L) v"
  by (auto simp: parse_json_def dest: json_loads_ok)

lemma encodes_withD:
  assumes "encodes_with L f" and "pyval_ok (float_text L) v"
  shows "case adapt f v of
           Inl e \<Rightarrow> \<exists>e'. encode_payload L v = Inl e'
         | Inr j \<Rightarrow> \<exists>t j'. encode_payload L v = Inr t \<and> json_loads (float_text L) t = Some j'
                      \<and> canon j' = canon j"
  using assms by (simp add: encodes_with_def)

lemma canonical_json_adapt:
  assumes "encodes_with L f" and "pyval_ok (float_text L) v" and "adapt f v = Inr j"
  shows "canonical_json L v = Inr (dumps_sorted j)"
  using encodes_withD[OF assms(1,2)] assms(3)
  by (auto simp: canonical_json_def adapted_def dumps_sorted_canon)

lemma canonical_json_adapt_Inl:
  assumes "encodes_with L f" and "pyval_ok (float_text L) v" and "adapt f v = Inl e"
  shows "\<exists>e'. canonical_json L v = Inl e'"
  using encodes_withD[OF assms(1,2)] assms(3) by (auto simp: canonical_json_def adapted_def)

lemma canonical_json_Inr_adapt:
  assumes "encodes_with L f" and "pyval_ok (float_text L) v" and "canonical_json L v = Inr t"
  obtains j where "adapt f v = Inr j" and "t = dumps_sorted j" and "json_ok (float_text L) j"
proof (cases "adapt f v")
  case (Inl e)
  with canonical_json_adapt_Inl[OF assms(1,2)] assms(3) show ?thesis by auto
next
  case (Inr j)
  with canonical_json_adapt[OF assms(1,2)] assms(3) have "t = dumps_sorted j" by simp
  moreover have "json_ok (float_text L) j"
    using adapt_ok[of f "float_text L" v j] assms(1,2) Inr unfolding encodes_with_def by blast
  ultimately show ?thesis using that Inr by blast
qed

text \<open>A payload read back from its canonical text has the same canonical text.\<close>

lemma canonical_json_stable:
  assumes "lib_ok L" and "canonical_json L v = Inr t" and "parse_json L t = Inr w"
  shows "canonical_json L w = Inr t"
proof -
  from assms(1) obtain f where fr: "float_text_ok (float_text L)" and f: "encodes_with L f"
    by (auto simp: lib_ok_def)
  from assms(2) obtain j where j: "adapted L v = Inr j" "t = dumps_sorted j"
    by (auto simp: canonical_json_Inr)
  with parse_canonical[OF fr j(1)] assms(3) have w: "w = of_json (canon j)" by simp
  have "json_ok (float_text L) (canon j)" using adapted_ok[OF fr j(1)] by (rule canon_ok)
  then have "canonical_json L w = Inr (dumps_sorted (canon j))"
    unfolding w by (intro canonical_json_adapt[OF f]) auto
  then show ?thesis by (simp add: j(2) dumps_sorted_canon canon_canon)
qed

section \<open>Round trips\<close>

text \<open>
  The interface of a row format: \<open>norm\<close> is what is left of a value once it has been through
  JSON. It is proved for events, objects, relations and patches below.
\<close>

locale codec =
  fixes lawful :: bool
    and encode :: "'a \<Rightarrow> exn + 'r"
    and decode :: "'r \<Rightarrow> exn + 'a"
    and norm :: "'a \<Rightarrow> exn + 'a"
  assumes decode_encode: "\<lbrakk>lawful; encode x = Inr r\<rbrakk> \<Longrightarrow> decode r = norm x"
begin

lemma decode_encode_all:
  "\<lbrakk>lawful; traverse encode xs = Inr rs\<rbrakk> \<Longrightarrow> traverse decode rs = traverse norm xs"
proof (induction xs arbitrary: rs)
  case Nil
  then show ?case by simp
next
  case (Cons x xs)
  then obtain r rs' where "rs = r # rs'" "encode x = Inr r" "traverse encode xs = Inr rs'" by auto
  with Cons decode_encode show ?case by simp
qed

lemma same_row_same_norm: "\<lbrakk>lawful; encode x = Inr r; encode y = Inr r\<rbrakk> \<Longrightarrow> norm x = norm y"
  using decode_encode by metis

end

definition norm_val :: "('x, 'z) lib_scheme \<Rightarrow> 'x pyval \<Rightarrow> exn + 'x pyval" where
  "norm_val L v = and_then (adapted L v) (\<lambda>j. Inr (of_json (canon j)))"

lemma parse_canonical_norm:
  "float_text_ok (float_text L) \<Longrightarrow> canonical_json L v = Inr t \<Longrightarrow> parse_json L t = norm_val L v"
  by (auto simp: canonical_json_Inr norm_val_def parse_canonical)

definition norm_event :: "('x, 'z) lib_scheme \<Rightarrow> 'x event \<Rightarrow> exn + 'x event" where
  "norm_event L e = and_then (norm_val L (ev_payload e)) (\<lambda>p. Inr (e\<lparr>ev_payload := p\<rparr>))"

definition norm_object :: "('x, 'z) lib_scheme \<Rightarrow> 'x object \<Rightarrow> exn + 'x object" where
  "norm_object L x =
     and_then (norm_val L (ob_data x)) (\<lambda>d.
     and_then (norm_val L (ob_provenance x)) (\<lambda>p. Inr (x\<lparr>ob_data := d, ob_provenance := p\<rparr>)))"

definition norm_relation :: "('x, 'z) lib_scheme \<Rightarrow> 'x relation \<Rightarrow> exn + 'x relation" where
  "norm_relation L x =
     and_then (norm_val L (re_data x)) (\<lambda>d.
     and_then (norm_val L (re_provenance x)) (\<lambda>p. Inr (x\<lparr>re_data := d, re_provenance := p\<rparr>)))"

definition norm_patch :: "('x, 'z) lib_scheme \<Rightarrow> 'x patch \<Rightarrow> exn + 'x patch" where
  "norm_patch L x =
     and_then (norm_val L (pa_value x)) (\<lambda>v.
     and_then (adapted L (PList (pa_evidence x))) (\<lambda>ej.
     and_then (json_list (canon ej)) (\<lambda>e.
     and_then (norm_val L (pa_provenance x)) (\<lambda>p.
       Inr (x\<lparr>pa_value := v, pa_evidence := map of_json e, pa_provenance := p\<rparr>)))))"

interpretation event_codec:
  codec "float_text_ok (float_text L)" "event_to_record L" "record_to_event L" "norm_event L" for L
proof unfold_locales
  fix x r
  assume "float_text_ok (float_text L)" and "event_to_record L x = Inr r"
  then show "record_to_event L r = norm_event L x"
    by (cases x) (auto simp: event_to_record_def record_to_event_def norm_event_def parse_canonical_norm)
qed

interpretation object_codec:
  codec "float_text_ok (float_text L)" "object_to_record L" "object_from_record L" "norm_object L" for L
proof unfold_locales
  fix x r
  assume "float_text_ok (float_text L)" and "object_to_record L x = Inr r"
  then show "object_from_record L r = norm_object L x"
    by (cases x) (auto simp: object_to_record_def object_from_record_def norm_object_def required_def parse_canonical_norm)
qed

interpretation relation_codec:
  codec "float_text_ok (float_text L)" "relation_to_record L" "record_to_relation L" "norm_relation L" for L
proof unfold_locales
  fix x r
  assume "float_text_ok (float_text L)" and "relation_to_record L x = Inr r"
  then show "record_to_relation L r = norm_relation L x"
    by (cases x) (auto simp: relation_to_record_def record_to_relation_def norm_relation_def parse_canonical_norm)
qed

interpretation patch_codec:
  codec "float_text_ok (float_text L)" "patch_to_record L" "patch_from_record L" "norm_patch L" for L
proof
  fix x r
  assume fr: "float_text_ok (float_text L)" and "patch_to_record L x = Inr r"
  then obtain v ej p where v: "canonical_json L (pa_value x) = Inr v"
    and e: "adapted L (PList (pa_evidence x)) = Inr ej"
    and p: "canonical_json L (pa_provenance x) = Inr p"
    and r: "r = \<lparr>patch_id = pa_id x, patch_target = pa_target x, op = pa_op x, value_json = v,
        expected_version = pa_expected_version x, proposed_by = pa_proposed_by x,
        rationale = pa_rationale x, evidence_json = dumps_sorted ej, patch_status = pa_status x,
        rejection_reason = pa_rejection_reason x, patch_provenance_json = p\<rparr>"
    by (auto simp: patch_to_record_def canonical_json_Inr[where v = "PList _"])
  have "json_loads (float_text L) (dumps_sorted ej) = Some (canon ej)"
    by (rule json_loads_dumps_sorted[OF adapted_ok[OF fr e]])
  then show "patch_from_record L r = norm_patch L x"
    using parse_canonical_norm[OF fr v] parse_canonical_norm[OF fr p] e
    by (cases x) (simp add: r patch_from_record_def norm_patch_def loads_def)
qed

text \<open>A value made of JSON only keeps its meaning: only the order of dict members may change.\<close>

lemma adapted_of_json:
  assumes "lib_ok L" and "json_ok (float_text L) j"
  shows "\<exists>j'. adapted L (of_json j) = Inr j' \<and> canon j' = canon j"
proof -
  obtain f where f: "encodes_with L f" using assms(1) by (auto simp: lib_ok_def)
  obtain t j' where "encode_payload L (of_json j) = Inr t" "json_loads (float_text L) t = Some j'" "canon j' = canon j"
    using encodes_withD[OF f, of "of_json j"] assms(2) by auto
  then show ?thesis by (simp add: adapted_def)
qed

lemma norm_val_of_json:
  "\<lbrakk>lib_ok L; json_ok (float_text L) j\<rbrakk> \<Longrightarrow> norm_val L (of_json j) = Inr (of_json (canon j))"
  using adapted_of_json by (fastforce simp: norm_val_def)

section \<open>The event hash\<close>

definition preimage_members ::
  "string \<Rightarrow> string \<Rightarrow> int \<Rightarrow> 'x event \<Rightarrow> json \<Rightarrow> string option \<Rightarrow> (string \<times> json) list" where
  "preimage_members scope run_id seq e j previous =
     (let opt = (\<lambda>t. JLeaf (case t of None \<Rightarrow> SNull | Some s \<Rightarrow> SStr s)) in
     [(''scope'', JLeaf (SStr scope)),
      (''run_id'', JLeaf (SStr run_id)),
      (''seq'', JLeaf (SInt seq)),
      (''id'', JLeaf (SStr (ev_id e))),
      (''type'', JLeaf (SStr (ev_type e))),
      (''payload'', j),
      (''actor'', opt (ev_actor e)),
      (''frame_id'', opt (ev_frame_id e)),
      (''caused_by'', opt (ev_caused_by e)),
      (''timestamp'', JLeaf (SStr (ev_timestamp e))),
      (''previous_hash'', opt previous)])"

lemma adapt_preimage:
  "adapt f (hash_preimage scope run_id seq e previous) =
     and_then (adapt f (ev_payload e)) (\<lambda>j. Inr (JObj (preimage_members scope run_id seq e j previous)))"
  by (cases "adapt f (ev_payload e)")
    (simp_all add: hash_preimage_def preimage_members_def opt_text_def Let_def)

lemma preimage_ok: "pyval_ok fr (hash_preimage scope run_id seq e previous) = pyval_ok fr (ev_payload e)"
  by (simp add: hash_preimage_def opt_text_def split: option.split)

lemma preimage_members_ok:
  "json_ok fr j \<Longrightarrow> json_ok fr (JObj (preimage_members scope run_id seq e j previous))"
  by (simp add: preimage_members_def Let_def split: option.split)

definition same_event :: "('x, 'z) lib_scheme \<Rightarrow> 'x event \<Rightarrow> 'x event \<Rightarrow> bool" where
  "same_event L e e' \<longleftrightarrow>
     ev_id e = ev_id e' \<and> ev_type e = ev_type e' \<and> ev_actor e = ev_actor e'
     \<and> ev_frame_id e = ev_frame_id e' \<and> ev_caused_by e = ev_caused_by e'
     \<and> ev_timestamp e = ev_timestamp e'
     \<and> canonical_json L (ev_payload e) = canonical_json L (ev_payload e')"

lemma event_hash_Inr:
  assumes "encodes_with L f" and "event_ok L e" and "adapt f (ev_payload e) = Inr j"
  shows "event_hash L scope run_id seq e previous =
     Inr (sha256 L (dumps_sorted (JObj (preimage_members scope run_id seq e j previous))))"
proof -
  have "canonical_json L (hash_preimage scope run_id seq e previous) =
      Inr (dumps_sorted (JObj (preimage_members scope run_id seq e j previous)))"
  proof (rule canonical_json_adapt[OF assms(1)])
    show "pyval_ok (float_text L) (hash_preimage scope run_id seq e previous)"
      using assms(2) by (simp add: preimage_ok event_ok_def)
    show "adapt f (hash_preimage scope run_id seq e previous) =
        Inr (JObj (preimage_members scope run_id seq e j previous))"
      unfolding adapt_preimage assms(3) by simp
  qed
  then show ?thesis by (simp add: event_hash_def)
qed

lemma event_hash_Inl:
  assumes "encodes_with L f" and "event_ok L e" and "adapt f (ev_payload e) = Inl x"
  shows "\<exists>x'. event_hash L scope run_id seq e previous = Inl x'"
proof -
  have "\<exists>x'. canonical_json L (hash_preimage scope run_id seq e previous) = Inl x'"
  proof (rule canonical_json_adapt_Inl[OF assms(1)])
    show "pyval_ok (float_text L) (hash_preimage scope run_id seq e previous)"
      using assms(2) by (simp add: preimage_ok event_ok_def)
    show "adapt f (hash_preimage scope run_id seq e previous) = Inl x"
      unfolding adapt_preimage assms(3) by simp
  qed
  then show ?thesis by (auto simp: event_hash_def)
qed

lemma event_hash_Inr_adapt:
  assumes "encodes_with L f" and "event_ok L e" and "event_hash L scope run_id seq e previous = Inr h"
  obtains j where "adapt f (ev_payload e) = Inr j"
proof (cases "adapt f (ev_payload e)")
  case (Inl x)
  from event_hash_Inl[OF assms(1,2) Inl, of scope run_id seq previous] assms(3) show ?thesis by simp
next
  case (Inr j)
  then show ?thesis by (rule that)
qed

lemma dumps_preimage_canon:
  assumes "canon j = canon j'"
    and "ev_id e = ev_id e'" "ev_type e = ev_type e'" "ev_actor e = ev_actor e'"
    "ev_frame_id e = ev_frame_id e'" "ev_caused_by e = ev_caused_by e'" "ev_timestamp e = ev_timestamp e'"
  shows "dumps_sorted (JObj (preimage_members scope run_id seq e j previous)) =
     dumps_sorted (JObj (preimage_members scope run_id seq e' j' previous))"
proof -
  let ?f = "\<lambda>kv. (fst kv, canon (snd kv))"
  have "map ?f (preimage_members scope run_id seq e j previous) =
      map ?f (preimage_members scope run_id seq e' j' previous)"
    using assms by (simp add: preimage_members_def Let_def)
  then show ?thesis by (simp only: dumps_sorted_canon canon.simps)
qed

lemma event_hash_same:
  assumes "lib_ok L" and "event_ok L e" and "event_ok L e'" and "same_event L e e'"
    and "canonical_json L (ev_payload e) = Inr t"
  shows "event_hash L scope run_id seq e previous = event_hash L scope run_id seq e' previous"
    and "\<exists>h. event_hash L scope run_id seq e previous = Inr h"
proof -
  from assms(1) obtain f where f: "encodes_with L f" by (auto simp: lib_ok_def)
  from assms(4,5) have t': "canonical_json L (ev_payload e') = Inr t" by (simp add: same_event_def)
  obtain j where j: "adapt f (ev_payload e) = Inr j" "t = dumps_sorted j" "json_ok (float_text L) j"
    using canonical_json_Inr_adapt[OF f _ assms(5)] assms(2) unfolding event_ok_def by blast
  obtain j' where j': "adapt f (ev_payload e') = Inr j'" "t = dumps_sorted j'" "json_ok (float_text L) j'"
    using canonical_json_Inr_adapt[OF f _ t'] assms(3) unfolding event_ok_def by blast
  have "canon j = canon j'" using j j' dumps_sorted_inj by blast
  then show "event_hash L scope run_id seq e previous = event_hash L scope run_id seq e' previous"
    using event_hash_Inr[OF f assms(2) j(1)] event_hash_Inr[OF f assms(3) j'(1)]
      dumps_preimage_canon[of j j' e e'] assms(4)
    by (simp add: same_event_def)
  show "\<exists>h. event_hash L scope run_id seq e previous = Inr h"
    using event_hash_Inr[OF f assms(2) j(1)] by blast
qed

text \<open>Two events, each at its place in a log, whose hashed texts differ and have one digest.\<close>

type_synonym 'x placed_event = "string \<times> string \<times> int \<times> 'x event \<times> string option"

definition hash_collision :: "('x, 'z) lib_scheme \<Rightarrow> 'x placed_event \<Rightarrow> 'x placed_event \<Rightarrow> bool" where
  "hash_collision L = (\<lambda>(scope, run_id, seq, e, previous) (scope', run_id', seq', e', previous').
     \<exists>x y. canonical_json L (hash_preimage scope run_id seq e previous) = Inr x
       \<and> canonical_json L (hash_preimage scope' run_id' seq' e' previous') = Inr y
       \<and> x \<noteq> y \<and> sha256 L x = sha256 L y)"

lemma hash_text_Inr:
  assumes "encodes_with L f" and "event_ok L e" and "adapt f (ev_payload e) = Inr j"
  shows "canonical_json L (hash_preimage scope run_id seq e previous) =
     Inr (dumps_sorted (JObj (preimage_members scope run_id seq e j previous)))"
proof (rule canonical_json_adapt[OF assms(1)])
  show "pyval_ok (float_text L) (hash_preimage scope run_id seq e previous)"
    using assms(2) by (simp add: preimage_ok event_ok_def)
  show "adapt f (hash_preimage scope run_id seq e previous) =
      Inr (JObj (preimage_members scope run_id seq e j previous))"
    unfolding adapt_preimage assms(3) by simp
qed

lemma event_hash_collision:
  assumes "lib_ok L" and "event_ok L e" and "event_ok L e'"
    and "event_hash L scope run_id seq e previous = Inr h"
    and "event_hash L scope' run_id' seq' e' previous' = Inr h"
  shows "hash_collision L (scope, run_id, seq, e, previous) (scope', run_id', seq', e', previous') \<or>
     (scope = scope' \<and> run_id = run_id' \<and> seq = seq' \<and> previous = previous' \<and> same_event L e e')"
proof -
  from assms(1) obtain f where f: "encodes_with L f" by (auto simp: lib_ok_def)
  obtain j where j: "adapt f (ev_payload e) = Inr j"
    by (rule event_hash_Inr_adapt[OF f assms(2,4)])
  obtain j' where j': "adapt f (ev_payload e') = Inr j'"
    by (rule event_hash_Inr_adapt[OF f assms(3,5)])
  let ?m = "preimage_members scope run_id seq e j previous"
  let ?m' = "preimage_members scope' run_id' seq' e' j' previous'"
  have ok: "json_ok (float_text L) j" "json_ok (float_text L) j'"
    using adapt_ok[of f "float_text L"] f j j' assms(2,3) unfolding encodes_with_def event_ok_def by blast+
  have d: "distinct (map fst ?m)" "distinct (map fst ?m')"
    by (simp_all add: preimage_members_def Let_def)
  have "sha256 L (dumps_sorted (JObj ?m)) = sha256 L (dumps_sorted (JObj ?m'))"
    using assms(4,5) event_hash_Inr[OF f assms(2) j] event_hash_Inr[OF f assms(3) j'] by simp
  then consider "hash_collision L (scope, run_id, seq, e, previous) (scope', run_id', seq', e', previous')"
    | "dumps_sorted (JObj ?m) = dumps_sorted (JObj ?m')"
    using hash_text_Inr[OF f assms(2) j] hash_text_Inr[OF f assms(3) j'] unfolding hash_collision_def by auto
  then show ?thesis
  proof cases
    case 1
    then show ?thesis by blast
  next
    case 2
    then have "canon (JObj ?m) = canon (JObj ?m')"
      using dumps_sorted_inj[OF preimage_members_ok[OF ok(1)] preimage_members_ok[OF ok(2)]] by blast
    then have look: "map_option canon (map_of ?m k) = map_option canon (map_of ?m' k)" for k
      using canon_obj_member d by blast
    have "canon j = canon j'"
      using look[of "''payload''"] by (simp add: preimage_members_def Let_def)
    then have c: "canonical_json L (ev_payload e) = canonical_json L (ev_payload e')"
      using canonical_json_adapt[OF f _ j] canonical_json_adapt[OF f _ j'] assms(2,3)
      by (simp add: event_ok_def dumps_sorted_canon)
    show ?thesis
      using c look[of "''scope''"] look[of "''run_id''"] look[of "''seq''"] look[of "''id''"]
        look[of "''type''"] look[of "''actor''"] look[of "''frame_id''"] look[of "''caused_by''"]
        look[of "''timestamp''"] look[of "''previous_hash''"]
      by (simp add: preimage_members_def Let_def same_event_def split: option.splits)
  qed
qed

lemma record_to_event_ok:
  "float_text_ok (float_text L) \<Longrightarrow> record_to_event L r = Inr e \<Longrightarrow> event_ok L e"
  by (auto simp: record_to_event_def event_ok_def dest: parse_json_ok)

text \<open>What an event decodes to after it was stored is the same event, with the same hash.\<close>

lemma stored_event_same:
  assumes "lib_ok L" and "event_to_record L e = Inr r"
  obtains e' where "record_to_event L r = Inr e'" and "norm_event L e = Inr e'" and "same_event L e e'"
    and "event_ok L e'"
proof -
  from assms(1) have fr: "float_text_ok (float_text L)" by (simp add: lib_ok_def)
  from assms(2) obtain t where t: "canonical_json L (ev_payload e) = Inr t"
    by (auto simp: event_to_record_def)
  then obtain w where w: "norm_val L (ev_payload e) = Inr w" "parse_json L t = Inr w"
    using parse_canonical_norm[OF fr t] by (auto simp: norm_val_def canonical_json_Inr)
  have n: "norm_event L e = Inr (e\<lparr>ev_payload := w\<rparr>)" using w by (simp add: norm_event_def)
  moreover have "record_to_event L r = Inr (e\<lparr>ev_payload := w\<rparr>)"
    using event_codec.decode_encode[OF fr assms(2)] n by simp
  moreover have "same_event L e (e\<lparr>ev_payload := w\<rparr>)"
    using canonical_json_stable[OF assms(1) t w(2)] t by (simp add: same_event_def)
  ultimately show thesis using that record_to_event_ok[OF fr] by blast
qed

lemma stored_event_hash:
  assumes "lib_ok L" and "event_ok L e" and "event_to_record L e = Inr r" and "record_to_event L r = Inr e'"
  shows "event_hash L scope run_id seq e' previous = event_hash L scope run_id seq e previous"
    and "\<exists>h. event_hash L scope run_id seq e previous = Inr h"
proof -
  obtain e'' where e'': "record_to_event L r = Inr e''" "same_event L e e''" "event_ok L e''"
    using stored_event_same[OF assms(1,3)] by blast
  with assms(4) have same: "same_event L e e'" and ok: "event_ok L e'" by auto
  obtain t where t: "canonical_json L (ev_payload e) = Inr t"
    using assms(3) by (auto simp: event_to_record_def)
  show "event_hash L scope run_id seq e' previous = event_hash L scope run_id seq e previous"
    using event_hash_same(1)[OF assms(1,2) ok same t] by simp
  show "\<exists>h. event_hash L scope run_id seq e previous = Inr h"
    by (rule event_hash_same(2)[OF assms(1,2) ok same t])
qed

end
