(* ===== verification/Surreal.thy ===== *)
theory Surreal
  imports Serde "HOL-Library.Product_Lexorder"
begin

text \<open>
  The database as the provider sees it. The tables are those \<open>schema.surql\<close> defines: a typed row per
  record, kept under the record's key, and the unique indexes. Each SurrealQL statement of the
  sources, and each SDK call that stands for one (\<open>select\<close>, \<open>create\<close>, \<open>merge\<close>, \<open>upsert\<close>, \<open>delete\<close>,
  \<open>insert_relation\<close>), is a function on the tables.

  What the server decides is not modelled but a parameter, the fields \<open>env\<close> adds to \<open>lib\<close>: whether a
  request fails and before or after its effect, what other sessions commit between two requests, and
  whether a commit is accepted.
\<close>

section \<open>Tables\<close>

record schema_row =
  schema_version_field :: "int option"
  installed_at :: string

record run_row =
  run_scope :: string
  run_run_id :: string
  parent_run_id :: "string option"
  forked_at_event_id :: "string option"
  label :: "string option"
  created_at :: string
  goal :: "string option"
  run_frame_id :: "string option"
  next_seq :: int
  head_hash :: "string option"

record event_row = event_fields +
  event_scope :: string
  event_run :: string
  seq :: int
  previous_hash :: "string option"
  hash :: string

record projection_row =
  projection_scope :: string
  projection_run :: string
  status :: string
  error_detail :: "string option"
  updated_at :: string

record vertex_row = object_fields +
  vertex_scope :: string
  vertex_run :: string
  object_present :: bool
  object_seq :: int

text \<open>An edge keeps the keys of the two vertices it connects, \<open>in\<close> and \<open>out\<close>.\<close>

record relation_row = relation_fields +
  relation_scope :: string
  relation_run :: string
  edge_in :: string
  edge_out :: string

record patch_row = patch_fields +
  patch_scope :: string
  patch_run :: string

type_synonym 'r table = "(string \<times> 'r) list"

record tables =
  defined :: "string list"
  ag_schema :: "schema_row option"
  ag_run :: "run_row table"
  ag_event :: "event_row table"
  ag_projection :: "projection_row table"
  ag_vertex :: "vertex_row table"
  ag_relation :: "relation_row table"
  ag_patch :: "patch_row table"

definition empty_tables :: tables where
  "empty_tables = \<lparr>defined = [], ag_schema = None, ag_run = [], ag_event = [], ag_projection = [],
     ag_vertex = [], ag_relation = [], ag_patch = []\<rparr>"

text \<open>The unique indexes: two records of the table that the index refuses to hold together.\<close>

definition run_clash :: "run_row \<Rightarrow> run_row \<Rightarrow> bool" where
  "run_clash r r' \<longleftrightarrow> run_scope r = run_scope r' \<and> run_run_id r = run_run_id r'"

definition event_clash :: "event_row \<Rightarrow> event_row \<Rightarrow> bool" where
  "event_clash r r' \<longleftrightarrow> event_scope r = event_scope r' \<and> event_run r = event_run r'
     \<and> (event_id r = event_id r' \<or> seq r = seq r')"

definition projection_clash :: "projection_row \<Rightarrow> projection_row \<Rightarrow> bool" where
  "projection_clash r r' \<longleftrightarrow>
     projection_scope r = projection_scope r' \<and> projection_run r = projection_run r'"

definition vertex_clash :: "vertex_row \<Rightarrow> vertex_row \<Rightarrow> bool" where
  "vertex_clash r r' \<longleftrightarrow> vertex_scope r = vertex_scope r' \<and> vertex_run r = vertex_run r'
     \<and> object_id r = object_id r'"

definition relation_clash :: "relation_row \<Rightarrow> relation_row \<Rightarrow> bool" where
  "relation_clash r r' \<longleftrightarrow> relation_scope r = relation_scope r' \<and> relation_run r = relation_run r'
     \<and> relation_id r = relation_id r'"

definition patch_clash :: "patch_row \<Rightarrow> patch_row \<Rightarrow> bool" where
  "patch_clash r r' \<longleftrightarrow> patch_scope r = patch_scope r' \<and> patch_run r = patch_run r'
     \<and> patch_id r = patch_id r'"

section \<open>Statements\<close>

text \<open>
  A statement is refused, with an error whose text is the engine's, or it is done: its reply, the
  new tables, and the records it wrote, which is what a transaction conflicts on.
\<close>

record touched =
  t_run :: "string list"
  t_event :: "string list"
  t_vertex :: "string list"
  t_relation :: "string list"

definition nothing :: touched where
  "nothing = \<lparr>t_run = [], t_event = [], t_vertex = [], t_relation = []\<rparr>"

datatype 'a step = Refused exn | Done 'a tables touched

type_synonym 'a stmt = "exn \<Rightarrow> tables \<Rightarrow> 'a step"

text \<open>Replies of the SDK, which the sources take apart with \<open>_one\<close>, \<open>_rows\<close> and \<open>_scalar\<close>.\<close>

datatype 'r reply = RNone | RDict 'r | RList "'r reply list" | ROther

fun one :: "'r reply \<Rightarrow> 'r option" where
  "one RNone = None"
| "one (RDict r) = Some r"
| "one (RList (RDict r # _)) = Some r"
| "one (RList _) = None"
| "one ROther = None"

text \<open>\<open>_scalar\<close>: the value itself, or the first of a list.\<close>

fun first_scalar :: "'r reply \<Rightarrow> 'r option" where
  "first_scalar (RDict v) = Some v"
| "first_scalar (RList (RDict v # _)) = Some v"
| "first_scalar _ = None"

fun dict_rows :: "'r reply list \<Rightarrow> 'r list" where
  "dict_rows [] = []"
| "dict_rows (RDict r # xs) = r # dict_rows xs"
| "dict_rows (_ # xs) = dict_rows xs"

fun rows :: "'r reply \<Rightarrow> 'r list" where
  "rows (RDict r) = [r]"
| "rows (RList xs) = dict_rows xs"
| "rows _ = []"

text \<open>\<open>SELECT * FROM ONLY $record\<close> and a query for many records.\<close>

definition only_reply :: "'r option \<Rightarrow> 'r reply" where
  "only_reply r = (case r of None \<Rightarrow> RNone | Some x \<Rightarrow> RDict x)"

definition many_reply :: "'r list \<Rightarrow> 'r reply" where
  "many_reply xs = RList (map RDict xs)"

text \<open>\<open>session.select(record)\<close> answers with the record or with the list of it.\<close>

definition select_reply :: "bool \<Rightarrow> 'r option \<Rightarrow> 'r reply" where
  "select_reply listed r =
     (if listed then many_reply (case r of None \<Rightarrow> [] | Some x \<Rightarrow> [x]) else only_reply r)"

lemma one_only_reply [simp]: "one (only_reply r) = r"
  by (simp add: only_reply_def split: option.split)

lemma dict_rows_map [simp]: "dict_rows (map RDict xs) = xs"
  by (induction xs) auto

lemma rows_many_reply [simp]: "rows (many_reply xs) = xs"
  by (simp add: many_reply_def)

lemma one_many_reply [simp]: "one (many_reply xs) = (case xs of [] \<Rightarrow> None | x # _ \<Rightarrow> Some x)"
  by (cases xs) (simp_all add: many_reply_def)

lemma one_select_reply [simp]: "one (select_reply listed r) = r"
  by (simp add: select_reply_def split: option.split)

text \<open>A read, and the two writes of a record whose table has a unique index.\<close>

definition reading :: "(tables \<Rightarrow> 'a) \<Rightarrow> 'a stmt" where
  "reading f = (\<lambda>e d. Done (f d) d nothing)"

definition room_for :: "('r \<Rightarrow> 'r \<Rightarrow> bool) \<Rightarrow> string \<Rightarrow> 'r \<Rightarrow> 'r table \<Rightarrow> bool" where
  "room_for clash k r t \<longleftrightarrow> list_all (\<lambda>(k', r'). k' = k \<or> \<not> clash r r') t"

definition creatable :: "('r \<Rightarrow> 'r \<Rightarrow> bool) \<Rightarrow> string \<Rightarrow> 'r \<Rightarrow> 'r table \<Rightarrow> bool" where
  "creatable clash k r t \<longleftrightarrow> map_of t k = None \<and> room_for clash k r t"

definition rows_where :: "('r \<Rightarrow> bool) \<Rightarrow> 'r table \<Rightarrow> 'r list" where
  "rows_where P t = filter P (map snd t)"

definition delete_where :: "('r \<Rightarrow> bool) \<Rightarrow> 'r table \<Rightarrow> 'r table" where
  "delete_where P t = filter (\<lambda>kr. \<not> P (snd kr)) t"

definition keys_where :: "('r \<Rightarrow> bool) \<Rightarrow> 'r table \<Rightarrow> string list" where
  "keys_where P t = map fst (filter (\<lambda>kr. P (snd kr)) t)"

text \<open>Rows in the order the engine scans them, when the statement has no \<open>ORDER BY\<close>.\<close>

definition scanned :: "(string list \<Rightarrow> string list) \<Rightarrow> 'r table \<Rightarrow> 'r list" where
  "scanned scan t = List.map_filter (map_of t) (scan (map fst t))"

subsection \<open>\<open>ag_schema\<close>\<close>

definition define_statement :: "string \<Rightarrow> unit stmt" where
  "define_statement t = (\<lambda>e d.
     Done () (d\<lparr>defined := (if t \<in> set (defined d) then defined d else defined d @ [t])\<rparr>) nothing)"

definition table_defined :: "string \<Rightarrow> tables \<Rightarrow> bool" where
  "table_defined name d \<longleftrightarrow>
     list_ex (starts_with (''DEFINE TABLE IF NOT EXISTS '' @ name @ '' '')) (defined d)"

definition select_schema :: "schema_row reply stmt" where
  "select_schema = (\<lambda>e d.
     if table_defined ''ag_schema'' d then Done (only_reply (ag_schema d)) d nothing
     else Refused (SdkNotFoundError ''The table 'ag_schema' does not exist''))"

text \<open>\<open>SELECT VALUE version FROM ONLY ag_schema:singleton\<close>\<close>

definition select_schema_version :: "int reply stmt" where
  "select_schema_version = (\<lambda>e d.
     if table_defined ''ag_schema'' d then
       Done (only_reply (Option.bind (ag_schema d) schema_version_field)) d nothing
     else Refused (SdkNotFoundError ''The table 'ag_schema' does not exist''))"

definition create_schema :: "schema_row \<Rightarrow> unit stmt" where
  "create_schema r = (\<lambda>e d.
     if ag_schema d = None then Done () (d\<lparr>ag_schema := Some r\<rparr>) nothing else Refused e)"

definition update_schema_version :: "int \<Rightarrow> unit stmt" where
  "update_schema_version v = (\<lambda>e d.
     case ag_schema d of
       None \<Rightarrow> Refused e
     | Some r \<Rightarrow> Done () (d\<lparr>ag_schema := Some (r\<lparr>schema_version_field := Some v\<rparr>)\<rparr>) nothing)"

subsection \<open>\<open>ag_run\<close>\<close>

definition select_run :: "string \<Rightarrow> run_row reply stmt" where
  "select_run k = reading (\<lambda>d. only_reply (map_of (ag_run d) k))"

definition create_run :: "string \<Rightarrow> run_row \<Rightarrow> unit stmt" where
  "create_run k r = (\<lambda>e d.
     if creatable run_clash k r (ag_run d)
     then Done () (d\<lparr>ag_run := AList.update k r (ag_run d)\<rparr>) (nothing\<lparr>t_run := [k]\<rparr>)
     else Refused e)"

text \<open>\<open>transaction.merge(record, patch)\<close>: a missing record stays missing.\<close>

definition merge_run :: "string \<Rightarrow> (run_row \<Rightarrow> run_row) \<Rightarrow> unit stmt" where
  "merge_run k patch = (\<lambda>e d.
     case map_of (ag_run d) k of
       None \<Rightarrow> Done () d (nothing\<lparr>t_run := [k]\<rparr>)
     | Some r \<Rightarrow> Done () (d\<lparr>ag_run := AList.update k (patch r) (ag_run d)\<rparr>) (nothing\<lparr>t_run := [k]\<rparr>))"

text \<open>\<open>UPDATE ONLY $run MERGE $patch\<close>: \<open>ONLY\<close> refuses an update that finds no record.\<close>

definition update_only_run :: "string \<Rightarrow> (run_row \<Rightarrow> run_row) \<Rightarrow> unit stmt" where
  "update_only_run k patch = (\<lambda>e d.
     case map_of (ag_run d) k of
       None \<Rightarrow> Refused e
     | Some r \<Rightarrow> Done () (d\<lparr>ag_run := AList.update k (patch r) (ag_run d)\<rparr>) (nothing\<lparr>t_run := [k]\<rparr>))"

definition select_runs :: "(string list \<Rightarrow> string list) \<Rightarrow> (run_row \<Rightarrow> bool) \<Rightarrow> run_row reply stmt" where
  "select_runs scan P = reading (\<lambda>d. many_reply (filter P (scanned scan (ag_run d))))"

subsection \<open>\<open>ag_event\<close>\<close>

definition in_run :: "string \<Rightarrow> string \<Rightarrow> event_row \<Rightarrow> bool" where
  "in_run sc rid r \<longleftrightarrow> event_scope r = sc \<and> event_run r = rid"

definition select_event :: "string \<Rightarrow> event_row reply stmt" where
  "select_event k = reading (\<lambda>d. only_reply (map_of (ag_event d) k))"

definition create_event :: "string \<Rightarrow> event_row \<Rightarrow> unit stmt" where
  "create_event k r = (\<lambda>e d.
     if creatable event_clash k r (ag_event d)
     then Done () (d\<lparr>ag_event := AList.update k r (ag_event d)\<rparr>) (nothing\<lparr>t_event := [k]\<rparr>)
     else Refused e)"

text \<open>\<open>SELECT * FROM ag_event WHERE scope = $scope AND run_id = $run_id ORDER BY seq ASC\<close>\<close>

definition run_events :: "string \<Rightarrow> string \<Rightarrow> tables \<Rightarrow> event_row list" where
  "run_events sc rid d = sort_key seq (rows_where (in_run sc rid) (ag_event d))"

definition select_run_events :: "string \<Rightarrow> string \<Rightarrow> event_row reply stmt" where
  "select_run_events sc rid = reading (\<lambda>d. many_reply (run_events sc rid d))"

text \<open>\<open>SELECT id FROM ag_event WHERE scope = $scope AND run_id = $run_id\<close>: the keys.\<close>

definition select_event_ids :: "string \<Rightarrow> string \<Rightarrow> string reply stmt" where
  "select_event_ids sc rid = reading (\<lambda>d. many_reply (keys_where (in_run sc rid) (ag_event d)))"

definition select_run_ids :: "string \<Rightarrow> string \<Rightarrow> string reply stmt" where
  "select_run_ids sc rid = reading (\<lambda>d. many_reply
     (keys_where (\<lambda>r. run_scope r = sc \<and> run_run_id r = rid) (ag_run d)))"

text \<open>\<open>SELECT count() AS count ... GROUP ALL\<close>: no row at all when nothing matches.\<close>

definition count_run_events :: "string \<Rightarrow> string \<Rightarrow> int reply stmt" where
  "count_run_events sc rid = reading (\<lambda>d.
     (let n = length (rows_where (in_run sc rid) (ag_event d))
      in many_reply (if n = 0 then [] else [int n])))"

text \<open>\<open>SELECT run_id, count() AS events FROM ag_event WHERE scope = $scope GROUP BY run_id\<close>\<close>

definition events_per_run :: "string \<Rightarrow> tables \<Rightarrow> (string \<times> int) list" where
  "events_per_run sc d =
     (let ids = map event_run (rows_where (\<lambda>r. event_scope r = sc) (ag_event d))
      in map (\<lambda>i. (i, int (count_list ids i))) (remdups ids))"

definition select_events_per_run ::
  "string \<Rightarrow> (string \<times> int) reply stmt" where
  "select_events_per_run sc = reading (\<lambda>d. many_reply (events_per_run sc d))"

text \<open>\<open>DELETE ag_event WHERE scope = $scope AND run_id = $run_id AND seq > $cutoff_seq\<close>\<close>

definition delete_events_after :: "string \<Rightarrow> string \<Rightarrow> int \<Rightarrow> unit stmt" where
  "delete_events_after sc rid cutoff = (\<lambda>e d.
     (let P = (\<lambda>r. in_run sc rid r \<and> seq r > cutoff) in
     Done () (d\<lparr>ag_event := delete_where P (ag_event d)\<rparr>)
       (nothing\<lparr>t_event := keys_where P (ag_event d)\<rparr>)))"

subsection \<open>\<open>ag_projection\<close>\<close>

definition select_projection :: "string \<Rightarrow> projection_row reply stmt" where
  "select_projection k = reading (\<lambda>d. only_reply (map_of (ag_projection d) k))"

definition create_projection :: "string \<Rightarrow> projection_row \<Rightarrow> unit stmt" where
  "create_projection k r = (\<lambda>e d.
     if creatable projection_clash k r (ag_projection d)
     then Done () (d\<lparr>ag_projection := AList.update k r (ag_projection d)\<rparr>) nothing else Refused e)"

definition upsert_projection :: "string \<Rightarrow> projection_row \<Rightarrow> unit stmt" where
  "upsert_projection k r = (\<lambda>e d.
     if room_for projection_clash k r (ag_projection d)
     then Done () (d\<lparr>ag_projection := AList.update k r (ag_projection d)\<rparr>) nothing else Refused e)"

subsection \<open>\<open>ag_vertex\<close>\<close>

text \<open>The engine's \<open>int\<close> has 64 bits; a record with a larger number is refused.\<close>

definition fits_int64 :: "int \<Rightarrow> bool" where
  "fits_int64 n \<longleftrightarrow> - (2 ^ 63) \<le> n \<and> n < 2 ^ 63"

definition vertex_fits :: "vertex_row \<Rightarrow> bool" where
  "vertex_fits r \<longleftrightarrow> fits_int64 (object_seq r) \<and> (case version r of None \<Rightarrow> True | Some v \<Rightarrow> fits_int64 v)"

definition select_vertex :: "bool \<Rightarrow> string \<Rightarrow> vertex_row reply stmt" where
  "select_vertex listed k = reading (\<lambda>d. select_reply listed (map_of (ag_vertex d) k))"

definition create_vertex :: "string \<Rightarrow> vertex_row \<Rightarrow> unit stmt" where
  "create_vertex k r = (\<lambda>e d.
     if vertex_fits r \<and> creatable vertex_clash k r (ag_vertex d)
     then Done () (d\<lparr>ag_vertex := AList.update k r (ag_vertex d)\<rparr>) (nothing\<lparr>t_vertex := [k]\<rparr>)
     else Refused e)"

text \<open>\<open>upsert(record, content)\<close> replaces the whole record; the edges at it stay.\<close>

definition upsert_vertex :: "string \<Rightarrow> vertex_row \<Rightarrow> unit stmt" where
  "upsert_vertex k r = (\<lambda>e d.
     if vertex_fits r \<and> room_for vertex_clash k r (ag_vertex d)
     then Done () (d\<lparr>ag_vertex := AList.update k r (ag_vertex d)\<rparr>) (nothing\<lparr>t_vertex := [k]\<rparr>)
     else Refused e)"

text \<open>
  \<open>SELECT * FROM ag_vertex WHERE ... ORDER BY object_seq ASC, object_id ASC LIMIT n\<close>. A negative
  limit is the engine's to refuse.
\<close>

definition vertex_order :: "vertex_row \<Rightarrow> int \<times> string" where
  "vertex_order r = (object_seq r, object_id r)"

definition ordered_vertices :: "(vertex_row \<Rightarrow> bool) \<Rightarrow> tables \<Rightarrow> vertex_row list" where
  "ordered_vertices P d = sort_key vertex_order (rows_where P (ag_vertex d))"

definition select_vertices :: "(vertex_row \<Rightarrow> bool) \<Rightarrow> int option \<Rightarrow> vertex_row reply stmt" where
  "select_vertices P limit = (\<lambda>e d.
     case limit of
       None \<Rightarrow> Done (many_reply (ordered_vertices P d)) d nothing
     | Some n \<Rightarrow> if n < 0 then Refused e
         else Done (many_reply (take (nat n) (ordered_vertices P d))) d nothing)"

text \<open>\<open>SELECT * FROM ag_vertex WHERE ... LIMIT 1\<close>: some one of the rows that match.\<close>

definition select_one_vertex ::
  "(string list \<Rightarrow> string list) \<Rightarrow> (vertex_row \<Rightarrow> bool) \<Rightarrow> vertex_row reply stmt" where
  "select_one_vertex scan P = reading (\<lambda>d. many_reply (take 1 (filter P (scanned scan (ag_vertex d)))))"

text \<open>Deleting vertices deletes the edges that start or end at them.\<close>

definition delete_vertices_where :: "(vertex_row \<Rightarrow> bool) \<Rightarrow> unit stmt" where
  "delete_vertices_where P = (\<lambda>e d.
     (let gone = keys_where P (ag_vertex d);
          at_gone = (\<lambda>r. edge_in r \<in> set gone \<or> edge_out r \<in> set gone) in
     Done () (d\<lparr>ag_vertex := delete_where P (ag_vertex d),
               ag_relation := delete_where at_gone (ag_relation d)\<rparr>)
       (nothing\<lparr>t_vertex := gone, t_relation := keys_where at_gone (ag_relation d)\<rparr>)))"

subsection \<open>\<open>ag_relation\<close>\<close>

definition select_relation :: "bool \<Rightarrow> string \<Rightarrow> relation_row reply stmt" where
  "select_relation listed k = reading (\<lambda>d. select_reply listed (map_of (ag_relation d) k))"

definition delete_relation :: "string \<Rightarrow> unit stmt" where
  "delete_relation k = (\<lambda>e d.
     Done () (d\<lparr>ag_relation := AList.delete k (ag_relation d)\<rparr>) (nothing\<lparr>t_relation := [k]\<rparr>))"

definition insert_relation :: "string \<Rightarrow> relation_row \<Rightarrow> unit stmt" where
  "insert_relation k r = (\<lambda>e d.
     if creatable relation_clash k r (ag_relation d)
     then Done () (d\<lparr>ag_relation := AList.update k r (ag_relation d)\<rparr>) (nothing\<lparr>t_relation := [k]\<rparr>)
     else Refused e)"

definition delete_relations_where :: "(relation_row \<Rightarrow> bool) \<Rightarrow> unit stmt" where
  "delete_relations_where P = (\<lambda>e d.
     Done () (d\<lparr>ag_relation := delete_where P (ag_relation d)\<rparr>)
       (nothing\<lparr>t_relation := keys_where P (ag_relation d)\<rparr>))"

text \<open>\<open>SELECT * FROM ag_relation WHERE ... ORDER BY relation_id ASC\<close>, and without \<open>ORDER BY\<close>.\<close>

definition ordered_relations :: "(relation_row \<Rightarrow> bool) \<Rightarrow> tables \<Rightarrow> relation_row list" where
  "ordered_relations P d = sort_key relation_id (rows_where P (ag_relation d))"

definition select_relations :: "(relation_row \<Rightarrow> bool) \<Rightarrow> relation_row reply stmt" where
  "select_relations P = reading (\<lambda>d. many_reply (ordered_relations P d))"

definition select_relations_unordered ::
  "(string list \<Rightarrow> string list) \<Rightarrow> (relation_row \<Rightarrow> bool) \<Rightarrow> relation_row reply stmt" where
  "select_relations_unordered scan P =
     reading (\<lambda>d. many_reply (filter P (scanned scan (ag_relation d))))"

subsection \<open>\<open>ag_patch\<close>\<close>

definition select_patch :: "bool \<Rightarrow> string \<Rightarrow> patch_row reply stmt" where
  "select_patch listed k = reading (\<lambda>d. select_reply listed (map_of (ag_patch d) k))"

definition upsert_patch :: "string \<Rightarrow> patch_row \<Rightarrow> unit stmt" where
  "upsert_patch k r = (\<lambda>e d.
     if fits_int64 (expected_version r) \<and> room_for patch_clash k r (ag_patch d)
     then Done () (d\<lparr>ag_patch := AList.update k r (ag_patch d)\<rparr>) nothing else Refused e)"

definition delete_patch :: "string \<Rightarrow> unit stmt" where
  "delete_patch k = (\<lambda>e d. Done () (d\<lparr>ag_patch := AList.delete k (ag_patch d)\<rparr>) nothing)"

definition delete_patches_where :: "(patch_row \<Rightarrow> bool) \<Rightarrow> unit stmt" where
  "delete_patches_where P = (\<lambda>e d. Done () (d\<lparr>ag_patch := delete_where P (ag_patch d)\<rparr>) nothing)"

definition ordered_patches :: "(patch_row \<Rightarrow> bool) \<Rightarrow> tables \<Rightarrow> patch_row list" where
  "ordered_patches P d = sort_key patch_id (rows_where P (ag_patch d))"

definition select_patches :: "(patch_row \<Rightarrow> bool) \<Rightarrow> patch_row reply stmt" where
  "select_patches P = reading (\<lambda>d. many_reply (ordered_patches P d))"

section \<open>What the record operations do to a table\<close>

lemma set_delete_where [simp]: "set (delete_where P t) = {kr \<in> set t. \<not> P (snd kr)}"
  by (auto simp: delete_where_def)

lemma distinct_delete_where [simp]:
  "distinct (map fst t) \<Longrightarrow> distinct (map fst (delete_where P t))"
  by (simp add: delete_where_def distinct_map_fst_filter)

lemma rows_where_delete [simp]:
  "rows_where Q (delete_where P t) = rows_where (\<lambda>r. Q r \<and> \<not> P r) t"
proof -
  have "filter Q (map snd (filter (\<lambda>kr. \<not> P (snd kr)) t)) = filter (\<lambda>r. Q r \<and> \<not> P r) (map snd t)"
    by (induction t) auto
  then show ?thesis by (simp add: rows_where_def delete_where_def)
qed

lemma map_of_delete_where:
  "distinct (map fst t) \<Longrightarrow>
   map_of (delete_where P t) k = (case map_of t k of None \<Rightarrow> None | Some r \<Rightarrow> if P r then None else Some r)"
proof (induction t)
  case Nil
  then show ?case by (simp add: delete_where_def)
next
  case (Cons a t)
  then show ?case
    by (cases a) (auto simp: delete_where_def map_of_eq_None_iff image_iff split: option.splits)
qed

lemma in_keys_where:
  "distinct (map fst t) \<Longrightarrow> k \<in> set (keys_where P t) \<longleftrightarrow> (\<exists>r. map_of t k = Some r \<and> P r)"
  by (force simp: keys_where_def image_iff)

lemma in_rows_where: "r \<in> set (rows_where P t) \<longleftrightarrow> P r \<and> (\<exists>k. (k, r) \<in> set t)"
  by (force simp: rows_where_def image_iff)

end
