(* ===== verification/Config.thy ===== *)
theory Config
  imports Errors
begin

text \<open>
  \<open>config.py\<close>: the validated connection settings. \<open>make_config\<close> is the constructor with its
  \<open>__post_init__\<close>: an error, or the normalised settings.
\<close>

section \<open>\<open>str.strip\<close> and \<open>str.rstrip\<close>\<close>

text \<open>The characters \<open>str.isspace\<close> accepts, as UTF-8.\<close>

definition space_texts :: "string list" where
  "space_texts =
     map (\<lambda>n. [char_of n]) [9, 10, 11, 12, 13, 28, 29, 30, 31, 32::nat]
     @ map utf8 ([133, 160, 5760] @ [8192..<8203] @ [8232, 8233, 8239, 8287, 12288::nat])"

fun strip_one :: "string list \<Rightarrow> string \<Rightarrow> string option" where
  "strip_one [] s = None"
| "strip_one (w # ws) s =
     (if w \<noteq> [] \<and> starts_with w s then Some (drop (length w) s) else strip_one ws s)"

lemma strip_one_shorter: "strip_one ws s = Some r \<Longrightarrow> length r < length s"
  by (induction ws s rule: strip_one.induct) (auto simp: starts_with_iff split: if_splits)

function lstrip_of :: "string list \<Rightarrow> string \<Rightarrow> string" where
  "lstrip_of ws s = (case strip_one ws s of None \<Rightarrow> s | Some r \<Rightarrow> lstrip_of ws r)"
  by pat_completeness auto
termination
  by (relation "measure (\<lambda>(ws, s). length s)") (auto dest: strip_one_shorter)

declare lstrip_of.simps [simp del]

definition rstrip_of :: "string list \<Rightarrow> string \<Rightarrow> string" where
  "rstrip_of ws s = rev (lstrip_of (map rev ws) (rev s))"

definition py_strip :: "string \<Rightarrow> string" where
  "py_strip s = rstrip_of space_texts (lstrip_of space_texts s)"

definition rstrip_slash :: "string \<Rightarrow> string" where
  "rstrip_slash s = rev (dropWhile (\<lambda>c. c = CHR ''/'') (rev s))"

section \<open>Settings\<close>

record provider_capabilities =
  transport :: string
  transactional_append :: bool
  atomic_event_projection :: bool
  tls_qualified :: bool

definition default_capabilities :: provider_capabilities where
  "default_capabilities =
     \<lparr>transport = ''websocket'', transactional_append = True,
      atomic_event_projection = False, tls_qualified = False\<rparr>"

record surreal_config =
  endpoint :: string
  namespace :: string
  database :: string
  username :: string
  password :: string
  capabilities :: provider_capabilities

definition normal_endpoint :: "string \<Rightarrow> string" where
  "normal_endpoint raw =
     (let e = rstrip_slash (py_strip raw)
      in if ends_with ''/rpc'' e then rstrip_slash (take (length e - 4) e) else e)"

definition websocket_endpoint :: "string \<Rightarrow> bool" where
  "websocket_endpoint e \<longleftrightarrow> starts_with ''ws://'' e \<or> starts_with ''wss://'' e"

definition required_value :: "string \<Rightarrow> string \<Rightarrow> exn + string" where
  "required_value name value =
     (if py_strip value = [] then Inl (ConfigurationError (name @ '' must be non-empty''))
      else Inr (py_strip value))"

definition make_config ::
  "string \<Rightarrow> string \<Rightarrow> string \<Rightarrow> string \<Rightarrow> string \<Rightarrow> exn + surreal_config" where
  "make_config e ns db user pw =
     (if \<not> websocket_endpoint (normal_endpoint e)
      then Inl (ConfigurationError
        ''endpoint must use ws:// or wss://; HTTP and embedded transports are not supported by this preview'')
      else and_then (required_value ''namespace'' ns) (\<lambda>ns'.
           and_then (required_value ''database'' db) (\<lambda>db'.
           and_then (required_value ''username'' user) (\<lambda>user'.
           and_then (required_value ''password'' pw) (\<lambda>pw'.
             Inr \<lparr>endpoint = normal_endpoint e, namespace = ns', database = db', username = user',
                  password = pw', capabilities = default_capabilities\<rparr>)))))"

text \<open>The dataclass \<open>repr\<close>: \<open>password\<close> and \<open>capabilities\<close> are declared with \<open>repr=False\<close>.\<close>

definition config_repr :: "surreal_config \<Rightarrow> string" where
  "config_repr c =
     ''SurrealConfig(endpoint='' @ py_repr (endpoint c) @ '', namespace='' @ py_repr (namespace c)
     @ '', database='' @ py_repr (database c) @ '', username='' @ py_repr (username c) @ '')''"

section \<open>What a constructed configuration guarantees\<close>

lemma rstrip_slash_end: "rstrip_slash s = [] \<or> last (rstrip_slash s) \<noteq> CHR ''/''"
proof (cases "dropWhile (\<lambda>c. c = CHR ''/'') (rev s)")
  case Nil
  then show ?thesis by (simp add: rstrip_slash_def)
next
  case (Cons c r)
  then have "c \<noteq> CHR ''/''" using hd_dropWhile[of "\<lambda>c. c = CHR ''/''" "rev s"] by auto
  with Cons show ?thesis by (simp add: rstrip_slash_def)
qed

lemma normal_endpoint_end: "normal_endpoint e = [] \<or> last (normal_endpoint e) \<noteq> CHR ''/''"
  by (simp add: normal_endpoint_def Let_def rstrip_slash_end)

lemma required_value_Inr [simp]:
  "required_value name v = Inr w \<longleftrightarrow> w = py_strip v \<and> w \<noteq> []"
  by (auto simp: required_value_def)

lemma required_value_Inl:
  "required_value name v = Inl x \<longleftrightarrow>
     py_strip v = [] \<and> x = ConfigurationError (name @ '' must be non-empty'')"
  by (auto simp: required_value_def)

lemma lstrip_of_fixed: "strip_one ws (lstrip_of ws s) = None"
proof (induction ws s rule: lstrip_of.induct)
  case (1 ws s)
  then show ?case by (subst lstrip_of.simps) (auto split: option.split)
qed

lemma lstrip_of_idem: "lstrip_of ws (lstrip_of ws s) = lstrip_of ws s"
  by (subst lstrip_of.simps) (simp add: lstrip_of_fixed)

text \<open>
  Property C40. The constructor accepts exactly the settings whose normalised endpoint is a
  WebSocket URL and whose four credentials are not blank; what it builds has no trailing slash,
  non-empty stripped values and the bounded default capabilities.
\<close>

theorem make_config_accepts:
  "make_config e ns db user pw = Inr c \<longleftrightarrow>
     websocket_endpoint (endpoint c) \<and> endpoint c = normal_endpoint e
     \<and> last (endpoint c) \<noteq> CHR ''/''
     \<and> namespace c = py_strip ns \<and> namespace c \<noteq> [] \<and> database c = py_strip db \<and> database c \<noteq> []
     \<and> username c = py_strip user \<and> username c \<noteq> [] \<and> password c = py_strip pw \<and> password c \<noteq> []
     \<and> capabilities c = default_capabilities"
proof -
  have "websocket_endpoint (normal_endpoint e) \<Longrightarrow> last (normal_endpoint e) \<noteq> CHR ''/''"
    using normal_endpoint_end[of e] by (auto simp: websocket_endpoint_def starts_with_def)
  then show ?thesis
    by (cases c) (auto simp: make_config_def)
qed

end
