(* ===== verification/Engine.thy ===== *)
theory Engine
  imports Surreal Config
begin

text \<open>
  Requests and transactions. A request is one message to the server: before it other sessions may
  have committed, and it may fail, before its effect or after it. A transaction works on the snapshot
  it began with; its commit asks the server for a verdict and then installs, at once, the records the
  transaction wrote.

  The server's choices are the fields of \<open>env\<close>; the conditions on them that a property needs are
  the definitions \<open>quiet\<close>, \<open>fault_free\<close>, \<open>first_committer_wins\<close> and \<open>commits_unopposed\<close>.
\<close>

section \<open>The environment\<close>

datatype call_outcome = Proceeds | FailsBefore exn | FailsAfter exn

record snapshot_txn =
  base :: tables
  work :: tables
  written :: touched

record 'x env = "'x lib" +
  outcome :: "nat \<Rightarrow> call_outcome"
  others :: "nat \<Rightarrow> tables \<Rightarrow> tables"
  verdict :: "nat \<Rightarrow> snapshot_txn \<Rightarrow> tables \<Rightarrow> exn option"
  refusal :: "nat \<Rightarrow> exn"
  scan :: "nat \<Rightarrow> string list \<Rightarrow> string list"
  clock :: "nat \<Rightarrow> string"
  listed :: bool
  blocking_websocket :: "string \<Rightarrow> bool"
  reported_version :: string
  schema_resource :: string

text \<open>
  \<open>others E n\<close>: what other sessions commit before request \<open>n\<close>. \<open>refusal E n\<close>: the error of a statement
  the engine refuses. \<open>scan E n\<close>: the order in which an unordered query visits records. \<open>clock E n\<close>:
  the time as the provider formats it. \<open>listed E\<close>: whether \<open>select\<close> answers with a list.
\<close>

definition quiet :: "('x, 'z) env_scheme \<Rightarrow> bool" where
  "quiet E \<longleftrightarrow> (\<forall>n d. others E n d = d)"

definition fault_free :: "('x, 'z) env_scheme \<Rightarrow> bool" where
  "fault_free E \<longleftrightarrow> (\<forall>n. outcome E n = Proceeds)"

definition same_records :: "touched \<Rightarrow> tables \<Rightarrow> tables \<Rightarrow> bool" where
  "same_records w d d' \<longleftrightarrow>
     list_all (\<lambda>k. map_of (ag_run d) k = map_of (ag_run d') k) (t_run w)
     \<and> list_all (\<lambda>k. map_of (ag_event d) k = map_of (ag_event d') k) (t_event w)
     \<and> list_all (\<lambda>k. map_of (ag_vertex d) k = map_of (ag_vertex d') k) (t_vertex w)
     \<and> list_all (\<lambda>k. map_of (ag_relation d) k = map_of (ag_relation d') k) (t_relation w)"

text \<open>SurrealDB's optimistic transactions: a commit is refused when a record it wrote has changed.\<close>

definition first_committer_wins :: "('x, 'z) env_scheme \<Rightarrow> bool" where
  "first_committer_wins E \<longleftrightarrow>
     (\<forall>n t d. verdict E n t d = None \<longrightarrow> same_records (written t) (base t) d)"

definition commits_unopposed :: "('x, 'z) env_scheme \<Rightarrow> bool" where
  "commits_unopposed E \<longleftrightarrow> (\<forall>n t. verdict E n t (base t) = None)"

section \<open>Requests\<close>

record server =
  db :: tables
  tick :: nat

text \<open>The state as a request finds it.\<close>

definition arrived :: "('x, 'z) env_scheme \<Rightarrow> 's server_scheme \<Rightarrow> 's server_scheme" where
  "arrived E s = s\<lparr>db := others E (tick s) (db s), tick := Suc (tick s)\<rparr>"

definition request :: "('x, 'z) env_scheme \<Rightarrow> 'a stmt \<Rightarrow> ('s server_scheme, exn, 'a) prog" where
  "request E f = (\<lambda>s.
     let s1 = arrived E s in
     case outcome E (tick s) of
       FailsBefore e \<Rightarrow> (Inl e, s1)
     | Proceeds \<Rightarrow>
         (case f (refusal E (tick s)) (db s1) of
            Refused e \<Rightarrow> (Inl e, s1)
          | Done x d _ \<Rightarrow> (Inr x, s1\<lparr>db := d\<rparr>))
     | FailsAfter e \<Rightarrow>
         (case f (refusal E (tick s)) (db s1) of
            Refused _ \<Rightarrow> (Inl e, s1)
          | Done x d _ \<Rightarrow> (Inl e, s1\<lparr>db := d\<rparr>)))"

text \<open>A message without effect on the tables, such as \<open>signin\<close> or \<open>use\<close>.\<close>

definition ping :: "('x, 'z) env_scheme \<Rightarrow> ('s server_scheme, exn, unit) prog" where
  "ping E = request E (reading (\<lambda>_. ()))"

definition now :: "('x, 'z) env_scheme \<Rightarrow> ('s server_scheme, exn, string) prog" where
  "now E = get_state (\<lambda>s. clock E (tick s))"

section \<open>Connections\<close>

record link = server +
  settings :: surreal_config
  link_closed :: bool
  session_open :: bool
  schema_ready :: bool
  transaction :: "snapshot_txn option"

definition link_ensure_open :: "('s link_scheme, exn, unit) prog" where
  "link_ensure_open = (\<lambda>s. (if link_closed s
     then Inl (ClosedStoreError ''the SurrealDB connection is closed'') else Inr (), s))"

text \<open>\<open>SurrealConnection.session\<close>\<close>

definition need_session :: "('s link_scheme, exn, unit) prog" where
  "need_session = bnd link_ensure_open (\<lambda>_. (\<lambda>s.
     (if session_open s then Inr () else Inl (Foreign ''AssertionError'' ''''), s)))"

text \<open>\<open>SurrealConnection.query\<close>, and the calls on \<open>session\<close>.\<close>

definition query :: "('x, 'z) env_scheme \<Rightarrow> 'a stmt \<Rightarrow> ('s link_scheme, exn, 'a) prog" where
  "query E f = bnd need_session (\<lambda>_. request E f)"

definition query_scan ::
  "('x, 'z) env_scheme \<Rightarrow> ((string list \<Rightarrow> string list) \<Rightarrow> 'a stmt) \<Rightarrow> ('s link_scheme, exn, 'a) prog" where
  "query_scan E f = with_self (\<lambda>s. query E (f (scan E (tick s))))"

section \<open>Transactions\<close>

definition begin_transaction :: "('x, 'z) env_scheme \<Rightarrow> ('s link_scheme, exn, unit) prog" where
  "begin_transaction E =
     bnd need_session (\<lambda>_.
     bnd (request E (reading (\<lambda>d. d))) (\<lambda>d.
       modify (\<lambda>s. s\<lparr>transaction := Some \<lparr>base = d, work = d, written = nothing\<rparr>\<rparr>)))"

definition also_written :: "touched \<Rightarrow> touched \<Rightarrow> touched" where
  "also_written a b =
     \<lparr>t_run = t_run a @ t_run b, t_event = t_event a @ t_event b,
      t_vertex = t_vertex a @ t_vertex b, t_relation = t_relation a @ t_relation b\<rparr>"

definition txn_request :: "('x, 'z) env_scheme \<Rightarrow> 'a stmt \<Rightarrow> ('s link_scheme, exn, 'a) prog" where
  "txn_request E f = (\<lambda>s.
     let s1 = arrived E s in
     case transaction s of
       None \<Rightarrow> (Inl (refusal E (tick s)), s1)
     | Some t \<Rightarrow>
         (case outcome E (tick s) of
            FailsBefore e \<Rightarrow> (Inl e, s1)
          | Proceeds \<Rightarrow>
              (case f (refusal E (tick s)) (work t) of
                 Refused e \<Rightarrow> (Inl e, s1)
               | Done x d w \<Rightarrow> (Inr x, s1\<lparr>transaction :=
                    Some (t\<lparr>work := d, written := also_written (written t) w\<rparr>)\<rparr>))
          | FailsAfter e \<Rightarrow>
              (case f (refusal E (tick s)) (work t) of
                 Refused _ \<Rightarrow> (Inl e, s1)
               | Done x d w \<Rightarrow> (Inl e, s1\<lparr>transaction :=
                    Some (t\<lparr>work := d, written := also_written (written t) w\<rparr>)\<rparr>))))"

definition install_table :: "string list \<Rightarrow> 'r table \<Rightarrow> 'r table \<Rightarrow> 'r table" where
  "install_table ks w c =
     fold (\<lambda>k c. case map_of w k of None \<Rightarrow> AList.delete k c | Some r \<Rightarrow> AList.update k r c) ks c"

definition install :: "snapshot_txn \<Rightarrow> tables \<Rightarrow> tables" where
  "install t d = d\<lparr>
     ag_run := install_table (t_run (written t)) (ag_run (work t)) (ag_run d),
     ag_event := install_table (t_event (written t)) (ag_event (work t)) (ag_event d),
     ag_vertex := install_table (t_vertex (written t)) (ag_vertex (work t)) (ag_vertex d),
     ag_relation := install_table (t_relation (written t)) (ag_relation (work t)) (ag_relation d)\<rparr>"

definition commit :: "('x, 'z) env_scheme \<Rightarrow> ('s link_scheme, exn, unit) prog" where
  "commit E = (\<lambda>s.
     let s1 = arrived E s in
     case transaction s of
       None \<Rightarrow> (Inl (refusal E (tick s)), s1)
     | Some t \<Rightarrow>
         (case outcome E (tick s) of
            FailsBefore e \<Rightarrow> (Inl e, s1)
          | Proceeds \<Rightarrow>
              (case verdict E (tick s) t (db s1) of
                 Some e \<Rightarrow> (Inl e, s1\<lparr>transaction := None\<rparr>)
               | None \<Rightarrow> (Inr (), s1\<lparr>db := install t (db s1), transaction := None\<rparr>))
          | FailsAfter e \<Rightarrow>
              (case verdict E (tick s) t (db s1) of
                 Some _ \<Rightarrow> (Inl e, s1\<lparr>transaction := None\<rparr>)
               | None \<Rightarrow> (Inl e, s1\<lparr>db := install t (db s1), transaction := None\<rparr>))))"

definition cancel :: "('x, 'z) env_scheme \<Rightarrow> ('s link_scheme, exn, unit) prog" where
  "cancel E = bnd (ping E) (\<lambda>_. modify (\<lambda>s. s\<lparr>transaction := None\<rparr>))"

text \<open>\<open>_cancel_safely(transaction)\<close>\<close>

definition cancel_safely :: "('x, 'z) env_scheme \<Rightarrow> ('s link_scheme, exn, unit) prog" where
  "cancel_safely E = suppress (cancel E)"

section \<open>Weakest preconditions of requests\<close>

lemma wp_request:
  "wp (request E f) Q R s =
     (case outcome E (tick s) of
        FailsBefore e \<Rightarrow> R e (arrived E s)
      | Proceeds \<Rightarrow>
          (case f (refusal E (tick s)) (db (arrived E s)) of
             Refused e \<Rightarrow> R e (arrived E s)
           | Done x d _ \<Rightarrow> Q x ((arrived E s)\<lparr>db := d\<rparr>))
      | FailsAfter e \<Rightarrow>
          (case f (refusal E (tick s)) (db (arrived E s)) of
             Refused _ \<Rightarrow> R e (arrived E s)
           | Done x d _ \<Rightarrow> R e ((arrived E s)\<lparr>db := d\<rparr>)))"
  by (simp add: wp_def request_def Let_def split: call_outcome.split step.split)

lemma wp_link_ensure_open [wp_rules]:
  "wp link_ensure_open Q R = (\<lambda>s. if link_closed s
     then R (ClosedStoreError ''the SurrealDB connection is closed'') s else Q () s)"
  by (simp add: wp_def link_ensure_open_def fun_eq_iff)

lemma wp_need_session [wp_rules]:
  "wp need_session Q R = (\<lambda>s.
     if link_closed s then R (ClosedStoreError ''the SurrealDB connection is closed'') s
     else if session_open s then Q () s else R (Foreign ''AssertionError'' '''') s)"
  by (simp add: need_session_def wp_rules fun_eq_iff) (simp add: wp_def)

lemma wp_query [wp_rules]:
  "wp (query E f) Q R = (\<lambda>s.
     if link_closed s then R (ClosedStoreError ''the SurrealDB connection is closed'') s
     else if session_open s then wp (request E f) Q R s else R (Foreign ''AssertionError'' '''') s)"
  by (simp add: query_def wp_rules)

lemma wp_query_scan [wp_rules]:
  "wp (query_scan E f) Q R = (\<lambda>s. wp (query E (f (scan E (tick s)))) Q R s)"
  by (simp add: query_scan_def wp_rules)

lemma wp_now [wp_rules]: "wp (now E) Q R = (\<lambda>s. Q (clock E (tick s)) s)"
  by (simp add: now_def wp_rules)

lemma wp_txn_request:
  "wp (txn_request E f) Q R s =
     (case transaction s of
        None \<Rightarrow> R (refusal E (tick s)) (arrived E s)
      | Some t \<Rightarrow>
         (case outcome E (tick s) of
            FailsBefore e \<Rightarrow> R e (arrived E s)
          | Proceeds \<Rightarrow>
              (case f (refusal E (tick s)) (work t) of
                 Refused e \<Rightarrow> R e (arrived E s)
               | Done x d w \<Rightarrow> Q x ((arrived E s)\<lparr>transaction :=
                    Some (t\<lparr>work := d, written := also_written (written t) w\<rparr>)\<rparr>))
          | FailsAfter e \<Rightarrow>
              (case f (refusal E (tick s)) (work t) of
                 Refused _ \<Rightarrow> R e (arrived E s)
               | Done x d w \<Rightarrow> R e ((arrived E s)\<lparr>transaction :=
                    Some (t\<lparr>work := d, written := also_written (written t) w\<rparr>)\<rparr>))))"
  by (simp add: wp_def txn_request_def Let_def split: option.split call_outcome.split step.split)

lemma wp_commit:
  "wp (commit E) Q R s =
     (case transaction s of
        None \<Rightarrow> R (refusal E (tick s)) (arrived E s)
      | Some t \<Rightarrow>
         (case outcome E (tick s) of
            FailsBefore e \<Rightarrow> R e (arrived E s)
          | Proceeds \<Rightarrow>
              (case verdict E (tick s) t (db (arrived E s)) of
                 Some e \<Rightarrow> R e ((arrived E s)\<lparr>transaction := None\<rparr>)
               | None \<Rightarrow> Q () ((arrived E s)\<lparr>db := install t (db (arrived E s)), transaction := None\<rparr>))
          | FailsAfter e \<Rightarrow>
              (case verdict E (tick s) t (db (arrived E s)) of
                 Some _ \<Rightarrow> R e ((arrived E s)\<lparr>transaction := None\<rparr>)
               | None \<Rightarrow> R e ((arrived E s)\<lparr>db := install t (db (arrived E s)), transaction := None\<rparr>))))"
  by (simp add: wp_def commit_def Let_def split: option.split call_outcome.split)

lemma wp_begin_transaction [wp_rules]:
  "wp (begin_transaction E) Q R = (\<lambda>s.
     if link_closed s then R (ClosedStoreError ''the SurrealDB connection is closed'') s
     else if session_open s then
       wp (request E (reading (\<lambda>d. d)))
         (\<lambda>d s. Q () (s\<lparr>transaction := Some \<lparr>base = d, work = d, written = nothing\<rparr>\<rparr>)) R s
     else R (Foreign ''AssertionError'' '''') s)"
  by (simp add: begin_transaction_def wp_rules)

lemma wp_cancel_safely [wp_rules]:
  "wp (cancel_safely E) Q R =
     wp (ping E) (\<lambda>_ s. Q () (s\<lparr>transaction := None\<rparr>)) (\<lambda>_. Q ())"
  by (simp add: cancel_safely_def cancel_def wp_rules)

subsection \<open>No other session\<close>

text \<open>
  When the other sessions are silent, what a request does depends on the request's own statement
  only; the four rules below cover every way it may fail.
\<close>

lemma arrived_quiet: "quiet E \<Longrightarrow> arrived E s = s\<lparr>tick := Suc (tick s)\<rparr>"
  by (simp add: arrived_def quiet_def)

lemma wp_request_quiet:
  assumes "quiet E"
    and "\<And>e x d w. f e (db s) = Done x d w \<Longrightarrow> Q x (s\<lparr>tick := Suc (tick s), db := d\<rparr>)"
    and "\<And>e e' x d w. f e (db s) = Done x d w \<Longrightarrow> R e' (s\<lparr>tick := Suc (tick s), db := d\<rparr>)"
    and "\<And>e. R e (s\<lparr>tick := Suc (tick s)\<rparr>)"
  shows "wp (request E f) Q R s"
  using assms(2-4)
  by (simp add: wp_request arrived_quiet[OF assms(1)] split: call_outcome.split step.split)

lemma wp_reading_quiet:
  assumes "quiet E"
    and "Q (f (db s)) (s\<lparr>tick := Suc (tick s)\<rparr>)"
    and "\<And>e. R e (s\<lparr>tick := Suc (tick s)\<rparr>)"
  shows "wp (request E (reading f)) Q R s"
proof (rule wp_request_quiet[OF assms(1)])
  fix e x d w
  assume "reading f e (db s) = Done x d w"
  then have x: "x = f (db s)" "d = db s" by (auto simp: reading_def)
  moreover have "s\<lparr>tick := Suc (tick s), db := db s\<rparr> = s\<lparr>tick := Suc (tick s)\<rparr>" by simp
  ultimately show "Q x (s\<lparr>tick := Suc (tick s), db := d\<rparr>)"
    and "R e' (s\<lparr>tick := Suc (tick s), db := d\<rparr>)" for e'
    using assms(2,3) by simp_all
qed (rule assms(3))

lemma wp_txn_request_quiet:
  assumes "quiet E" and "transaction s = Some t"
    and "\<And>e x d w. f e (work t) = Done x d w \<Longrightarrow>
      Q x (s\<lparr>tick := Suc (tick s), transaction := Some (t\<lparr>work := d, written := also_written (written t) w\<rparr>)\<rparr>)"
    and "\<And>e y. R e (s\<lparr>tick := Suc (tick s), transaction := y\<rparr>)"
  shows "wp (txn_request E f) Q R s"
proof -
  have "s\<lparr>tick := Suc (tick s), transaction := transaction s\<rparr> = s\<lparr>tick := Suc (tick s)\<rparr>" by simp
  with assms(4) have "\<And>e. R e (s\<lparr>tick := Suc (tick s)\<rparr>)" by metis
  with assms(2-4) show ?thesis
    by (simp add: wp_txn_request arrived_quiet[OF assms(1)] split: call_outcome.split step.split)
qed

lemma wp_commit_quiet:
  assumes "quiet E" and "transaction s = Some t"
    and "Q () (s\<lparr>tick := Suc (tick s), db := install t (db s), transaction := None\<rparr>)"
    and "\<And>e. R e (s\<lparr>tick := Suc (tick s), db := install t (db s), transaction := None\<rparr>)"
    and "\<And>e y. R e (s\<lparr>tick := Suc (tick s), transaction := y\<rparr>)"
  shows "wp (commit E) Q R s"
proof -
  have "s\<lparr>tick := Suc (tick s), transaction := transaction s\<rparr> = s\<lparr>tick := Suc (tick s)\<rparr>" by simp
  with assms(5) have "\<And>e. R e (s\<lparr>tick := Suc (tick s)\<rparr>)" by metis
  with assms(2-5) show ?thesis
    by (simp add: wp_commit arrived_quiet[OF assms(1)] split: call_outcome.split option.split)
qed

end
