(* ===== verification/Patterns.thy ===== *)
theory Patterns
  imports Config
begin

text \<open>
  The regular expressions and text splitting of the provider: the version patterns of
  \<open>connection.py\<close> and \<open>event_store.py\<close>, the object counter of \<open>graph_store.py\<close>, and
  \<open>_schema_statements\<close>. \<open>\d\<close> and \<open>int\<close> accept every decimal digit of Unicode 14, the version
  Python 3.11 knows.
\<close>

section \<open>Decimal digits\<close>

definition digit_zeros :: "nat list" where
  "digit_zeros =
     [48, 1632, 1776, 1984, 2406, 2534, 2662, 2790, 2918, 3046, 3174, 3302, 3430, 3558, 3664, 3792,
      3872, 4160, 4240, 6112, 6160, 6470, 6608, 6784, 6800, 6992, 7088, 7232, 7248, 42528, 43216,
      43264, 43472, 43504, 43600, 44016, 65296, 66720, 68912, 69734, 69872, 69942, 70096, 70384,
      70736, 70864, 71248, 71360, 71472, 71904, 72016, 72784, 73040, 73120, 92768, 92864, 93008,
      120782, 120792, 120802, 120812, 120822, 123200, 123632, 125264, 130032]"

definition digit_texts :: "(string \<times> nat) list" where
  "digit_texts = concat (map (\<lambda>z. map (\<lambda>v. (utf8 (z + v), v)) [0..<10]) (tl digit_zeros))"

fun lookup_digit :: "(string \<times> nat) list \<Rightarrow> string \<Rightarrow> (nat \<times> string \<times> string) option" where
  "lookup_digit [] s = None"
| "lookup_digit ((w, v) # ws) s =
     (if w \<noteq> [] \<and> starts_with w s then Some (v, w, drop (length w) s) else lookup_digit ws s)"

text \<open>The digit a text starts with: its value, its bytes and the rest of the text.\<close>

definition lead_digit :: "string \<Rightarrow> (nat \<times> string \<times> string) option" where
  "lead_digit s =
     (case s of
        [] \<Rightarrow> None
      | c # r \<Rightarrow>
          (case digit_val c of
             Some v \<Rightarrow> Some (v, [c], r)
           | None \<Rightarrow> if char_nat c < 128 then None else lookup_digit digit_texts s))"

lemma lookup_digit_split: "lookup_digit ws s = Some (v, w, r) \<Longrightarrow> s = w @ r \<and> w \<noteq> []"
  by (induction ws s rule: lookup_digit.induct) (auto simp: starts_with_iff split: if_splits)

lemma lead_digit_split: "lead_digit s = Some (v, w, r) \<Longrightarrow> s = w @ r \<and> w \<noteq> []"
  by (auto simp: lead_digit_def dest: lookup_digit_split split: list.splits option.splits if_splits)

text \<open>\<open>\d*\<close>: the value read, the bytes of the digits and what follows them.\<close>

function digits_from :: "nat \<Rightarrow> string \<Rightarrow> string \<Rightarrow> nat \<times> string \<times> string" where
  "digits_from n seen s =
     (case lead_digit s of
        None \<Rightarrow> (n, seen, s)
      | Some (v, w, r) \<Rightarrow> digits_from (10 * n + v) (seen @ w) r)"
  by pat_completeness auto
termination
  by (relation "measure (\<lambda>(n, seen, s). length s)") (auto dest: lead_digit_split)

declare digits_from.simps [simp del]

definition digits :: "string \<Rightarrow> nat \<times> string \<times> string" where
  "digits s = digits_from 0 [] s"

section \<open>Versions\<close>

text \<open>\<open>\d+\.\d+\.\d+\<close> at the start of a text.\<close>

definition version_here :: "string \<Rightarrow> string option" where
  "version_here s =
     (case digits s of (_, a, r1) \<Rightarrow>
      if a = [] \<or> \<not> starts_with ''.'' r1 then None else
      case digits (tl r1) of (_, b, r2) \<Rightarrow>
      if b = [] \<or> \<not> starts_with ''.'' r2 then None else
      case digits (tl r2) of (_, c, _) \<Rightarrow>
      if c = [] then None else Some (a @ ''.'' @ b @ ''.'' @ c))"

text \<open>\<open>re.search\<close>: the first position at which one of the alternatives matches.\<close>

fun search :: "(string \<Rightarrow> string option) \<Rightarrow> string \<Rightarrow> string option" where
  "search m [] = m []"
| "search m (c # s) = (case m (c # s) of Some v \<Rightarrow> Some v | None \<Rightarrow> search m s)"

text \<open>\<open>(?:surrealdb[- ]v?)?(?P<version>\d+\.\d+\.\d+)\<close> with \<open>re.I\<close>, of \<open>connection.py\<close>.\<close>

definition optional_prefix :: "string \<Rightarrow> string option" where
  "optional_prefix s =
     (if lower (take 9 s) = ''surrealdb'' \<and> drop 9 s \<noteq> [] \<and> s ! 9 \<in> {CHR ''-'', CHR '' ''}
      then Some (if lower (take 1 (drop 10 s)) = ''v'' then drop 11 s else drop 10 s)
      else None)"

definition connection_version_match :: "string \<Rightarrow> string option" where
  "connection_version_match s =
     (case optional_prefix s of
        None \<Rightarrow> version_here s
      | Some r \<Rightarrow> (case version_here r of Some v \<Rightarrow> Some v | None \<Rightarrow> version_here s))"

text \<open>\<open>(?:surrealdb-)?(?P<version>\d+\.\d+\.\d+)\<close>, of \<open>event_store.py\<close>.\<close>

definition store_version_match :: "string \<Rightarrow> string option" where
  "store_version_match s =
     (if starts_with ''surrealdb-'' s then
        (case version_here (drop 10 s) of Some v \<Rightarrow> Some v | None \<Rightarrow> version_here s)
      else version_here s)"

definition normalized_version :: "(string \<Rightarrow> string option) \<Rightarrow> string \<Rightarrow> string" where
  "normalized_version m raw = (case search m raw of Some v \<Rightarrow> v | None \<Rightarrow> raw)"

section \<open>The object counter\<close>

text \<open>\<open>#(?P<seq>\d+)$\<close>: the value and the digits; \<open>$\<close> matches at the end and before a final newline.\<close>

definition counter_here :: "string \<Rightarrow> (nat \<times> string) option" where
  "counter_here s =
     (if starts_with ''#'' s then
        (case digits (tl s) of (n, w, r) \<Rightarrow>
           if w \<noteq> [] \<and> (r = [] \<or> r = [CHR 0x0A]) then Some (n, w) else None)
      else None)"

fun find_counter :: "string \<Rightarrow> (nat \<times> string) option" where
  "find_counter [] = None"
| "find_counter (c # s) = (case counter_here (c # s) of Some n \<Rightarrow> Some n | None \<Rightarrow> find_counter s)"

text \<open>\<open>len\<close> of a text in characters, and the limit of \<open>int\<close> on the digits it converts.\<close>

definition char_count :: "string \<Rightarrow> nat" where
  "char_count w = length (filter (\<lambda>c. char_nat c < 128 \<or> 192 \<le> char_nat c) w)"

definition max_str_digits :: nat where "max_str_digits = 4300"

definition object_counter :: "string \<Rightarrow> exn + int" where
  "object_counter i =
     (case find_counter i of
        None \<Rightarrow> Inr 0
      | Some (n, w) \<Rightarrow>
          if char_count w > max_str_digits then Inl (ValueError
            (''Exceeds the limit (4300 digits) for integer string conversion: value has ''
             @ dec_int (int (char_count w))
             @ '' digits; use sys.set_int_max_str_digits() to increase the limit''))
          else Inr (int n))"

section \<open>Schema statements\<close>

definition line_breaks :: "string list" where
  "line_breaks =
     [[CHR 0x0D, CHR 0x0A]] @ map (\<lambda>n. [char_of n]) [10, 11, 12, 13, 28, 29, 30::nat]
     @ map utf8 [133, 8232, 8233]"

text \<open>\<open>str.splitlines()\<close>: no empty line after a final break.\<close>

function split_lines_from :: "string \<Rightarrow> string \<Rightarrow> string list" where
  "split_lines_from line s =
     (case s of
        [] \<Rightarrow> if line = [] then [] else [line]
      | c # r \<Rightarrow>
          (case strip_one line_breaks s of
             Some r' \<Rightarrow> line # split_lines_from [] r'
           | None \<Rightarrow> split_lines_from (line @ [c]) r))"
  by pat_completeness auto
termination
  by (relation "measure (\<lambda>(line, s). length s)") (auto dest: strip_one_shorter)

declare split_lines_from.simps [simp del]

text \<open>\<open>str.split(";")\<close>\<close>

fun split_on :: "char \<Rightarrow> string \<Rightarrow> string \<Rightarrow> string list" where
  "split_on d part [] = [part]"
| "split_on d part (c # s) = (if c = d then part # split_on d [] s else split_on d (part @ [c]) s)"

definition is_comment :: "string \<Rightarrow> bool" where
  "is_comment line \<longleftrightarrow> starts_with ''--'' (lstrip_of space_texts line)"

definition uncommented :: "string \<Rightarrow> string" where
  "uncommented src = join [CHR 0x0A] (filter (\<lambda>l. \<not> is_comment l) (split_lines_from [] src))"

definition schema_statements :: "string \<Rightarrow> string list" where
  "schema_statements src =
     map (\<lambda>t. t @ '';'')
       (filter (\<lambda>t. t \<noteq> []) (map py_strip (split_on (CHR '';'') [] (uncommented src))))"

text \<open>Texts that start with no character to strip, and texts of a single line.\<close>

lemma strip_one_none: "c \<notin> set (map hd ws) \<Longrightarrow> strip_one ws (c # s) = None"
  by (induction ws) (auto simp: starts_with_iff neq_Nil_conv)

lemma lstrip_none: "c \<notin> set (map hd ws) \<Longrightarrow> lstrip_of ws (c # s) = c # s"
  by (subst lstrip_of.simps) (simp add: strip_one_none)

lemma lstrip_nil [simp]: "lstrip_of ws [] = []"
proof -
  have "strip_one ws [] = None" by (induction ws) (auto simp: starts_with_iff)
  then show ?thesis by (subst lstrip_of.simps) simp
qed

lemma one_line:
  "\<lbrakk>list_all (\<lambda>c. c \<notin> set (map hd line_breaks)) s; line @ s \<noteq> []\<rbrakk> \<Longrightarrow> split_lines_from line s = [line @ s]"
proof (induction s arbitrary: line)
  case Nil
  then show ?case by (subst split_lines_from.simps) simp
next
  case (Cons c s)
  then have "strip_one line_breaks (c # s) = None" by (intro strip_one_none) simp
  with Cons show ?case by (subst split_lines_from.simps) simp
qed

end
