(* ===== verification/Connection.thy ===== *)
theory Connection
  imports Engine Patterns
begin

text \<open>
  \<open>connection.py\<close>: opening and closing a connection, the reported server version, and
  \<open>ensure_schema\<close>, which installs the schema, upgrades an older one and refuses any other.
\<close>

section \<open>Construction\<close>

text \<open>\<open>SurrealConnection.__init__\<close>, on an object whose fields are set and that holds no session.\<close>

definition connection_init :: "('x, 'z) env_scheme \<Rightarrow> ('s link_scheme, exn, unit) prog" where
  "connection_init E =
     bnd (ping E) (\<lambda>_.
     bnd (get_state (\<lambda>s. blocking_websocket E (endpoint (settings s)))) (\<lambda>ws.
     if \<not> ws then
       bnd (ping E) (\<lambda>_. throw (ConfigurationError
         ''the provider requires the SurrealDB blocking WebSocket transport''))
     else
       try_except
         (bnd (ping E) (\<lambda>_.
          bnd (ping E) (\<lambda>_.
          bnd (ping E) (\<lambda>_.
          bnd (ping E) (\<lambda>_.
          bnd (ping E) (\<lambda>_.
            modify (\<lambda>s. s\<lparr>session_open := True\<rparr>)))))))
         (\<lambda>e. bnd (ping E) (\<lambda>_.
              bnd (modify (\<lambda>s. s\<lparr>link_closed := True\<rparr>)) (\<lambda>_. throw e)))))"

definition unconnected :: "surreal_config \<Rightarrow> 's server_scheme \<Rightarrow> link" where
  "unconnected c s =
     \<lparr>db = db s, tick = tick s, settings = c, link_closed = False, session_open = False,
      schema_ready = False, transaction = None\<rparr>"

text \<open>
  Making an object: its initialiser runs on the fresh object, and the server goes on where the
  initialiser left it, with the object or without.
\<close>

definition making ::
  "('s server_scheme \<Rightarrow> 'o server_scheme) \<Rightarrow> ('o server_scheme, exn, unit) prog
    \<Rightarrow> ('s server_scheme, exn, 'o server_scheme) prog" where
  "making fresh p = (\<lambda>s.
     case p (fresh s) of
       (Inl e, o') \<Rightarrow> (Inl e, s\<lparr>db := db o', tick := tick o'\<rparr>)
     | (Inr _, o') \<Rightarrow> (Inr o', s\<lparr>db := db o', tick := tick o'\<rparr>))"

text \<open>Calling a method of another object, which sees the server as it is now.\<close>

definition calling ::
  "'o server_scheme \<Rightarrow> ('o server_scheme, exn, 'a) prog
    \<Rightarrow> ('s server_scheme, exn, 'a \<times> 'o server_scheme) prog" where
  "calling obj p = (\<lambda>s.
     case p (obj\<lparr>db := db s, tick := tick s\<rparr>) of
       (Inl e, o') \<Rightarrow> (Inl e, s\<lparr>db := db o', tick := tick o'\<rparr>)
     | (Inr x, o') \<Rightarrow> (Inr (x, o'), s\<lparr>db := db o', tick := tick o'\<rparr>))"

definition new_connection ::
  "('x, 'z) env_scheme \<Rightarrow> surreal_config \<Rightarrow> ('s server_scheme, exn, link) prog" where
  "new_connection E c = making (unconnected c) (connection_init E)"

section \<open>Closing\<close>

definition link_close :: "('x, 'z) env_scheme \<Rightarrow> ('s link_scheme, exn, unit) prog" where
  "link_close E =
     bnd (get_state link_closed) (\<lambda>closed.
     if closed then ret ()
     else
       bnd (get_state session_open) (\<lambda>had.
       bnd (modify (\<lambda>s. s\<lparr>link_closed := True, session_open := False\<rparr>)) (\<lambda>_.
         try_finally (run_if had (ping E)) (ping E))))"

section \<open>Server version\<close>

definition link_server_version :: "('x, 'z) env_scheme \<Rightarrow> ('s link_scheme, exn, string) prog" where
  "link_server_version E =
     bnd (request E (reading (\<lambda>_. reported_version E))) (\<lambda>raw.
       ret (normalized_version connection_version_match raw))"

section \<open>Schema\<close>

definition SCHEMA_VERSION :: int where "SCHEMA_VERSION = 3"
definition MIN_SCHEMA_VERSION :: int where "MIN_SCHEMA_VERSION = 1"

definition assert_schema_version :: "schema_row \<Rightarrow> exn + unit" where
  "assert_schema_version row =
     (case schema_version_field row of
        None \<Rightarrow> Inl (LedgerIntegrityError ''the provider schema version is absent or invalid'')
      | Some v \<Rightarrow>
          if v > SCHEMA_VERSION then
            Inl (LedgerIntegrityError (''provider schema version '' @ dec_int v
              @ '' is newer than this provider supports (maximum '' @ dec_int SCHEMA_VERSION @ '')''))
          else if v < MIN_SCHEMA_VERSION then
            Inl (LedgerIntegrityError (''provider schema version '' @ dec_int v
              @ '' predates the supported minimum '' @ dec_int MIN_SCHEMA_VERSION))
          else Inr ())"

definition read_schema :: "('x, 'z) env_scheme \<Rightarrow> ('s link_scheme, exn, schema_row option) prog" where
  "read_schema E = bnd (query E select_schema) (\<lambda>r. ret (one r))"

text \<open>\<open>_now_expression_result\<close>\<close>

definition server_now :: "('x, 'z) env_scheme \<Rightarrow> ('s link_scheme, exn, string) prog" where
  "server_now E =
     bnd (with_self (\<lambda>s. query E (reading (\<lambda>_. select_reply (listed E) (Some (clock E (tick s))))))) (\<lambda>r.
       ret (case one r of None \<Rightarrow> ''None'' | Some t \<Rightarrow> t))"

text \<open>The part of \<open>ensure_schema\<close> that creates the version record when there is none.\<close>

definition create_schema_record ::
  "('x, 'z) env_scheme \<Rightarrow> ('s link_scheme, exn, schema_row option) prog" where
  "create_schema_record E =
     bnd (try_except
           (bnd (server_now E) (\<lambda>at.
            bnd (query E (create_schema
              \<lparr>schema_version_field = Some SCHEMA_VERSION, installed_at = at\<rparr>)) (\<lambda>_. ret None)))
           (\<lambda>e. bnd (read_schema E) (\<lambda>current.
              case current of None \<Rightarrow> throw e | Some row \<Rightarrow> ret (Some row))))
       (\<lambda>won. case won of Some row \<Rightarrow> ret (Some row) | None \<Rightarrow> read_schema E)"

definition ensure_schema :: "('x, 'z) env_scheme \<Rightarrow> ('s link_scheme, exn, int) prog" where
  "ensure_schema E =
     bnd link_ensure_open (\<lambda>_.
     bnd (get_state schema_ready) (\<lambda>ready.
     if ready then ret SCHEMA_VERSION
     else
       bnd (try_except (read_schema E) (\<lambda>e. if is_sdk_not_found e then ret None else throw e)) (\<lambda>existing.
       bnd (case existing of None \<Rightarrow> ret () | Some row \<Rightarrow> lift (assert_schema_version row)) (\<lambda>_.
       bnd (for_each (\<lambda>t. query E (define_statement t)) (schema_statements (schema_resource E))) (\<lambda>_.
       bnd (read_schema E) (\<lambda>found.
       bnd (case found of Some row \<Rightarrow> ret (Some row) | None \<Rightarrow> create_schema_record E) (\<lambda>current.
       case current of
         None \<Rightarrow> throw (LedgerIntegrityError ''the provider schema record is missing'')
       | Some row \<Rightarrow>
           bnd (lift (assert_schema_version row)) (\<lambda>_.
           bnd (run_if (case schema_version_field row of None \<Rightarrow> False | Some v \<Rightarrow> v < SCHEMA_VERSION)
                  (query E (update_schema_version SCHEMA_VERSION))) (\<lambda>_.
           bnd (modify (\<lambda>s. s\<lparr>schema_ready := True\<rparr>)) (\<lambda>_. ret SCHEMA_VERSION))))))))))"

section \<open>Weakest preconditions of the connection's operations\<close>

lemma wp_making [wp_rules]:
  "wp (making fresh p) Q R = (\<lambda>s.
     wp p (\<lambda>_ o'. Q o' (s\<lparr>db := db o', tick := tick o'\<rparr>))
          (\<lambda>e o'. R e (s\<lparr>db := db o', tick := tick o'\<rparr>)) (fresh s))"
  by (simp add: wp_def making_def fun_eq_iff split: prod.split sum.split)

lemma wp_calling [wp_rules]:
  "wp (calling obj p) Q R = (\<lambda>s.
     wp p (\<lambda>x o'. Q (x, o') (s\<lparr>db := db o', tick := tick o'\<rparr>))
          (\<lambda>e o'. R e (s\<lparr>db := db o', tick := tick o'\<rparr>)) (obj\<lparr>db := db s, tick := tick s\<rparr>))"
  by (simp add: wp_def calling_def fun_eq_iff split: prod.split sum.split)

lemma ensure_schema_ready: "\<lbrakk>\<not> link_closed s; schema_ready s\<rbrakk> \<Longrightarrow> ensure_schema E s = (Inr SCHEMA_VERSION, s)"
  by (simp add: ensure_schema_def bnd_def get_state_def ret_def link_ensure_open_def)

end
