(* ===== verification/EventStore.thy ===== *)
theory EventStore
  imports Connection
begin

text \<open>
  \<open>event_store.py\<close>: the log of one scope and run. An object is the record \<open>event_store\<close>, its
  connection's fields and its own; each method is a program on it. The two hooks tests install are
  fields: what another session does meanwhile is \<open>others\<close>, what they raise is theirs.
\<close>

section \<open>Objects\<close>

record event_store = link +
  es_scope :: string
  es_run :: string
  es_closed :: bool
  expected_next_seq :: int
  expected_head_hash :: "string option"
  test_after_head_read :: "(run_row \<Rightarrow> exn + unit) option"
  test_before_commit :: "(string \<Rightarrow> string \<Rightarrow> exn + unit) option"

record integrity_report =
  event_count :: int
  report_next_seq :: int
  report_head_hash :: "string option"

record run_record =
  rr_run_id :: string
  rr_parent_run_id :: "string option"
  rr_forked_at_event_id :: "string option"
  rr_label :: "string option"
  rr_created_at :: string
  rr_goal :: "string option"
  rr_frame_id :: "string option"

definition conflict_words :: "string list" where
  "conflict_words = [''conflict'', ''concurrent'', ''transaction'', ''unique'', ''already exists'']"

definition run_key :: "('x, 'z) env_scheme \<Rightarrow> string \<Rightarrow> string \<Rightarrow> string" where
  "run_key E sc rid = record_id (sha256 E) ''ag_run'' [sc, rid]"

definition event_key :: "('x, 'z) env_scheme \<Rightarrow> string \<Rightarrow> string \<Rightarrow> string \<Rightarrow> string" where
  "event_key E sc rid i = record_id (sha256 E) ''ag_event'' [sc, rid, i]"

section \<open>Internal helpers\<close>

definition es_ensure_open :: "('s event_store_scheme, exn, unit) prog" where
  "es_ensure_open = (\<lambda>s. (if es_closed s
     then Inl (ClosedStoreError ''the SurrealEventStore is closed'') else Inr (), s))"

definition run_in_scope :: "string \<Rightarrow> string \<Rightarrow> run_row \<Rightarrow> bool" where
  "run_in_scope sc rid row \<longleftrightarrow> run_scope row = sc \<and> run_run_id row = rid"

definition read_run_row :: "('x, 'z) env_scheme \<Rightarrow> ('s event_store_scheme, exn, run_row option) prog" where
  "read_run_row E = with_self (\<lambda>s.
     bnd (query E (select_run (run_key E (es_scope s) (es_run s)))) (\<lambda>r.
     case one r of
       None \<Rightarrow> ret None
     | Some row \<Rightarrow>
         if run_in_scope (es_scope s) (es_run s) row then ret (Some row)
         else throw (LedgerIntegrityError ''the canonical run record has mismatched scope'')))"

definition missing_run :: "string \<Rightarrow> exn" where
  "missing_run rid = LedgerIntegrityError (''run metadata '' @ py_repr rid @ '' is missing'')"

definition transaction_run_row :: "('x, 'z) env_scheme \<Rightarrow> ('s event_store_scheme, exn, run_row) prog" where
  "transaction_run_row E = with_self (\<lambda>s.
     bnd (txn_request E (select_run (run_key E (es_scope s) (es_run s)))) (\<lambda>r.
     case one r of
       None \<Rightarrow> throw (missing_run (es_run s))
     | Some row \<Rightarrow>
         if run_in_scope (es_scope s) (es_run s) row then ret row
         else throw (LedgerIntegrityError ''the transactional run record is mis-scoped'')))"

definition assert_row_scope :: "string \<Rightarrow> string \<Rightarrow> event_row \<Rightarrow> exn + unit" where
  "assert_row_scope sc rid row = guard_result (in_run sc rid row)
     (LedgerIntegrityError ''an event row crossed its scope/run boundary'')"

definition head_moved :: "('s event_store_scheme) \<Rightarrow> run_row \<Rightarrow> bool" where
  "head_moved s row \<longleftrightarrow> next_seq row \<noteq> expected_next_seq s \<or> head_hash row \<noteq> expected_head_hash s"

definition assert_expected_head :: "run_row \<Rightarrow> ('s event_store_scheme, exn, unit) prog" where
  "assert_expected_head head = (\<lambda>s.
     (if head_moved s head
      then Inl (ConcurrentWriterError
        (''run '' @ py_repr (es_run s) @ '' changed after this handle observed its head''))
      else Inr (), s))"

definition names_conflict :: "exn \<Rightarrow> bool" where
  "names_conflict e \<longleftrightarrow> list_ex (\<lambda>w. occurs_in w (lower (exn_text e))) conflict_words"

definition raise_if_concurrent :: "('x, 'z) env_scheme \<Rightarrow> exn \<Rightarrow> ('s event_store_scheme, exn, unit) prog" where
  "raise_if_concurrent E cause = with_self (\<lambda>s.
     bnd (try_except (read_run_row E) (\<lambda>_. ret None)) (\<lambda>current.
     if (case current of None \<Rightarrow> False | Some row \<Rightarrow> head_moved s row) \<or> names_conflict cause
     then throw (ConcurrentWriterError
       (''run '' @ py_repr (es_run s) @ '' changed during a transactional write''))
     else ret ()))"

definition destination_exists ::
  "('x, 'z) env_scheme \<Rightarrow> string \<Rightarrow> ('s event_store_scheme, exn, bool) prog" where
  "destination_exists E rid = with_self (\<lambda>s.
     bnd (query E (select_run (run_key E (es_scope s) rid))) (\<lambda>r. ret (one r \<noteq> None)))"

definition new_run_row :: "string \<Rightarrow> string \<Rightarrow> string \<Rightarrow> run_row" where
  "new_run_row sc rid at =
     \<lparr>run_scope = sc, run_run_id = rid, parent_run_id = None, forked_at_event_id = None, label = None,
      created_at = at, goal = None, run_frame_id = None, next_seq = 0, head_hash = None\<rparr>"

definition ensure_run :: "('x, 'z) env_scheme \<Rightarrow> ('s event_store_scheme, exn, unit) prog" where
  "ensure_run E =
     bnd (read_run_row E) (\<lambda>found.
     if found \<noteq> None then ret ()
     else
       bnd (now E) (\<lambda>at. with_self (\<lambda>s.
       try_except
         (query E (create_run (run_key E (es_scope s) (es_run s)) (new_run_row (es_scope s) (es_run s) at)))
         (\<lambda>e. bnd (read_run_row E) (\<lambda>again. if again = None then throw e else ret ())))))"

section \<open>Verification of a log\<close>

text \<open>
  The loop of \<open>_verified_rows_and_run\<close>: from position \<open>n\<close> and the hash before it, the hash after the
  rows, or the first thing wrong with them.
\<close>

fun verify_rows ::
  "('x, 'z) env_scheme \<Rightarrow> string \<Rightarrow> string \<Rightarrow> int \<Rightarrow> string option \<Rightarrow> event_row list \<Rightarrow> exn + string option" where
  "verify_rows E sc rid n previous [] = Inr previous"
| "verify_rows E sc rid n previous (row # rest) =
     and_then (assert_row_scope sc rid row) (\<lambda>_.
     and_then (guard_result (seq row = n) (LedgerIntegrityError
       (''run '' @ py_repr rid @ '' has sequence '' @ dec_int (seq row) @ ''; expected '' @ dec_int n))) (\<lambda>_.
     and_then (guard_result (previous_hash row = previous) (LedgerIntegrityError
       (''event '' @ py_repr (event_id row) @ '' has an invalid previous hash''))) (\<lambda>_.
     and_then (record_to_event E row) (\<lambda>ev.
     and_then (event_hash E sc rid (seq row) ev (previous_hash row)) (\<lambda>h.
     and_then (guard_result (h = hash row) (LedgerIntegrityError
       (''event '' @ py_repr (ev_id ev) @ '' failed hash-chain verification''))) (\<lambda>_.
       verify_rows E sc rid (n + 1) (Some h) rest))))))"

definition verify_head :: "event_row list \<Rightarrow> run_row \<Rightarrow> string option \<Rightarrow> exn + unit" where
  "verify_head rws run h =
     and_then (guard_result (next_seq run = int (length rws)) (LedgerIntegrityError
       (''run head expects '' @ dec_int (next_seq run) @ '' events; found '' @ dec_int (int (length rws))))) (\<lambda>_.
       guard_result (head_hash run = h)
         (LedgerIntegrityError ''run head hash does not match the event chain''))"

definition verified_rows_and_run ::
  "('x, 'z) env_scheme \<Rightarrow> ('s event_store_scheme, exn, event_row list \<times> run_row) prog" where
  "verified_rows_and_run E = with_self (\<lambda>s.
     bnd es_ensure_open (\<lambda>_.
     bnd (query E (select_run_events (es_scope s) (es_run s))) (\<lambda>r.
     bnd (read_run_row E) (\<lambda>found.
     case found of
       None \<Rightarrow> throw (missing_run (es_run s))
     | Some run \<Rightarrow>
         bnd (lift (verify_rows E (es_scope s) (es_run s) 0 None (rows r))) (\<lambda>h.
         bnd (lift (verify_head (rows r) run h)) (\<lambda>_. ret (rows r, run)))))))"

definition verify_integrity :: "('x, 'z) env_scheme \<Rightarrow> ('s event_store_scheme, exn, integrity_report) prog" where
  "verify_integrity E =
     bnd (verified_rows_and_run E) (\<lambda>(rws, run).
       ret \<lparr>event_count = int (length rws), report_next_seq = next_seq run,
            report_head_hash = head_hash run\<rparr>)"

section \<open>Construction and closing\<close>

definition fresh_event_store :: "surreal_config \<Rightarrow> string \<Rightarrow> string \<Rightarrow> 's server_scheme \<Rightarrow> event_store" where
  "fresh_event_store c rid sc s =
     \<lparr>db = db s, tick = tick s, settings = c, link_closed = False, session_open = False,
      schema_ready = False, transaction = None, es_scope = sc, es_run = rid, es_closed = False,
      expected_next_seq = 0, expected_head_hash = None, test_after_head_read = None,
      test_before_commit = None\<rparr>"

definition event_store_init :: "('x, 'z) env_scheme \<Rightarrow> ('s event_store_scheme, exn, unit) prog" where
  "event_store_init E = with_self (\<lambda>s.
     if es_run s = [] then throw (ValueError ''run_id must be non-empty'')
     else if es_scope s = [] then throw (ValueError ''scope must be non-empty'')
     else
       bnd (connection_init E) (\<lambda>_.
         try_except
           (bnd (ensure_schema E) (\<lambda>_.
            bnd (ensure_run E) (\<lambda>_.
            bnd (verify_integrity E) (\<lambda>report.
              modify (\<lambda>s. s\<lparr>expected_next_seq := report_next_seq report,
                             expected_head_hash := report_head_hash report\<rparr>)))))
           (\<lambda>e. bnd (link_close E) (\<lambda>_.
                bnd (modify (\<lambda>s. s\<lparr>es_closed := True\<rparr>)) (\<lambda>_. throw e)))))"

definition new_event_store ::
  "('x, 'z) env_scheme \<Rightarrow> surreal_config \<Rightarrow> string \<Rightarrow> string
    \<Rightarrow> ('s server_scheme, exn, event_store) prog" where
  "new_event_store E c rid sc = making (fresh_event_store c rid sc) (event_store_init E)"

definition es_close :: "('x, 'z) env_scheme \<Rightarrow> ('s event_store_scheme, exn, unit) prog" where
  "es_close E =
     bnd (get_state es_closed) (\<lambda>closed.
     if closed then ret ()
     else bnd (modify (\<lambda>s. s\<lparr>es_closed := True\<rparr>)) (\<lambda>_. link_close E))"

section \<open>The log\<close>

definition rethrow_write_error ::
  "('x, 'z) env_scheme \<Rightarrow> (exn \<Rightarrow> bool) \<Rightarrow> exn \<Rightarrow> ('s event_store_scheme, exn, 'a) prog" where
  "rethrow_write_error E expected e =
     bnd (cancel_safely E) (\<lambda>_.
     if expected e then throw e
     else bnd (raise_if_concurrent E e) (\<lambda>_. throw e))"

definition event_content ::
  "event_fields \<Rightarrow> string \<Rightarrow> string \<Rightarrow> int \<Rightarrow> string option \<Rightarrow> string \<Rightarrow> event_row" where
  "event_content f sc rid n previous h =
     \<lparr>event_id = event_id f, event_type = event_type f, payload_json = payload_json f, actor = actor f,
      frame_id = frame_id f, caused_by = caused_by f, timestamp = timestamp f,
      event_scope = sc, event_run = rid, seq = n, previous_hash = previous, hash = h\<rparr>"

definition hook :: "(exn + unit) option \<Rightarrow> ('s link_scheme, exn, unit) prog" where
  "hook h = (case h of None \<Rightarrow> ret () | Some r \<Rightarrow> bnd need_session (\<lambda>_. lift r))"

definition append_in_transaction ::
  "('x, 'z) env_scheme \<Rightarrow> 'x event \<Rightarrow> event_fields \<Rightarrow> ('s event_store_scheme, exn, int \<times> string) prog" where
  "append_in_transaction E ev encoded = with_self (\<lambda>s.
     bnd (transaction_run_row E) (\<lambda>head.
     bnd (assert_expected_head head) (\<lambda>_.
     bnd (hook (map_option (\<lambda>f. f head) (test_after_head_read s))) (\<lambda>_.
     bnd (txn_request E (select_event (event_key E (es_scope s) (es_run s) (ev_id ev)))) (\<lambda>existing.
     if one existing \<noteq> None then
       throw (DuplicateEventError
         (''event '' @ py_repr (ev_id ev) @ '' already exists in run '' @ py_repr (es_run s)))
     else
       bnd (lift (event_hash E (es_scope s) (es_run s) (next_seq head) ev (head_hash head))) (\<lambda>h.
       bnd (txn_request E (create_event (event_key E (es_scope s) (es_run s) (ev_id ev))
              (event_content encoded (es_scope s) (es_run s) (next_seq head) (head_hash head) h))) (\<lambda>_.
       bnd (txn_request E (merge_run (run_key E (es_scope s) (es_run s))
              (\<lambda>r. r\<lparr>next_seq := next_seq head + 1, head_hash := Some h\<rparr>))) (\<lambda>_.
       bnd (hook (map_option (\<lambda>f. f (run_key E (es_scope s) (es_run s))
              (event_key E (es_scope s) (es_run s) (ev_id ev))) (test_before_commit s))) (\<lambda>_.
       bnd (commit E) (\<lambda>_. ret (next_seq head, h)))))))))))"

definition append_event :: "('x, 'z) env_scheme \<Rightarrow> 'x event \<Rightarrow> ('s event_store_scheme, exn, unit) prog" where
  "append_event E ev =
     bnd (lift (event_to_record E ev)) (\<lambda>encoded.
     bnd es_ensure_open (\<lambda>_.
     bnd (begin_transaction E) (\<lambda>_.
     bnd (try_except (append_in_transaction E ev encoded)
            (rethrow_write_error E (\<lambda>e. is_duplicate e \<or> is_concurrent e))) (\<lambda>(n, h).
       modify (\<lambda>s. s\<lparr>expected_next_seq := n + 1, expected_head_hash := Some h\<rparr>)))))"

text \<open>The consumer of \<open>iter_events\<close> runs the generator to its end: its list, or what it raises.\<close>

definition boundary_seq :: "string \<Rightarrow> event_row list \<Rightarrow> string option \<Rightarrow> exn + int option" where
  "boundary_seq rid rws i =
     (case i of
        None \<Rightarrow> Inr None
      | Some i \<Rightarrow>
          (case map_of (rev (map (\<lambda>r. (event_id r, seq r)) rws)) i of
             Some n \<Rightarrow> Inr (Some n)
           | None \<Rightarrow> Inl (EventNotFoundError
               (''event '' @ py_repr i @ '' not found in run '' @ py_repr rid))))"

definition between :: "int option \<Rightarrow> int option \<Rightarrow> event_row \<Rightarrow> bool" where
  "between after_seq until_seq row \<longleftrightarrow>
     (case after_seq of None \<Rightarrow> True | Some a \<Rightarrow> \<not> seq row \<le> a)
     \<and> (case until_seq of None \<Rightarrow> True | Some u \<Rightarrow> \<not> seq row > u)"

definition iter_events ::
  "('x, 'z) env_scheme \<Rightarrow> string option \<Rightarrow> string option \<Rightarrow> ('s event_store_scheme, exn, 'x event list) prog" where
  "iter_events E after until = with_self (\<lambda>s.
     bnd (verified_rows_and_run E) (\<lambda>(rws, run).
     bnd (lift (boundary_seq (es_run s) rws after)) (\<lambda>after_seq.
     bnd (lift (boundary_seq (es_run s) rws until)) (\<lambda>until_seq.
       lift (traverse (record_to_event E) (filter (between after_seq until_seq) rws))))))"

definition get_event :: "('x, 'z) env_scheme \<Rightarrow> string \<Rightarrow> ('s event_store_scheme, exn, 'x event option) prog" where
  "get_event E i = with_self (\<lambda>s.
     bnd es_ensure_open (\<lambda>_.
     bnd (query E (select_event (event_key E (es_scope s) (es_run s) i))) (\<lambda>r.
     case one r of
       None \<Rightarrow> ret None
     | Some row \<Rightarrow>
         bnd (lift (assert_row_scope (es_scope s) (es_run s) row)) (\<lambda>_.
         bnd (lift (record_to_event E row)) (\<lambda>ev. ret (Some ev))))))"

definition count :: "('x, 'z) env_scheme \<Rightarrow> ('s event_store_scheme, exn, int) prog" where
  "count E = with_self (\<lambda>s.
     bnd es_ensure_open (\<lambda>_.
     bnd (query E (count_run_events (es_scope s) (es_run s))) (\<lambda>r.
       ret (case one r of None \<Rightarrow> 0 | Some n \<Rightarrow> n))))"

definition truncate_in_transaction ::
  "('x, 'z) env_scheme \<Rightarrow> string \<Rightarrow> ('s event_store_scheme, exn, int \<times> string) prog" where
  "truncate_in_transaction E i = with_self (\<lambda>s.
     bnd (transaction_run_row E) (\<lambda>head.
     bnd (assert_expected_head head) (\<lambda>_.
     bnd (txn_request E (select_event (event_key E (es_scope s) (es_run s) i))) (\<lambda>found.
     case one found of
       None \<Rightarrow> throw (EventNotFoundError
         (''event '' @ py_repr i @ '' not found in run '' @ py_repr (es_run s)))
     | Some cutoff \<Rightarrow>
         bnd (lift (assert_row_scope (es_scope s) (es_run s) cutoff)) (\<lambda>_.
         bnd (txn_request E (delete_events_after (es_scope s) (es_run s) (seq cutoff))) (\<lambda>_.
         bnd (txn_request E (merge_run (run_key E (es_scope s) (es_run s))
                (\<lambda>r. r\<lparr>next_seq := seq cutoff + 1, head_hash := Some (hash cutoff)\<rparr>))) (\<lambda>_.
         bnd (commit E) (\<lambda>_. ret (seq cutoff, hash cutoff)))))))))"

definition truncate_after :: "('x, 'z) env_scheme \<Rightarrow> string \<Rightarrow> ('s event_store_scheme, exn, unit) prog" where
  "truncate_after E i =
     bnd es_ensure_open (\<lambda>_.
     bnd (begin_transaction E) (\<lambda>_.
     bnd (try_except (truncate_in_transaction E i)
            (rethrow_write_error E (\<lambda>e. is_event_not_found e \<or> is_concurrent e))) (\<lambda>(n, h).
       modify (\<lambda>s. s\<lparr>expected_next_seq := n + 1, expected_head_hash := Some h\<rparr>))))"

section \<open>Diagnostics and run metadata\<close>

text \<open>\<open>raw_query\<close> sends the caller's own statement.\<close>

definition es_raw_query :: "('x, 'z) env_scheme \<Rightarrow> 'a stmt \<Rightarrow> ('s event_store_scheme, exn, 'a) prog" where
  "es_raw_query E f = bnd es_ensure_open (\<lambda>_. query E f)"

definition es_server_version :: "('x, 'z) env_scheme \<Rightarrow> ('s event_store_scheme, exn, string) prog" where
  "es_server_version E =
     bnd es_ensure_open (\<lambda>_.
     bnd (link_server_version E) (\<lambda>raw. ret (normalized_version store_version_match raw)))"

definition es_schema_version :: "('x, 'z) env_scheme \<Rightarrow> ('s event_store_scheme, exn, string) prog" where
  "es_schema_version E =
     bnd es_ensure_open (\<lambda>_.
     bnd (query E select_schema_version) (\<lambda>r.
     case first_scalar r of
       None \<Rightarrow> throw (LedgerIntegrityError ''the provider schema version record is missing'')
     | Some v \<Rightarrow> ret (dec_int v)))"

definition get_run :: "('x, 'z) env_scheme \<Rightarrow> ('s event_store_scheme, exn, run_record option) prog" where
  "get_run E =
     bnd es_ensure_open (\<lambda>_.
     bnd (read_run_row E) (\<lambda>found.
       ret (map_option (\<lambda>row.
         \<lparr>rr_run_id = run_run_id row, rr_parent_run_id = parent_run_id row,
          rr_forked_at_event_id = forked_at_event_id row, rr_label = label row,
          rr_created_at = created_at row, rr_goal = goal row, rr_frame_id = run_frame_id row\<rparr>) found)))"

text \<open>The patch holds the members that are not \<open>None\<close>; \<open>MERGE\<close> sets them one by one.\<close>

definition given :: "(string \<times> string option) list \<Rightarrow> (string \<times> string) list" where
  "given kvs = List.map_filter (\<lambda>(k, v). map_option (Pair k) v) kvs"

definition set_run_field :: "string \<times> string \<Rightarrow> run_row \<Rightarrow> run_row" where
  "set_run_field kv r =
     (case kv of (k, v) \<Rightarrow>
        if k = ''parent_run_id'' then r\<lparr>parent_run_id := Some v\<rparr>
        else if k = ''forked_at_event_id'' then r\<lparr>forked_at_event_id := Some v\<rparr>
        else if k = ''label'' then r\<lparr>label := Some v\<rparr>
        else if k = ''goal'' then r\<lparr>goal := Some v\<rparr>
        else if k = ''frame_id'' then r\<lparr>run_frame_id := Some v\<rparr>
        else r)"

definition upsert_run ::
  "('x, 'z) env_scheme \<Rightarrow> string option \<Rightarrow> string option \<Rightarrow> string option \<Rightarrow> string \<Rightarrow> string option
    \<Rightarrow> string option \<Rightarrow> ('s event_store_scheme, exn, unit) prog" where
  "upsert_run E parent forked lbl created gl frame = with_self (\<lambda>s.
     bnd es_ensure_open (\<lambda>_.
     bnd (read_run_row E) (\<lambda>found.
     if found = None then
       query E (create_run (run_key E (es_scope s) (es_run s))
         \<lparr>run_scope = es_scope s, run_run_id = es_run s, parent_run_id = parent,
          forked_at_event_id = forked, label = lbl, created_at = created, goal = gl,
          run_frame_id = frame, next_seq = 0, head_hash = None\<rparr>)
     else
       (let patch = given [(''parent_run_id'', parent), (''forked_at_event_id'', forked),
                           (''label'', lbl), (''goal'', gl), (''frame_id'', frame)] in
        run_if (patch \<noteq> [])
          (query E (update_only_run (run_key E (es_scope s) (es_run s)) (fold set_run_field patch)))))))"

section \<open>Class methods\<close>

definition with_connection ::
  "('x, 'z) env_scheme \<Rightarrow> surreal_config \<Rightarrow> (link, exn, 'a) prog \<Rightarrow> (server, exn, 'a) prog" where
  "with_connection E c p =
     bnd (new_connection E c) (\<lambda>l.
     bnd (calling l (try_finally (bnd (ensure_schema E) (\<lambda>_. p)) (link_close E))) (\<lambda>(x, _). ret x))"

definition run_exists ::
  "('x, 'z) env_scheme \<Rightarrow> surreal_config \<Rightarrow> string \<Rightarrow> string \<Rightarrow> (server, exn, bool) prog" where
  "run_exists E c rid sc =
     with_connection E c (bnd (query E (select_run (run_key E sc rid))) (\<lambda>r. ret (one r \<noteq> None)))"

text \<open>The choice of \<open>most_recent_run_id\<close>: the greatest \<open>(has events, events, created_at, run_id)\<close>.\<close>

type_synonym candidate = "int \<times> int \<times> string \<times> string"

definition candidate_of :: "(string \<times> int) list \<Rightarrow> run_row \<Rightarrow> candidate" where
  "candidate_of per_run row =
     (let n = (case map_of (rev per_run) (run_run_id row) of None \<Rightarrow> 0 | Some n \<Rightarrow> n)
      in (if n > 0 then 1 else 0, n, created_at row, run_run_id row))"

definition latest_run :: "run_row list \<Rightarrow> (string \<times> int) list \<Rightarrow> string option" where
  "latest_run runs per_run =
     (case map (candidate_of per_run) runs of
        [] \<Rightarrow> None
      | c # cs \<Rightarrow> Some (snd (snd (snd (fold max cs c)))))"

definition most_recent_run_id ::
  "('x, 'z) env_scheme \<Rightarrow> surreal_config \<Rightarrow> string \<Rightarrow> (server, exn, string option) prog" where
  "most_recent_run_id E c sc =
     bnd (with_connection E c
       (bnd (query_scan E (\<lambda>order. select_runs order (\<lambda>r. run_scope r = sc))) (\<lambda>runs.
        bnd (query E (select_events_per_run sc)) (\<lambda>per_run. ret (rows runs, rows per_run)))))
     (\<lambda>(runs, per_run). ret (latest_run runs per_run))"

definition inspect_run_artifacts ::
  "('x, 'z) env_scheme \<Rightarrow> surreal_config \<Rightarrow> string \<Rightarrow> string \<Rightarrow> (server, exn, int \<times> int) prog" where
  "inspect_run_artifacts E c rid sc =
     with_connection E c
       (bnd (query E (select_run_ids sc rid)) (\<lambda>runs.
        bnd (query E (select_event_ids sc rid)) (\<lambda>events.
          ret (int (length (rows runs)), int (length (rows events))))))"

section \<open>Forks\<close>

text \<open>The child's rows: the prefix, re-hashed from the start under the child's run id.\<close>

fun child_rows ::
  "('x, 'z) env_scheme \<Rightarrow> string \<Rightarrow> string \<Rightarrow> int \<Rightarrow> string option \<Rightarrow> 'x event list
    \<Rightarrow> exn + (string \<times> event_row) list \<times> string option" where
  "child_rows E sc rid n previous [] = Inr ([], previous)"
| "child_rows E sc rid n previous (ev # rest) =
     and_then (event_hash E sc rid n ev previous) (\<lambda>h.
     and_then (event_to_record E ev) (\<lambda>f.
     and_then (child_rows E sc rid (n + 1) (Some h) rest) (\<lambda>(krs, final_hash).
       Inr ((event_key E sc rid (ev_id ev), event_content f sc rid n previous h) # krs, final_hash))))"

fun index_of :: "('a \<Rightarrow> bool) \<Rightarrow> 'a list \<Rightarrow> nat option" where
  "index_of P [] = None"
| "index_of P (x # xs) = (if P x then Some 0 else map_option Suc (index_of P xs))"

definition run_exists_error :: "string \<Rightarrow> exn" where
  "run_exists_error rid = RunAlreadyExistsError (''destination run '' @ py_repr rid @ '' already exists'')"

definition fork_in_transaction ::
  "('x, 'z) env_scheme \<Rightarrow> string \<Rightarrow> string \<Rightarrow> string option \<Rightarrow> string \<Rightarrow> event_row list \<Rightarrow> run_row
    \<Rightarrow> (string \<times> event_row) list \<Rightarrow> string option \<Rightarrow> ('s event_store_scheme, exn, unit) prog" where
  "fork_in_transaction E new_rid at lbl created rws parent children final_hash = with_self (\<lambda>s.
     bnd (transaction_run_row E) (\<lambda>current.
     if next_seq current \<noteq> int (length rws) \<or> head_hash current \<noteq> head_hash parent then
       throw (ConcurrentWriterError (''parent run '' @ py_repr (es_run s) @ '' changed during fork''))
     else
       bnd (txn_request E (select_run (run_key E (es_scope s) new_rid))) (\<lambda>existing.
       if one existing \<noteq> None then throw (run_exists_error new_rid)
       else
         bnd (txn_request E (merge_run (run_key E (es_scope s) (es_run s))
                (\<lambda>r. r\<lparr>next_seq := next_seq parent, head_hash := head_hash parent\<rparr>))) (\<lambda>_.
         bnd (txn_request E (create_run (run_key E (es_scope s) new_rid)
                \<lparr>run_scope = es_scope s, run_run_id = new_rid, parent_run_id = Some (es_run s),
                 forked_at_event_id = Some at, label = lbl, created_at = created, goal = goal parent,
                 run_frame_id = run_frame_id parent, next_seq = int (length children),
                 head_hash = final_hash\<rparr>)) (\<lambda>_.
         bnd (for_each (\<lambda>(k, row). txn_request E (create_event k row)) children) (\<lambda>_.
           commit E))))))"

definition fork_failed ::
  "('x, 'z) env_scheme \<Rightarrow> string \<Rightarrow> exn \<Rightarrow> ('s event_store_scheme, exn, unit) prog" where
  "fork_failed E new_rid e =
     bnd (cancel_safely E) (\<lambda>_.
     if is_concurrent e \<or> is_run_exists e then throw e
     else
       bnd (destination_exists E new_rid) (\<lambda>there.
       if there then throw (run_exists_error new_rid)
       else bnd (raise_if_concurrent E e) (\<lambda>_. throw e)))"

definition fork_prefix ::
  "('x, 'z) env_scheme \<Rightarrow> string \<Rightarrow> string \<Rightarrow> string option
    \<Rightarrow> ('s event_store_scheme, exn, event_store) prog" where
  "fork_prefix E new_rid at lbl = with_self (\<lambda>s.
     bnd es_ensure_open (\<lambda>_.
     bnd (verified_rows_and_run E) (\<lambda>(rws, parent).
     bnd (assert_expected_head parent) (\<lambda>_.
     if rws \<noteq> [] \<and> event_type (hd rws) = ''runtime.snapshot'' then
       throw (UnsupportedCompactedRunError ''runtime.snapshot logs are outside the preview fork contract'')
     else
       (case index_of (\<lambda>row. event_id row = at) rws of
          None \<Rightarrow> throw (ForkPointNotFoundError
            (''fork point '' @ py_repr at @ '' is absent from run '' @ py_repr (es_run s)))
        | Some cutoff \<Rightarrow>
            bnd (destination_exists E new_rid) (\<lambda>there.
            if there then throw (run_exists_error new_rid)
            else
              bnd (lift (traverse (record_to_event E) (take (cutoff + 1) rws))) (\<lambda>prefix.
              bnd (now E) (\<lambda>created.
              bnd (lift (child_rows E (es_scope s) new_rid 0 None prefix)) (\<lambda>(children, final_hash).
              bnd (begin_transaction E) (\<lambda>_.
              bnd (try_except
                     (fork_in_transaction E new_rid at lbl created rws parent children final_hash)
                     (fork_failed E new_rid)) (\<lambda>_.
                new_event_store E (settings s) new_rid (es_scope s))))))))))))"

end
