(* ===== verification/Reach.thy ===== *)
theory Reach
  imports Connection
begin

text \<open>
  What a program can do to the database on its own. \<open>reach E s s'\<close> says that from \<open>s\<close> to \<open>s'\<close> only
  other sessions wrote: the tables are those other sessions made of them, request by request, and the
  object's fields are as they were (an open transaction apart). Programs all of whose runs are such are
  \<open>readonly\<close>; the rules collected in \<open>readonly_intros\<close> find them by their syntax.
\<close>

named_theorems readonly_intros "programs that write nothing"

section \<open>Drift\<close>

definition drift :: "('x, 'z) env_scheme \<Rightarrow> nat \<Rightarrow> nat \<Rightarrow> tables \<Rightarrow> tables" where
  "drift E m n d = fold (others E) [m..<n] d"

definition reach :: "('x, 'z) env_scheme \<Rightarrow> 's link_scheme \<Rightarrow> 's link_scheme \<Rightarrow> bool" where
  "reach E s s' \<longleftrightarrow> tick s \<le> tick s' \<and> db s' = drift E (tick s) (tick s') (db s)
     \<and> s' = s\<lparr>db := db s', tick := tick s', transaction := transaction s'\<rparr>"

lemma drift_refl [simp]: "drift E n n d = d"
  by (simp add: drift_def)

lemma drift_Suc: "m \<le> n \<Longrightarrow> drift E m (Suc n) d = others E n (drift E m n d)"
  by (simp add: drift_def)

lemma drift_trans: "\<lbrakk>l \<le> m; m \<le> n\<rbrakk> \<Longrightarrow> drift E m n (drift E l m d) = drift E l n d"
proof (induction n)
  case 0
  then show ?case by simp
next
  case (Suc n)
  then show ?case by (cases "m = Suc n") (simp_all add: drift_Suc)
qed

lemma drift_quiet: "quiet E \<Longrightarrow> drift E m n d = d"
proof (induction n)
  case 0
  then show ?case by (simp add: drift_def)
next
  case (Suc n)
  then show ?case by (cases "m \<le> n") (auto simp: drift_Suc quiet_def, simp add: drift_def)
qed

lemma reach_refl [simp]: "reach E s s"
  by (simp add: reach_def)

lemma reach_trans: "\<lbrakk>reach E s t; reach E t u\<rbrakk> \<Longrightarrow> reach E s u"
  unfolding reach_def by (cases s; cases t; cases u) (auto simp: drift_trans)

lemma arrived_fields [simp]:
  "tick (arrived E s) = Suc (tick s)"
  "db (arrived E s) = others E (tick s) (db s)"
  by (simp_all add: arrived_def)

lemma arrived_link [simp]:
  "link_closed (arrived E s) = link_closed s"
  "session_open (arrived E s) = session_open s"
  "schema_ready (arrived E s) = schema_ready s"
  "transaction (arrived E s) = transaction s"
  "settings (arrived E s) = settings s"
  by (simp_all add: arrived_def)

lemma reach_arrived: "reach E s (arrived E s)" for s :: "'s link_scheme"
  by (cases s) (simp add: reach_def arrived_def drift_Suc)

lemma reach_transaction: "reach E s t \<Longrightarrow> reach E s (t\<lparr>transaction := y\<rparr>)"
  by (cases s; cases t) (auto simp: reach_def)

lemma reach_step: "reach E s t \<Longrightarrow> reach E s ((arrived E t)\<lparr>transaction := y\<rparr>)"
  by (intro reach_transaction reach_trans[OF _ reach_arrived])

lemma reach_step': "reach E s t \<Longrightarrow> reach E s (arrived E t)"
  by (rule reach_trans[OF _ reach_arrived])

lemma reach_fields:
  assumes "reach E s t"
  shows "link_closed t = link_closed s" "session_open t = session_open s" "settings t = settings s"
    "schema_ready t = schema_ready s"
proof -
  obtain d n y where "t = s\<lparr>db := d, tick := n, transaction := y\<rparr>"
    using assms unfolding reach_def by blast
  then show "link_closed t = link_closed s" "session_open t = session_open s" "settings t = settings s"
    "schema_ready t = schema_ready s" by simp_all
qed

lemma reach_quiet: "\<lbrakk>quiet E; reach E s t\<rbrakk> \<Longrightarrow> db t = db s"
  by (simp add: reach_def drift_quiet)

section \<open>Passive programs\<close>

definition readonly :: "('x, 'z) env_scheme \<Rightarrow> ('s link_scheme, exn, 'a) prog \<Rightarrow> bool" where
  "readonly E p \<longleftrightarrow> (\<forall>s. reach E s (snd (p s)))"

lemma readonlyD: "readonly E p \<Longrightarrow> p s = (r, s') \<Longrightarrow> reach E s s'"
  unfolding readonly_def by (metis snd_conv)

lemma readonly_wp: "readonly E p \<Longrightarrow> reach E s0 s \<Longrightarrow> (\<And>x t. reach E s0 t \<Longrightarrow> Q x t) \<Longrightarrow>
    (\<And>e t. reach E s0 t \<Longrightarrow> R e t) \<Longrightarrow> wp p Q R s"
  unfolding wp_def readonly_def
  by (cases "p s") (auto split: sum.split intro: reach_trans, (metis reach_trans snd_conv)+)

lemma readonly_ret [readonly_intros]: "readonly E (ret x)"
  by (simp add: readonly_def ret_def)

lemma readonly_throw [readonly_intros]: "readonly E (throw e)"
  by (simp add: readonly_def throw_def)

lemma readonly_lift [readonly_intros]: "readonly E (lift r)"
  by (simp add: readonly_def lift_def)

lemma readonly_get_state [readonly_intros]: "readonly E (get_state f)"
  by (simp add: readonly_def get_state_def)

lemma readonly_bnd [readonly_intros]:
  "readonly E p \<Longrightarrow> (\<And>x. readonly E (f x)) \<Longrightarrow> readonly E (bnd p f)"
  unfolding readonly_def bnd_def
  by (auto split: prod.split sum.split) (metis reach_trans snd_conv)+

lemma readonly_try_except [readonly_intros]:
  "readonly E p \<Longrightarrow> (\<And>e. readonly E (h e)) \<Longrightarrow> readonly E (try_except p h)"
  unfolding readonly_def try_except_def
  by (auto split: prod.split sum.split) (metis reach_trans snd_conv)+

lemma readonly_suppress [readonly_intros]: "readonly E p \<Longrightarrow> readonly E (suppress p)"
  unfolding suppress_def by (intro readonly_intros)

lemma readonly_run_if [readonly_intros]: "readonly E p \<Longrightarrow> readonly E (run_if b p)"
  unfolding run_if_def by (simp add: readonly_intros)

lemma readonly_if [readonly_intros]:
  "(b \<Longrightarrow> readonly E p) \<Longrightarrow> (\<not> b \<Longrightarrow> readonly E q) \<Longrightarrow> readonly E (if b then p else q)"
  by simp

lemma readonly_option [readonly_intros]:
  "readonly E p \<Longrightarrow> (\<And>x. readonly E (f x)) \<Longrightarrow> readonly E (case y of None \<Rightarrow> p | Some x \<Rightarrow> f x)"
  by (cases y) simp_all

lemma readonly_prod [readonly_intros]:
  "(\<And>x z. readonly E (f x z)) \<Longrightarrow> readonly E (case y of (x, z) \<Rightarrow> f x z)"
  by (cases y) simp

lemma readonly_with_self [readonly_intros]: "(\<And>t. readonly E (p t)) \<Longrightarrow> readonly E (with_self p)"
  by (simp add: readonly_def with_self_def)

lemma readonly_pure: "(\<And>s. snd (p s) = s) \<Longrightarrow> readonly E p"
  by (simp add: readonly_def)

lemma readonly_for_each [readonly_intros]: "(\<And>x. readonly E (f x)) \<Longrightarrow> readonly E (for_each f xs)"
  by (induction xs) (simp_all add: readonly_intros)

lemma arrived_same_db [simp]: "(arrived E s)\<lparr>db := others E (tick s) (db s)\<rparr> = arrived E s"
  by (simp add: arrived_def)

lemma readonly_reading [readonly_intros]: "readonly E (request E (reading f))"
  by (simp add: readonly_def request_def Let_def reading_def reach_arrived split: call_outcome.split)

lemma readonly_ping [readonly_intros]: "readonly E (ping E)"
  unfolding ping_def by (rule readonly_reading)

lemma readonly_txn_request [readonly_intros]: "readonly E (txn_request E f)"
  by (simp add: readonly_def txn_request_def Let_def reach_step reach_arrived
        split: option.split call_outcome.split step.split)

lemma readonly_link_ensure_open [readonly_intros]: "readonly E link_ensure_open"
  by (rule readonly_pure) (simp add: link_ensure_open_def)

lemma readonly_need_session [readonly_intros]: "readonly E need_session"
  unfolding need_session_def by (intro readonly_intros readonly_pure) simp

lemma readonly_query [readonly_intros]: "readonly E (query E (reading f))"
  unfolding query_def by (intro readonly_intros)

lemma readonly_begin [readonly_intros]: "readonly E (begin_transaction E)"
proof -
  have "readonly E (modify (\<lambda>s. s\<lparr>transaction := y\<rparr>))" for y
    by (simp add: readonly_def modify_def reach_transaction)
  then show ?thesis unfolding begin_transaction_def by (intro readonly_intros)
qed

lemma readonly_cancel_safely [readonly_intros]: "readonly E (cancel_safely E)"
proof -
  have "readonly E (modify (\<lambda>s. s\<lparr>transaction := None\<rparr>))"
    by (simp add: readonly_def modify_def reach_transaction)
  then show ?thesis unfolding cancel_safely_def cancel_def by (intro readonly_intros)
qed

section \<open>Undisturbed runs\<close>

text \<open>No other session, no failing request, and no conflict reported without one.\<close>

definition calm :: "('x, 'z) env_scheme \<Rightarrow> bool" where
  "calm E \<longleftrightarrow> quiet E \<and> fault_free E \<and> commits_unopposed E"

lemma wp_request_calm:
  "calm E \<Longrightarrow> wp (request E f) Q R s =
     (case f (refusal E (tick s)) (db s) of
        Refused e \<Rightarrow> R e (s\<lparr>tick := Suc (tick s)\<rparr>)
      | Done x d _ \<Rightarrow> Q x (s\<lparr>tick := Suc (tick s), db := d\<rparr>))"
  by (simp add: wp_request calm_def fault_free_def arrived_quiet split: step.split)

lemma wp_reading_calm:
  "calm E \<Longrightarrow> wp (request E (reading f)) Q R s = Q (f (db s)) (s\<lparr>tick := Suc (tick s)\<rparr>)"
  using wp_request_calm[of E "reading f" Q R s] by (cases s) (simp add: reading_def)

lemma wp_ping_calm: "calm E \<Longrightarrow> wp (ping E) Q R s = Q () (s\<lparr>tick := Suc (tick s)\<rparr>)"
  unfolding ping_def by (rule wp_reading_calm)

lemma wp_txn_request_calm:
  "calm E \<Longrightarrow> transaction s = Some t \<Longrightarrow> wp (txn_request E f) Q R s =
     (case f (refusal E (tick s)) (work t) of
        Refused e \<Rightarrow> R e (s\<lparr>tick := Suc (tick s)\<rparr>)
      | Done x d w \<Rightarrow> Q x (s\<lparr>tick := Suc (tick s), transaction :=
            Some (t\<lparr>work := d, written := also_written (written t) w\<rparr>)\<rparr>))"
  by (simp add: wp_txn_request calm_def fault_free_def arrived_quiet split: step.split)

lemma wp_commit_calm:
  "calm E \<Longrightarrow> transaction s = Some t \<Longrightarrow> base t = db s \<Longrightarrow> wp (commit E) Q R s =
     Q () (s\<lparr>tick := Suc (tick s), db := install t (db s), transaction := None\<rparr>)"
proof -
  assume "calm E" "transaction s = Some t" "base t = db s"
  moreover from this have "verdict E (tick s) t (db s) = None"
    unfolding calm_def commits_unopposed_def by metis
  ultimately show "wp (commit E) Q R s =
     Q () (s\<lparr>tick := Suc (tick s), db := install t (db s), transaction := None\<rparr>)"
    by (simp add: wp_commit calm_def fault_free_def arrived_quiet)
qed

lemmas wp_calm = wp_request_calm wp_reading_calm wp_ping_calm wp_txn_request_calm wp_commit_calm

lemma wp_exact: "wp p (\<lambda>x t. x = y \<and> P t) (\<lambda>_ _. False) s \<Longrightarrow> \<exists>t. p s = (Inr y, t) \<and> P t"
  by (auto simp: wp_def split: prod.splits sum.splits)

lemma wp_exact_error: "wp p (\<lambda>_ _. False) (\<lambda>e t. e = y \<and> P t) s \<Longrightarrow> \<exists>t. p s = (Inl y, t) \<and> P t"
  by (auto simp: wp_def split: prod.splits sum.splits)

end
