(* ===== verification/EventLog.thy ===== *)
theory EventLog
  imports EventStore Reach
begin

text \<open>
  The write transaction of \<open>append\<close>: what it has read and written when it commits, under every
  failure and every commit of other sessions, and what is left when it does not commit.
\<close>

section \<open>The fields of an event store\<close>

lemma arrived_event_store [simp]:
  "es_scope (arrived E s) = es_scope s"
  "es_run (arrived E s) = es_run s"
  "es_closed (arrived E s) = es_closed s"
  "expected_next_seq (arrived E s) = expected_next_seq s"
  "expected_head_hash (arrived E s) = expected_head_hash s"
  "test_after_head_read (arrived E s) = test_after_head_read s"
  "test_before_commit (arrived E s) = test_before_commit s"
  by (simp_all add: arrived_def)

lemma reach_event_store:
  assumes "reach E s t"
  shows "es_scope t = es_scope s" "es_run t = es_run s" "es_closed t = es_closed s"
    "expected_next_seq t = expected_next_seq s" "expected_head_hash t = expected_head_hash s"
    "test_after_head_read t = test_after_head_read s" "test_before_commit t = test_before_commit s"
proof -
  obtain d n y where "t = s\<lparr>db := d, tick := n, transaction := y\<rparr>"
    using assms unfolding reach_def by blast
  then show "es_scope t = es_scope s" "es_run t = es_run s" "es_closed t = es_closed s"
    "expected_next_seq t = expected_next_seq s" "expected_head_hash t = expected_head_hash s"
    "test_after_head_read t = test_after_head_read s" "test_before_commit t = test_before_commit s"
    by simp_all
qed

lemma wp_es_ensure_open [wp_rules]:
  "wp es_ensure_open Q R = (\<lambda>s. if es_closed s
     then R (ClosedStoreError ''the SurrealEventStore is closed'') s else Q () s)"
  by (simp add: wp_def es_ensure_open_def fun_eq_iff)

lemma wp_assert_expected_head [wp_rules]:
  "wp (assert_expected_head head) Q R = (\<lambda>s.
     if head_moved s head then R (ConcurrentWriterError
        (''run '' @ py_repr (es_run s) @ '' changed after this handle observed its head'')) s
     else Q () s)"
  by (simp add: wp_def assert_expected_head_def fun_eq_iff)

lemma readonly_es_ensure_open [readonly_intros]: "readonly E es_ensure_open"
  by (rule readonly_pure) (simp add: es_ensure_open_def)

lemma readonly_assert_expected_head [readonly_intros]: "readonly E (assert_expected_head head)"
  by (rule readonly_pure) (simp add: assert_expected_head_def)

lemma readonly_now [readonly_intros]: "readonly E (now E)"
  unfolding now_def by (intro readonly_intros)

lemma readonly_query_scan [readonly_intros]: "readonly E (query_scan E (\<lambda>order. reading (f order)))"
  unfolding query_scan_def by (intro readonly_intros)

lemma readonly_selects [readonly_intros]:
  "readonly E (query E (select_run k))" "readonly E (query E (select_event k))"
  "readonly E (query E (select_run_events sc rid))" "readonly E (query E (count_run_events sc rid))"
  unfolding select_run_def select_event_def select_run_events_def count_run_events_def
  by (intro readonly_intros)+

lemma readonly_read_run_row [readonly_intros]: "readonly E (read_run_row E)"
  unfolding read_run_row_def by (intro readonly_intros)

lemma readonly_transaction_run_row [readonly_intros]: "readonly E (transaction_run_row E)"
  unfolding transaction_run_row_def by (intro readonly_intros)

lemma readonly_raise_if_concurrent [readonly_intros]: "readonly E (raise_if_concurrent E e)"
  unfolding raise_if_concurrent_def by (intro readonly_intros)

lemma readonly_destination_exists [readonly_intros]: "readonly E (destination_exists E rid)"
  unfolding destination_exists_def by (intro readonly_intros)

lemma readonly_verified_rows_and_run [readonly_intros]: "readonly E (verified_rows_and_run E)"
  unfolding verified_rows_and_run_def by (intro readonly_intros)

lemma readonly_verify_integrity [readonly_intros]: "readonly E (verify_integrity E)"
  unfolding verify_integrity_def by (intro readonly_intros)

lemma readonly_iter_events: "readonly E (iter_events E after until)"
  unfolding iter_events_def by (intro readonly_intros)

lemma readonly_get_event: "readonly E (get_event E i)"
  unfolding get_event_def by (intro readonly_intros)

lemma readonly_count: "readonly E (count E)"
  unfolding count_def by (intro readonly_intros)

lemma readonly_get_run: "readonly E (get_run E)"
  unfolding get_run_def by (intro readonly_intros)

lemma readonly_rethrow [readonly_intros]: "readonly E (rethrow_write_error E expected e)"
  unfolding rethrow_write_error_def by (intro readonly_intros)

lemma readonly_fork_failed [readonly_intros]: "readonly E (fork_failed E rid e)"
  unfolding fork_failed_def by (intro readonly_intros)

lemma readonly_hook [readonly_intros]: "readonly E (hook h)"
  unfolding hook_def by (intro readonly_intros)

lemma throwing_rethrow: "throwing (rethrow_write_error E expected e)"
  unfolding rethrow_write_error_def by (intro throwing_bnd throwing_if throwing_throw)

lemma throwing_fork_failed: "throwing (fork_failed E rid e)"
  unfolding fork_failed_def by (intro throwing_bnd throwing_if throwing_throw)

lemma wp_failing:
  assumes "readonly E p" and "throwing p" and "reach E s0 s" and "\<And>e t. reach E s0 t \<Longrightarrow> R e t"
  shows "wp p Q R s"
proof -
  obtain e t where p: "p s = (Inl e, t)" using assms(2) unfolding throwing_def by (metis surj_pair fst_conv)
  with readonlyD[OF assms(1)] assms(3) have "reach E s0 t" by (blast intro: reach_trans)
  with p assms(4) show ?thesis by (simp add: wp_def)
qed

section \<open>The rows a transaction of \<open>append\<close> writes\<close>

definition appended :: "('x, 'z) env_scheme \<Rightarrow> run_row \<Rightarrow> event_row \<Rightarrow> tables \<Rightarrow> tables" where
  "appended E run row d = d\<lparr>
     ag_event := AList.update (event_key E (event_scope row) (event_run row) (event_id row)) row (ag_event d),
     ag_run := AList.update (run_key E (event_scope row) (event_run row))
       (run\<lparr>next_seq := next_seq run + 1, head_hash := Some (hash row)\<rparr>) (ag_run d)\<rparr>"

text \<open>
  The transaction of a successful append at the moment it is committed: what it read of its snapshot,
  and that it wrote the new event and the run's head, nothing else.
\<close>

definition append_txn ::
  "('x, 'z) env_scheme \<Rightarrow> 's event_store_scheme \<Rightarrow> 'x event \<Rightarrow> run_row \<Rightarrow> event_row \<Rightarrow> snapshot_txn \<Rightarrow> bool" where
  "append_txn E s ev run row t \<longleftrightarrow>
     map_of (ag_run (base t)) (run_key E (es_scope s) (es_run s)) = Some run
     \<and> run_in_scope (es_scope s) (es_run s) run
     \<and> next_seq run = expected_next_seq s \<and> head_hash run = expected_head_hash s
     \<and> map_of (ag_event (base t)) (event_key E (es_scope s) (es_run s) (ev_id ev)) = None
     \<and> (\<exists>f h. event_to_record E ev = Inr f
          \<and> event_hash E (es_scope s) (es_run s) (next_seq run) ev (head_hash run) = Inr h
          \<and> row = event_content f (es_scope s) (es_run s) (next_seq run) (head_hash run) h)
     \<and> creatable event_clash (event_key E (es_scope s) (es_run s) (ev_id ev)) row (ag_event (base t))
     \<and> work t = appended E run row (base t)
     \<and> t_run (written t) = [run_key E (es_scope s) (es_run s)]
     \<and> t_event (written t) = [event_key E (es_scope s) (es_run s) (ev_id ev)]
     \<and> t_vertex (written t) = [] \<and> t_relation (written t) = []"

lemma event_to_record_id: "event_to_record L ev = Inr f \<Longrightarrow> event_id f = ev_id ev"
  by (auto simp: event_to_record_def)

lemma event_content_fields [simp]:
  "event_scope (event_content f sc rid n p h) = sc" "event_run (event_content f sc rid n p h) = rid"
  "seq (event_content f sc rid n p h) = n" "previous_hash (event_content f sc rid n p h) = p"
  "hash (event_content f sc rid n p h) = h" "event_id (event_content f sc rid n p h) = event_id f"
  by (simp_all add: event_content_def)

lemma wp_txn_step:
  assumes "transaction s = Some t" and "reach E s0 s"
    and "\<And>x d w. f (refusal E (tick s)) (work t) = Done x d w \<Longrightarrow>
      reach E s0 ((arrived E s)\<lparr>transaction := Some (t\<lparr>work := d, written := also_written (written t) w\<rparr>)\<rparr>) \<Longrightarrow>
      Q x ((arrived E s)\<lparr>transaction := Some (t\<lparr>work := d, written := also_written (written t) w\<rparr>)\<rparr>)"
    and "\<And>e u. reach E s0 u \<Longrightarrow> R e u"
  shows "wp (txn_request E f) Q R s"
  using assms
  by (simp add: wp_txn_request reach_step reach_step' split: call_outcome.split step.split)

lemma wp_txn_reading:
  assumes "transaction s = Some t" and "reach E s0 s"
    and "\<And>y. reach E s0 y \<Longrightarrow> transaction y = Some (t\<lparr>written := also_written (written t) nothing\<rparr>) \<Longrightarrow>
      Q (f (work t)) y"
    and "\<And>e u. reach E s0 u \<Longrightarrow> R e u"
  shows "wp (txn_request E (reading f)) Q R s"
  using assms
  by (intro wp_txn_step[OF assms(1,2)]) (auto simp: reading_def)

lemma also_written_nothing [simp]: "also_written w nothing = w" "also_written nothing w = w"
  by (simp_all add: also_written_def nothing_def)

definition snapshot_since :: "('x, 'z) env_scheme \<Rightarrow> 's link_scheme \<Rightarrow> tables \<Rightarrow> bool" where
  "snapshot_since E s d \<longleftrightarrow> (\<exists>n\<ge>tick s. d = drift E (tick s) n (db s))"

text \<open>
  A transaction \<open>t\<close> begun since \<open>s\<close> was committed on the way to \<open>s'\<close>: before and after the commit
  only other sessions wrote, and the commit itself installed the transaction.
\<close>

definition committed ::
  "('x, 'z) env_scheme \<Rightarrow> 's link_scheme \<Rightarrow> snapshot_txn \<Rightarrow> 's link_scheme \<Rightarrow> bool" where
  "committed E s t s' \<longleftrightarrow> snapshot_since E s (base t) \<and> (\<exists>s1. reach E s s1
     \<and> verdict E (tick s1) t (others E (tick s1) (db s1)) = None
     \<and> reach E ((arrived E s1)\<lparr>db := install t (others E (tick s1) (db s1)), transaction := None\<rparr>) s')"

lemma wp_commit_step:
  assumes "transaction s = Some t" and "reach E s0 s" and "snapshot_since E s0 (base t)"
    and "\<And>y. committed E s0 t y \<Longrightarrow> Q () y" and "\<And>e y. committed E s0 t y \<Longrightarrow> R e y"
    and "\<And>e y. reach E s0 y \<Longrightarrow> R e y"
  shows "wp (commit E) Q R s"
proof -
  have "committed E s0 t ((arrived E s)\<lparr>db := install t (others E (tick s) (db s)), transaction := None\<rparr>)"
    if "verdict E (tick s) t (others E (tick s) (db s)) = None"
    using that assms(2,3) unfolding committed_def by (blast intro: reach_refl)
  with assms show ?thesis
    by (simp add: wp_commit reach_step reach_step' split: call_outcome.split option.split)
qed

lemma wp_begin_step:
  assumes "reach E s0 s"
    and "\<And>y. reach E s0 y \<Longrightarrow> snapshot_since E s0 (db y) \<Longrightarrow>
      transaction y = Some \<lparr>base = db y, work = db y, written = nothing\<rparr> \<Longrightarrow> Q () y"
    and "\<And>e y. reach E s0 y \<Longrightarrow> R e y"
  shows "wp (begin_transaction E) Q R s"
proof -
  have "snapshot_since E s0 (db y)" if "reach E s0 y" for y
    using that unfolding snapshot_since_def reach_def by blast
  with assms show ?thesis
    by (simp add: wp_begin_transaction wp_request reading_def reach_step reach_step' split: call_outcome.split)
qed

lemma wp_transaction_run_row:
  assumes "transaction s = Some t" and "reach E s0 s"
    and "\<And>run y. map_of (ag_run (work t)) (run_key E (es_scope s0) (es_run s0)) = Some run \<Longrightarrow>
      run_in_scope (es_scope s0) (es_run s0) run \<Longrightarrow> reach E s0 y \<Longrightarrow> transaction y = Some t \<Longrightarrow> Q run y"
    and "\<And>e y. reach E s0 y \<Longrightarrow> R e y"
  shows "wp (transaction_run_row E) Q R s"
  unfolding transaction_run_row_def wp_with_self wp_bnd select_run_def
  using assms reach_event_store[OF assms(2)]
  by (intro wp_txn_reading[OF assms(1,2)]) (auto simp: wp_rules split: option.split)

lemma wp_select_event:
  assumes "transaction s = Some t" and "reach E s0 s"
    and "\<And>y. reach E s0 y \<Longrightarrow> transaction y = Some t \<Longrightarrow> Q (only_reply (map_of (ag_event (work t)) k)) y"
    and "\<And>e y. reach E s0 y \<Longrightarrow> R e y"
  shows "wp (txn_request E (select_event k)) Q R s"
  unfolding select_event_def using assms
  by (intro wp_txn_reading[OF assms(1,2)]) auto

lemma head_moved_reach: "reach E s t \<Longrightarrow> head_moved t row = head_moved s row"
  by (simp add: head_moved_def reach_event_store)

lemma wp_hook [wp_rules]:
  "wp (hook h) Q R = (case h of None \<Rightarrow> Q () | Some r \<Rightarrow> wp need_session (\<lambda>_. wp (lift r) Q R) R)"
  by (simp add: hook_def wp_rules split: option.split)

lemma wp_hook_step:
  assumes "Q () s" and "\<And>e. R e s"
  shows "wp (hook h) Q R s"
  using assms by (simp add: wp_rules split: option.split sum.split)

lemma create_event_Done:
  "create_event k r e d = Done x d' w \<longleftrightarrow> creatable event_clash k r (ag_event d)
     \<and> d' = d\<lparr>ag_event := AList.update k r (ag_event d)\<rparr> \<and> w = nothing\<lparr>t_event := [k]\<rparr>"
  by (auto simp: create_event_def)

lemma merge_run_Done:
  "map_of (ag_run d) k = Some r \<Longrightarrow> merge_run k patch e d = Done x d' w \<longleftrightarrow>
     d' = d\<lparr>ag_run := AList.update k (patch r) (ag_run d)\<rparr> \<and> w = nothing\<lparr>t_run := [k]\<rparr>"
  by (auto simp: merge_run_def)

lemma append_txnI:
  assumes "map_of (ag_run B) (run_key E (es_scope s) (es_run s)) = Some run"
    and "run_in_scope (es_scope s) (es_run s) run" and "\<not> head_moved s run"
    and "map_of (ag_event B) (event_key E (es_scope s) (es_run s) (ev_id ev)) = None"
    and "event_to_record E ev = Inr f"
    and "event_hash E (es_scope s) (es_run s) (next_seq run) ev (head_hash run) = Inr h"
    and "row = event_content f (es_scope s) (es_run s) (next_seq run) (head_hash run) h"
    and "creatable event_clash (event_key E (es_scope s) (es_run s) (ev_id ev)) row (ag_event B)"
    and "base t = B" and "work t = appended E run row B"
    and "written t = nothing\<lparr>t_run := [run_key E (es_scope s) (es_run s)],
      t_event := [event_key E (es_scope s) (es_run s) (ev_id ev)]\<rparr>"
  shows "append_txn E s ev run row t"
  using assms by (simp add: append_txn_def head_moved_def nothing_def)

lemma appended_work:
  assumes "event_to_record E ev = Inr f" and "row = event_content f sc rid (next_seq run) (head_hash run) h"
  shows "B\<lparr>ag_event := AList.update (event_key E sc rid (ev_id ev)) row (ag_event B),
            ag_run := AList.update (run_key E sc rid)
              (run\<lparr>next_seq := next_seq run + 1, head_hash := Some h\<rparr>) (ag_run B)\<rparr> = appended E run row B"
  using assms by (simp add: appended_def event_to_record_id)

text \<open>The last write of a transaction that moves the head of the run, and what it leaves to commit.\<close>

lemma wp_move_head:
  assumes "transaction y = Some \<lparr>base = B, work = d, written = w\<rparr>" and "reach E s0 y"
    and run: "map_of (ag_run d) rk = Some run"
    and Q: "\<And>v. reach E s0 v \<Longrightarrow> transaction v = Some \<lparr>base = B,
        work = d\<lparr>ag_run := AList.update rk (run\<lparr>next_seq := n, head_hash := h\<rparr>) (ag_run d)\<rparr>,
        written = also_written w (nothing\<lparr>t_run := [rk]\<rparr>)\<rparr> \<Longrightarrow> Q () v"
    and R: "\<And>e u. reach E s0 u \<Longrightarrow> R e u"
  shows "wp (txn_request E (merge_run rk (\<lambda>r. r\<lparr>next_seq := n, head_hash := h\<rparr>))) Q R y"
  by (rule wp_txn_step[OF assms(1,2) _ R]) (auto simp: merge_run_Done run intro: Q)

lemma append_writes:
  assumes B: "snapshot_since E s0 B" and f: "event_to_record E ev = Inr f"
    and run: "map_of (ag_run B) (run_key E (es_scope s0) (es_run s0)) = Some run"
      "run_in_scope (es_scope s0) (es_run s0) run" "\<not> head_moved s0 run"
      "map_of (ag_event B) (event_key E (es_scope s0) (es_run s0) (ev_id ev)) = None"
    and h: "event_hash E (es_scope s0) (es_run s0) (next_seq run) ev (head_hash run) = Inr h"
    and row: "row = event_content f (es_scope s0) (es_run s0) (next_seq run) (head_hash run) h"
    and y: "reach E s0 y" "transaction y = Some \<lparr>base = B, work = B, written = nothing\<rparr>"
    and Q: "\<And>y t. committed E s0 t y \<Longrightarrow> append_txn E s0 ev run row t \<Longrightarrow> Q (next_seq run, hash row) y"
    and R: "\<And>e y. reach E s0 y \<Longrightarrow> R e y"
    and R': "\<And>e y t. committed E s0 t y \<Longrightarrow> append_txn E s0 ev run row t \<Longrightarrow> R e y"
  shows "wp (bnd (txn_request E (create_event (event_key E (es_scope s0) (es_run s0) (ev_id ev)) row)) (\<lambda>_.
      bnd (txn_request E (merge_run (run_key E (es_scope s0) (es_run s0))
        (\<lambda>r. r\<lparr>next_seq := next_seq run + 1, head_hash := Some h\<rparr>))) (\<lambda>_.
      bnd (hook hk) (\<lambda>_. bnd (commit E) (\<lambda>_. ret (next_seq run, h)))))) Q R y"
  unfolding wp_bnd wp_ret
proof (rule wp_txn_step[OF y(2,1)])
  let ?rk = "run_key E (es_scope s0) (es_run s0)" and ?k = "event_key E (es_scope s0) (es_run s0) (ev_id ev)"
  let ?t = "\<lparr>base = B, work = B, written = nothing\<rparr>"
  fix x d w
  assume "create_event ?k row (refusal E (tick y)) (work ?t) = Done x d w"
  then have c: "creatable event_clash ?k row (ag_event B)"
    and d: "d = B\<lparr>ag_event := AList.update ?k row (ag_event B)\<rparr>" and w: "w = nothing\<lparr>t_event := [?k]\<rparr>"
    by (simp_all add: create_event_Done)
  let ?z = "(arrived E y)\<lparr>transaction := Some (?t\<lparr>work := d, written := also_written (written ?t) w\<rparr>)\<rparr>"
  let ?u = "\<lparr>base = B, work = appended E run row B, written = nothing\<lparr>t_run := [?rk], t_event := [?k]\<rparr>\<rparr>"
  have txn: "append_txn E s0 ev run row ?u" by (rule append_txnI[OF run f h row c]) simp_all
  assume z: "reach E s0 ?z"
  show "wp (txn_request E (merge_run ?rk (\<lambda>r. r\<lparr>next_seq := next_seq run + 1, head_hash := Some h\<rparr>)))
      (\<lambda>_. wp (hook hk) (\<lambda>_. wp (commit E) (\<lambda>_. Q (next_seq run, h)) R) R) R ?z"
  proof (rule wp_move_head[OF _ z, where B = B and d = d and w = w and run = run])
    fix v
    assume v: "reach E s0 v" "transaction v = Some \<lparr>base = B,
        work = d\<lparr>ag_run := AList.update ?rk (run\<lparr>next_seq := next_seq run + 1, head_hash := Some h\<rparr>) (ag_run d)\<rparr>,
        written = also_written w (nothing\<lparr>t_run := [?rk]\<rparr>)\<rparr>"
    then have tv: "transaction v = Some ?u"
      using appended_work[OF f row, of B] by (simp add: d w also_written_def nothing_def)
    have "wp (commit E) (\<lambda>_. Q (next_seq run, h)) R v"
      by (rule wp_commit_step[OF tv v(1)]) (use B Q[OF _ txn] R R'[OF _ txn] row in auto)
    then show "wp (hook hk) (\<lambda>_. wp (commit E) (\<lambda>_. Q (next_seq run, h)) R) R v"
      by (rule wp_hook_step) (rule R[OF v(1)])
  qed (use run(1) R in \<open>simp_all add: d\<close>)
qed (rule R)

lemma append_body:
  assumes s: "reach E s0 s" "transaction s = Some \<lparr>base = B, work = B, written = nothing\<rparr>"
    and B: "snapshot_since E s0 B" and f: "event_to_record E ev = Inr f"
    and Q: "\<And>y t run row. committed E s0 t y \<Longrightarrow> append_txn E s0 ev run row t \<Longrightarrow> Q (next_seq run, hash row) y"
    and R: "\<And>e y. reach E s0 y \<Longrightarrow> R e y"
    and R': "\<And>e y t run row. committed E s0 t y \<Longrightarrow> append_txn E s0 ev run row t \<Longrightarrow> R e y"
  shows "wp (append_in_transaction E ev f) Q R s"
proof -
  note fields = reach_event_store[OF s(1)]
  show ?thesis
    unfolding append_in_transaction_def wp_with_self wp_bnd fields
    apply (rule wp_transaction_run_row[OF s(2,1)])
     apply (simp only: wp_assert_expected_head head_moved_reach split: if_split)
     apply (intro conjI impI, erule R)
     apply (rule wp_hook_step)
      apply (rule wp_select_event, assumption, assumption)
       apply (simp only: wp_if wp_throw one_only_reply split: if_split)
       apply (intro conjI impI allI, erule R)
       apply (subst wp_bnd, simp only: wp_lift split: sum.split)
       apply (intro conjI impI allI, erule R)
       apply (rule append_writes[OF B f])
    by (auto intro: R R' dest: Q simp: head_moved_reach)
qed

definition no_hooks :: "'s event_store_scheme \<Rightarrow> bool" where
  "no_hooks s \<longleftrightarrow> test_after_head_read s = None \<and> test_before_commit s = None"

text \<open>
  Every run of \<open>append\<close>, whatever fails and whatever other sessions do: either it raises and nothing
  of it is in the database, or its transaction was committed, and if it returns that was its last
  request and the handle holds the new head.
\<close>

lemma append_event_runs:
  assumes "append_event E ev s = (r, s')"
  shows "((\<exists>e. r = Inl e) \<and> reach E s s') \<or>
    (\<exists>t run row. append_txn E s ev run row t \<and>
       ((\<exists>e. r = Inl e) \<and> committed E s t s'
        \<or> r = Inr () \<and> (\<exists>y. committed E s t y
            \<and> s' = y\<lparr>expected_next_seq := next_seq run + 1, expected_head_hash := Some (hash row)\<rparr>)))"
proof -
  let ?Q = "\<lambda>x s'. \<exists>t run row y. append_txn E s ev run row t \<and> committed E s t y
       \<and> s' = y\<lparr>expected_next_seq := next_seq run + 1, expected_head_hash := Some (hash row)\<rparr>"
  let ?R = "\<lambda>e s'. reach E s s' \<or> (\<exists>t run row. append_txn E s ev run row t \<and> committed E s t s')"
  have more: "committed E s t z" if "committed E s t y" and "reach E y z" for t y z
    using that unfolding committed_def by (blast intro: reach_trans)
  have rethrow: "wp (rethrow_write_error E c e) Q ?R y" if y: "?R e y"
    for c e y and Q :: "int \<times> string \<Rightarrow> 'a event_store_scheme \<Rightarrow> bool"
  proof -
    obtain e' z where z: "(rethrow_write_error E c e :: (_, exn, int \<times> string) prog) y = (Inl e', z)"
      using throwing_rethrow unfolding throwing_def by (metis surj_pair fst_conv)
    have "reach E y z" by (rule readonlyD[OF readonly_rethrow z])
    with y more have "?R e' z" by (blast intro: reach_trans)
    with z show ?thesis by (simp add: wp_def)
  qed
  have "wp (append_event E ev) ?Q ?R s"
    unfolding append_event_def wp_bnd wp_lift wp_es_ensure_open
    apply (split sum.split, intro conjI allI impI disjI1, simp only: sum.case reach_refl)
    apply (simp only: sum.case if_bool_eq_conj reach_refl simp_thms)
    apply (rule impI, rule wp_begin_step[OF reach_refl])
     apply (simp only: wp_try_except)
     apply (rule append_body, assumption, assumption, assumption, assumption)
       apply (simp only: prod.case wp_modify)
       apply blast
      apply (rule rethrow, blast)
     apply (rule rethrow, blast)
    by blast
  with assms show ?thesis by (auto simp: wp_def split: sum.splits)
qed

lemma install_append:
  assumes "append_txn E s ev run row t"
  shows "install t d = appended E run row d"
proof -
  from assms obtain f h where f: "event_to_record E ev = Inr f"
    and row: "row = event_content f (es_scope s) (es_run s) (next_seq run) (head_hash run) h"
    by (auto simp: append_txn_def)
  then have "event_id row = ev_id ev" "event_scope row = es_scope s" "event_run row = es_run s"
    by (simp_all add: event_to_record_id)
  with assms show ?thesis
    by (simp add: install_def install_table_def append_txn_def appended_def)
qed

lemma committedE:
  assumes "committed E s t s'"
  obtains m where "tick s \<le> m" "m \<le> tick s'" "verdict E (m - 1) t (drift E (tick s) m (db s)) = None"
    "db s' = drift E m (tick s') (install t (drift E (tick s) m (db s)))"
    "snapshot_since E s (base t)"
proof -
  from assms obtain s1 where s1: "reach E s s1" "verdict E (tick s1) t (others E (tick s1) (db s1)) = None"
    "reach E ((arrived E s1)\<lparr>db := install t (others E (tick s1) (db s1)), transaction := None\<rparr>) s'"
    "snapshot_since E s (base t)"
    unfolding committed_def by blast
  have d: "others E (tick s1) (db s1) = drift E (tick s) (Suc (tick s1)) (db s)"
    using s1(1) by (simp add: reach_def drift_Suc)
  show ?thesis
    by (rule that[of "Suc (tick s1)"]) (use s1 d in \<open>auto simp: reach_def\<close>)
qed

lemma committed_event_store:
  assumes "committed E s t s'"
  shows "es_scope s' = es_scope s" "es_run s' = es_run s" "es_closed s' = es_closed s"
    "link_closed s' = link_closed s" "session_open s' = session_open s"
    "test_after_head_read s' = test_after_head_read s" "test_before_commit s' = test_before_commit s"
proof -
  from assms obtain s1 where s1: "reach E s s1"
    "reach E ((arrived E s1)\<lparr>db := install t (others E (tick s1) (db s1)), transaction := None\<rparr>) s'"
    unfolding committed_def by blast
  show "es_scope s' = es_scope s" "es_run s' = es_run s" "es_closed s' = es_closed s"
    "link_closed s' = link_closed s" "session_open s' = session_open s"
    "test_after_head_read s' = test_after_head_read s" "test_before_commit s' = test_before_commit s"
    using reach_event_store[OF s1(1)] reach_event_store[OF s1(2)] reach_fields[OF s1(1)] reach_fields[OF s1(2)]
    by simp_all
qed

lemma append_keeps_fields:
  assumes "append_event E ev s = (r, s')"
  shows "es_scope s' = es_scope s" "es_run s' = es_run s" "no_hooks s' = no_hooks s"
  using append_event_runs[OF assms]
  by (auto simp: no_hooks_def dest: reach_event_store committed_event_store)

lemma committed_quiet: "\<lbrakk>quiet E; committed E s t s'\<rbrakk> \<Longrightarrow> db s' = install t (db s) \<and> base t = db s"
  by (elim committedE) (auto simp: drift_quiet snapshot_since_def)

section \<open>Appending and failures\<close>

lemma append_all_or_nothing_aux:
  assumes "quiet E" and "append_event E ev s = (r, s')"
  shows "db s' = db s \<and> (\<exists>e. r = Inl e)
     \<or> (\<exists>t run row. append_txn E s ev run row t \<and> base t = db s \<and> db s' = appended E run row (db s))"
proof -
  have written: "base t = db s \<and> db y = appended E run row (db s)"
    if "append_txn E s ev run row t" and "committed E s t y" for t run row y
    using committed_quiet[OF assms(1) that(2)] install_append[OF that(1)] by simp
  from append_event_runs[OF assms(2)] show ?thesis
  proof (elim disjE exE conjE)
    assume "reach E s s'"
    then show ?thesis if "r = Inl e" for e using that reach_quiet[OF assms(1)] by blast
  next
    fix t run row e
    assume t: "append_txn E s ev run row t" and c: "committed E s t s'"
    show ?thesis using t written[OF t c] by blast
  next
    fix t run row y
    assume t: "append_txn E s ev run row t" and c: "committed E s t y"
      and s': "s' = y\<lparr>expected_next_seq := next_seq run + 1, expected_head_hash := Some (hash row)\<rparr>"
    have "db s' = db y" by (simp add: s')
    then show ?thesis using t written[OF t c] by auto
  qed
qed

lemma append_returns:
  assumes "first_committer_wins E" and "append_event E ev s = (Inr (), s')"
  shows "\<exists>m t run row. tick s \<le> m \<and> m \<le> tick s'
     \<and> append_txn E s ev run row t
     \<and> map_of (ag_run (drift E (tick s) m (db s))) (run_key E (es_scope s) (es_run s)) = Some run
     \<and> map_of (ag_event (drift E (tick s) m (db s))) (event_key E (es_scope s) (es_run s) (ev_id ev)) = None
     \<and> db s' = drift E m (tick s') (appended E run row (drift E (tick s) m (db s)))
     \<and> expected_next_seq s' = next_seq run + 1 \<and> expected_head_hash s' = Some (hash row)"
proof -
  from append_event_runs[OF assms(2)] obtain t run row y where t: "append_txn E s ev run row t"
    and y: "committed E s t y" and s': "s' = y\<lparr>expected_next_seq := next_seq run + 1, expected_head_hash := Some (hash row)\<rparr>"
    by auto
  from y obtain m where m: "tick s \<le> m" "m \<le> tick y" "verdict E (m - 1) t (drift E (tick s) m (db s)) = None"
    "db y = drift E m (tick y) (install t (drift E (tick s) m (db s)))"
    by (rule committedE)
  have "same_records (written t) (base t) (drift E (tick s) m (db s))"
    using assms(1) m(3) unfolding first_committer_wins_def by blast
  then have "map_of (ag_run (drift E (tick s) m (db s))) (run_key E (es_scope s) (es_run s)) = Some run"
    "map_of (ag_event (drift E (tick s) m (db s))) (event_key E (es_scope s) (es_run s) (ev_id ev)) = None"
    using t by (auto simp: same_records_def append_txn_def)
  with t m s' show ?thesis by (auto simp: install_append[OF t] intro!: exI[of _ m] exI[of _ t])
qed

end
