(* ===== verification/Chain.thy ===== *)
theory Chain
  imports EventStore
begin

text \<open>
  The hash chain: what \<open>verify_rows\<close> accepts, that appending a correctly hashed row extends an
  accepted log and that a prefix of an accepted log is accepted, and what a head hash pins down.
\<close>

section \<open>Accepted logs\<close>

lemma verify_rows_Cons:
  "verify_rows E sc rid n p (row # rest) = Inr h \<longleftrightarrow>
     in_run sc rid row \<and> seq row = n \<and> previous_hash row = p
     \<and> (\<exists>ev. record_to_event E row = Inr ev \<and> event_hash E sc rid n ev p = Inr (hash row))
     \<and> verify_rows E sc rid (n + 1) (Some (hash row)) rest = Inr h"
  by (auto simp: assert_row_scope_def)

lemma verify_rows_append:
  "verify_rows E sc rid n p (xs @ ys) = Inr h \<longleftrightarrow>
     (\<exists>h'. verify_rows E sc rid n p xs = Inr h' \<and> verify_rows E sc rid (n + int (length xs)) h' ys = Inr h)"
proof (induction xs arbitrary: n p)
  case Nil
  show ?case by simp
next
  case (Cons x xs)
  have "n + 1 + int (length xs) = n + int (length (x # xs))" by simp
  with Cons[of "n + 1" "Some (hash x)"] show ?case
    unfolding append_Cons verify_rows_Cons by auto
qed

lemma verify_rows_final:
  "verify_rows E sc rid n p rws = Inr h \<Longrightarrow> h = (if rws = [] then p else Some (hash (last rws)))"
proof (induction rws arbitrary: n p)
  case Nil
  then show ?case by simp
next
  case (Cons row rws)
  then have "verify_rows E sc rid (n + 1) (Some (hash row)) rws = Inr h"
    unfolding verify_rows_Cons by blast
  from Cons.IH[OF this] show ?case by auto
qed

lemma verify_rows_nth:
  assumes "verify_rows E sc rid n p rws = Inr h" and "i < length rws"
  shows "in_run sc rid (rws ! i) \<and> seq (rws ! i) = n + int i
     \<and> previous_hash (rws ! i) = (if i = 0 then p else Some (hash (rws ! (i - 1))))
     \<and> (\<exists>ev. record_to_event E (rws ! i) = Inr ev
          \<and> event_hash E sc rid (n + int i) ev (previous_hash (rws ! i)) = Inr (hash (rws ! i)))"
proof -
  have split: "rws = take i rws @ (rws ! i) # drop (Suc i) rws" using assms(2) by (rule id_take_nth_drop)
  with assms(1) obtain h' where h': "verify_rows E sc rid n p (take i rws) = Inr h'"
    "verify_rows E sc rid (n + int (length (take i rws))) h' ((rws ! i) # drop (Suc i) rws) = Inr h"
    using verify_rows_append by metis
  have "h' = (if i = 0 then p else Some (hash (rws ! (i - 1))))"
    using verify_rows_final[OF h'(1)] assms(2) by (cases i) (auto simp: last_conv_nth)
  with h'(2) assms(2) show ?thesis unfolding verify_rows_Cons by auto
qed

lemma verify_rows_take:
  assumes "verify_rows E sc rid n p rws = Inr h" and "i < length rws"
  shows "verify_rows E sc rid n p (take (Suc i) rws) = Inr (Some (hash (rws ! i)))"
proof -
  have "rws = take (Suc i) rws @ drop (Suc i) rws" by simp
  with assms(1) obtain h' where h': "verify_rows E sc rid n p (take (Suc i) rws) = Inr h'"
    using verify_rows_append by metis
  have "last (take (Suc i) rws) = rws ! i" using assms(2) by (simp add: take_Suc_conv_app_nth)
  with verify_rows_final[OF h'] h' assms(2) show ?thesis by auto
qed

lemma verify_rows_snoc:
  assumes "verify_rows E sc rid n p rws = Inr h" and "in_run sc rid row"
    and "seq row = n + int (length rws)" and "previous_hash row = h"
    and "record_to_event E row = Inr ev" and "event_hash E sc rid (seq row) ev h = Inr (hash row)"
  shows "verify_rows E sc rid n p (rws @ [row]) = Inr (Some (hash row))"
  using assms by (simp add: verify_rows_append verify_rows_Cons del: verify_rows.simps(2))

lemma verify_rows_seqs:
  assumes "verify_rows E sc rid n p rws = Inr h"
  shows "map seq rws = map (\<lambda>i. n + int i) [0..<length rws]"
  using verify_rows_nth[OF assms] by (intro nth_equalityI) auto

lemma verify_rows_in_run:
  "verify_rows E sc rid n p rws = Inr h \<Longrightarrow> row \<in> set rws \<Longrightarrow> in_run sc rid row \<and> n \<le> seq row \<and> seq row < n + int (length rws)"
  using verify_rows_nth by (fastforce simp: in_set_conv_nth)

lemma verify_rows_distinct:
  assumes "verify_rows E sc rid n p rws = Inr h"
  shows "distinct rws" and "inj_on seq (set rws)"
proof -
  have "distinct (map seq rws)"
    unfolding verify_rows_seqs[OF assms] by (simp add: distinct_map inj_on_def)
  then show "distinct rws" and "inj_on seq (set rws)" by (simp_all add: distinct_map)
qed

text \<open>The rows at positions up to \<open>c\<close> are a prefix.\<close>

lemma verify_rows_filter:
  assumes "verify_rows E sc rid 0 p rws = Inr h"
  shows "filter (\<lambda>r. seq r \<le> int c) rws = take (Suc c) rws"
proof -
  have "filter (\<lambda>r. seq r \<le> int c) (take (Suc c) rws) = take (Suc c) rws"
    using verify_rows_nth[OF assms] by (intro filter_True) (auto simp: in_set_conv_nth)
  moreover have "filter (\<lambda>r. seq r \<le> int c) (drop (Suc c) rws) = []"
    using verify_rows_nth[OF assms] by (auto simp: filter_empty_conv in_set_conv_nth)
  ultimately show ?thesis
    by (metis append_Nil2 append_take_drop_id filter_append)
qed

section \<open>What a head hash pins down\<close>

text \<open>Two rows that say the same: the same position and hashes, and the same event.\<close>

definition same_row :: "('x, 'z) env_scheme \<Rightarrow> event_row \<Rightarrow> event_row \<Rightarrow> bool" where
  "same_row E r r' \<longleftrightarrow> event_scope r = event_scope r' \<and> event_run r = event_run r'
     \<and> seq r = seq r' \<and> previous_hash r = previous_hash r' \<and> hash r = hash r'
     \<and> (\<exists>e e'. record_to_event E r = Inr e \<and> record_to_event E r' = Inr e' \<and> same_event E e e')"

text \<open>Two rows whose events, at their places, exhibit a collision of the digest.\<close>

definition rows_collide :: "('x, 'z) env_scheme \<Rightarrow> event_row \<Rightarrow> event_row \<Rightarrow> bool" where
  "rows_collide E r r' \<longleftrightarrow> (\<exists>e e'. record_to_event E r = Inr e \<and> record_to_event E r' = Inr e'
     \<and> hash_collision E (event_scope r, event_run r, seq r, e, previous_hash r)
         (event_scope r', event_run r', seq r', e', previous_hash r'))"

lemma equal_heads_aux:
  assumes lib: "lib_ok E"
    and "verify_rows E sc rid 0 None rws = Inr h" and "verify_rows E sc' rid' 0 None rws' = Inr h"
    and "\<not> (\<exists>r\<in>set rws. \<exists>r'\<in>set rws'. rows_collide E r r')"
  shows "list_all2 (same_row E) rws rws'"
  using assms(2-4)
proof (induction rws arbitrary: rws' h rule: rev_induct)
  case Nil
  then have "h = None" by simp
  with verify_rows_final[OF Nil.prems(2)] show ?case by (auto split: if_splits)
next
  case (snoc row rws)
  have h: "h = Some (hash row)" using verify_rows_final[OF snoc.prems(1)] by simp
  with verify_rows_final[OF snoc.prems(2)] obtain xs row' where rws': "rws' = xs @ [row']" "hash row' = hash row"
    by (cases rws' rule: rev_cases) auto
  obtain h1 where h1: "verify_rows E sc rid 0 None rws = Inr h1"
    "verify_rows E sc rid (int (length rws)) h1 [row] = Inr h"
    using snoc.prems(1) unfolding verify_rows_append by auto
  obtain h2 where h2: "verify_rows E sc' rid' 0 None xs = Inr h2"
    "verify_rows E sc' rid' (int (length xs)) h2 [row'] = Inr h"
    using snoc.prems(2) unfolding rws' verify_rows_append by auto
  obtain e where e: "record_to_event E row = Inr e"
    "event_hash E sc rid (int (length rws)) e h1 = Inr (hash row)" "in_run sc rid row"
    "seq row = int (length rws)" "previous_hash row = h1"
    using h1(2) unfolding verify_rows_Cons by auto
  obtain e' where e': "record_to_event E row' = Inr e'"
    "event_hash E sc' rid' (int (length xs)) e' h2 = Inr (hash row)" "in_run sc' rid' row'"
    "seq row' = int (length xs)" "previous_hash row' = h2"
    using h2(2) rws'(2) unfolding verify_rows_Cons by auto
  have ok: "event_ok E e" "event_ok E e'"
    using record_to_event_ok lib e(1) e'(1) unfolding lib_ok_def by blast+
  have eqs: "sc = sc' \<and> rid = rid' \<and> int (length rws) = int (length xs) \<and> h1 = h2 \<and> same_event E e e'"
  proof -
    have "\<not> rows_collide E row row'" using snoc.prems(3) unfolding rws'(1) by simp
    then have "\<not> hash_collision E (sc, rid, int (length rws), e, h1) (sc', rid', int (length xs), e', h2)"
      using e e' unfolding rows_collide_def in_run_def by auto
    then show ?thesis using event_hash_collision[OF lib ok e(2) e'(2)] by blast
  qed
  then have "list_all2 (same_row E) rws xs" using snoc.IH[OF h1(1)] h2(1) snoc.prems(3) unfolding rws'(1) by simp
  moreover have "same_row E row row'"
    using e e' eqs rws'(2) unfolding same_row_def in_run_def by auto
  ultimately show ?case unfolding rws'(1) by (simp add: list_all2_appendI)
qed

end
