(* ===== verification/Ledger.thy ===== *)
theory Ledger
  imports EventLog Chain
begin

text \<open>
  Well-formed tables and intact logs: what the stored records look like when only the provider has
  written them, and what appending, truncating and forking do to the log a run reads.
\<close>

section \<open>Well-formed tables\<close>

definition tables_ok :: "('x, 'z) env_scheme \<Rightarrow> tables \<Rightarrow> bool" where
  "tables_ok E d \<longleftrightarrow>
     distinct (map fst (ag_run d)) \<and> distinct (map fst (ag_event d))
     \<and> list_all (\<lambda>(k, r). k = run_key E (run_scope r) (run_run_id r)) (ag_run d)
     \<and> list_all (\<lambda>(k, r). k = event_key E (event_scope r) (event_run r) (event_id r)
          \<and> list_ex (\<lambda>(_, q). run_scope q = event_scope r \<and> run_run_id q = event_run r) (ag_run d))
         (ag_event d)
     \<and> list_all (\<lambda>(k, r). list_all (\<lambda>(k', r'). event_clash r r' \<longrightarrow> k = k') (ag_event d)) (ag_event d)"

definition intact :: "('x, 'z) env_scheme \<Rightarrow> string \<Rightarrow> string \<Rightarrow> tables \<Rightarrow> bool" where
  "intact E sc rid d \<longleftrightarrow>
     (case map_of (ag_run d) (run_key E sc rid) of
        None \<Rightarrow> False
      | Some run \<Rightarrow> run_in_scope sc rid run \<and> next_seq run = int (length (run_events sc rid d))
          \<and> verify_rows E sc rid 0 None (run_events sc rid d) = Inr (head_hash run))"

text \<open>An open handle whose view of the head is the head of an intact log.\<close>

definition attached :: "('x, 'z) env_scheme \<Rightarrow> 's event_store_scheme \<Rightarrow> bool" where
  "attached E s \<longleftrightarrow> \<not> es_closed s \<and> \<not> link_closed s \<and> session_open s
     \<and> tables_ok E (db s) \<and> intact E (es_scope s) (es_run s) (db s)
     \<and> map_option next_seq (map_of (ag_run (db s)) (run_key E (es_scope s) (es_run s))) = Some (expected_next_seq s)
     \<and> map_option head_hash (map_of (ag_run (db s)) (run_key E (es_scope s) (es_run s))) = Some (expected_head_hash s)"

lemma tables_okD:
  assumes "tables_ok E d"
  shows "distinct (map fst (ag_run d))" and "distinct (map fst (ag_event d))"
    and "(k, q) \<in> set (ag_run d) \<Longrightarrow> k = run_key E (run_scope q) (run_run_id q)"
    and "(k, r) \<in> set (ag_event d) \<Longrightarrow> k = event_key E (event_scope r) (event_run r) (event_id r)"
    and "(k, r) \<in> set (ag_event d) \<Longrightarrow>
      \<exists>(k', q) \<in> set (ag_run d). run_scope q = event_scope r \<and> run_run_id q = event_run r"
    and "\<lbrakk>(k, r) \<in> set (ag_event d); (k', r') \<in> set (ag_event d); event_clash r r'\<rbrakk> \<Longrightarrow> k = k'"
  using assms by (fastforce simp: tables_ok_def list_all_iff list_ex_iff)+

lemma tables_okI:
  assumes "distinct (map fst (ag_run d))" and "distinct (map fst (ag_event d))"
    and "\<And>k q. (k, q) \<in> set (ag_run d) \<Longrightarrow> k = run_key E (run_scope q) (run_run_id q)"
    and "\<And>k r. (k, r) \<in> set (ag_event d) \<Longrightarrow> k = event_key E (event_scope r) (event_run r) (event_id r)"
    and "\<And>k r. (k, r) \<in> set (ag_event d) \<Longrightarrow>
      \<exists>(k', q) \<in> set (ag_run d). run_scope q = event_scope r \<and> run_run_id q = event_run r"
    and "\<And>k r k' r'. \<lbrakk>(k, r) \<in> set (ag_event d); (k', r') \<in> set (ag_event d); event_clash r r'\<rbrakk> \<Longrightarrow> k = k'"
  shows "tables_ok E d"
  unfolding tables_ok_def list_all_iff list_ex_iff using assms by (auto split: prod.splits)

lemma run_events_set:
  "r \<in> set (run_events sc rid d) \<longleftrightarrow> in_run sc rid r \<and> (\<exists>k. (k, r) \<in> set (ag_event d))"
  by (simp add: run_events_def in_rows_where)

lemma run_events_at_key:
  "\<lbrakk>map_of (ag_event d) k = Some r; in_run sc rid r\<rbrakk> \<Longrightarrow> r \<in> set (run_events sc rid d)"
  by (auto simp: run_events_set dest: map_of_SomeD)

lemma run_events_by_id:
  assumes "tables_ok E d" and "r \<in> set (run_events sc rid d)"
  shows "map_of (ag_event d) (event_key E sc rid (event_id r)) = Some r"
proof -
  from assms(2) obtain k where k: "(k, r) \<in> set (ag_event d)" "in_run sc rid r" by (auto simp: run_events_set)
  then have "k = event_key E sc rid (event_id r)"
    using tables_okD(4)[OF assms(1) k(1)] by (simp add: in_run_def)
  with k tables_okD(2)[OF assms(1)] show ?thesis by (simp add: map_of_Some_iff)
qed

section \<open>Appending one row\<close>

lemma run_events_appended:
  assumes "map_of (ag_event d) (event_key E (event_scope row) (event_run row) (event_id row)) = None"
    and "\<And>r. r \<in> set (run_events sc rid d) \<Longrightarrow> in_run sc rid row \<Longrightarrow> seq r \<le> seq row"
  shows "run_events sc rid (appended E run row d) =
     (if in_run sc rid row then run_events sc rid d @ [row] else run_events sc rid d)"
proof -
  have rows: "rows_where (in_run sc rid) (ag_event (appended E run row d)) =
      rows_where (in_run sc rid) (ag_event d) @ (if in_run sc rid row then [row] else [])"
    using assms(1) by (simp add: appended_def map_of_fresh rows_where_def)
  show ?thesis
    using assms(2) by (simp add: run_events_def rows sort_key_snoc)
qed

lemma tables_ok_appended:
  assumes ok: "tables_ok E d"
    and run: "map_of (ag_run d) (run_key E (event_scope row) (event_run row)) = Some run"
      "run_in_scope (event_scope row) (event_run row) run"
    and c: "creatable event_clash (event_key E (event_scope row) (event_run row) (event_id row)) row (ag_event d)"
  shows "tables_ok E (appended E run row d)"
proof -
  let ?k = "event_key E (event_scope row) (event_run row) (event_id row)"
  let ?rk = "run_key E (event_scope row) (event_run row)"
  let ?run = "run\<lparr>next_seq := next_seq run + 1, head_hash := Some (hash row)\<rparr>"
  have events: "set (ag_event (appended E run row d)) = {kr \<in> set (ag_event d). fst kr \<noteq> ?k} \<union> {(?k, row)}"
    using tables_okD(2)[OF ok] by (simp add: appended_def set_update_alist)
  have runs: "set (ag_run (appended E run row d)) = {kr \<in> set (ag_run d). fst kr \<noteq> ?rk} \<union> {(?rk, ?run)}"
    using tables_okD(1)[OF ok] by (simp add: appended_def set_update_alist)
  have old: "(?rk, run) \<in> set (ag_run d)" using run(1) by (rule map_of_SomeD)
  have there: "\<exists>(k', q) \<in> set (ag_run (appended E run row d)). run_scope q = sc \<and> run_run_id q = rid"
    if "(k, q) \<in> set (ag_run d)" "run_scope q = sc" "run_run_id q = rid" for k q sc rid
  proof (cases "k = ?rk")
    case True
    then have "q = run" using that(1) old tables_okD(1)[OF ok] by (metis eq_key_imp_eq_value)
    with that(2,3) show ?thesis unfolding runs by auto
  next
    case False
    with that show ?thesis unfolding runs by force
  qed
  have new: "\<not> event_clash row r" if "(k, r) \<in> set (ag_event d)" "k \<noteq> ?k" for k r
    using c that by (auto simp: creatable_def room_for_def list_all_iff)
  show ?thesis
  proof (rule tables_okI)
    show "distinct (map fst (ag_run (appended E run row d)))"
      and "distinct (map fst (ag_event (appended E run row d)))"
      using tables_okD(1,2)[OF ok] by (simp_all add: appended_def)
    show "k = run_key E (run_scope q) (run_run_id q)" if "(k, q) \<in> set (ag_run (appended E run row d))" for k q
      using that tables_okD(3)[OF ok] run(2) unfolding runs by (auto simp: run_in_scope_def)
    show "k = event_key E (event_scope r) (event_run r) (event_id r)"
      if "(k, r) \<in> set (ag_event (appended E run row d))" for k r
      using that tables_okD(4)[OF ok] unfolding events by auto
    show "\<exists>(k', q) \<in> set (ag_run (appended E run row d)). run_scope q = event_scope r \<and> run_run_id q = event_run r"
      if "(k, r) \<in> set (ag_event (appended E run row d))" for k r
    proof (cases "(k, r) \<in> set (ag_event d)")
      case True
      then obtain k' q where "(k', q) \<in> set (ag_run d)" "run_scope q = event_scope r" "run_run_id q = event_run r"
        using tables_okD(5)[OF ok] by blast
      then show ?thesis by (rule there)
    next
      case False
      with that have "r = row" unfolding events by auto
      then show ?thesis using there[OF old] run(2) unfolding run_in_scope_def by blast
    qed
    show "k = k'" if "(k, r) \<in> set (ag_event (appended E run row d))"
      "(k', r') \<in> set (ag_event (appended E run row d))" "event_clash r r'" for k r k' r'
    proof -
      have sym: "event_clash r' r" using that(3) by (auto simp: event_clash_def)
      show ?thesis
        using that sym new tables_okD(6)[OF ok] unfolding events by auto
    qed
  qed
qed

section \<open>Undisturbed appends\<close>

lemmas select_defs = select_run_def select_event_def select_run_events_def reading_def

lemma append_calm:
  assumes calm: "calm E" and open_s: "\<not> es_closed s" "\<not> link_closed s" "session_open s" "no_hooks s"
    and f: "event_to_record E ev = Inr f"
    and run: "map_of (ag_run (db s)) (run_key E (es_scope s) (es_run s)) = Some run"
      "run_in_scope (es_scope s) (es_run s) run" "\<not> head_moved s run"
    and new: "map_of (ag_event (db s)) (event_key E (es_scope s) (es_run s) (ev_id ev)) = None"
    and h: "event_hash E (es_scope s) (es_run s) (next_seq run) ev (head_hash run) = Inr h"
    and row: "row = event_content f (es_scope s) (es_run s) (next_seq run) (head_hash run) h"
    and c: "creatable event_clash (event_key E (es_scope s) (es_run s) (ev_id ev)) row (ag_event (db s))"
  shows "\<exists>n. append_event E ev s = (Inr (), s\<lparr>tick := n, db := appended E run row (db s),
      transaction := None, expected_next_seq := next_seq run + 1, expected_head_hash := Some h\<rparr>)"
proof -
  have hm: "\<not> head_moved (s\<lparr>tick := n, transaction := y\<rparr>) run" for n y
    using run(3) by (simp add: head_moved_def)
  have c': "creatable event_clash (event_key E (es_scope s) (es_run s) (ev_id ev))
      (event_content f (es_scope s) (es_run s) (next_seq run) (head_hash run) h) (ag_event (db s))"
    using c row by simp
  have "\<exists>t. append_event E ev s = (Inr (), t) \<and> (\<exists>n. t = s\<lparr>tick := n, db := appended E run row (db s),
      transaction := None, expected_next_seq := next_seq run + 1, expected_head_hash := Some h\<rparr>)"
    apply (rule wp_exact)
    using open_s run new h c' hm
    apply (simp add: append_event_def append_in_transaction_def transaction_run_row_def wp_rules wp_calm[OF calm] select_defs
      wp_assert_expected_head f no_hooks_def create_event_def merge_run_def)
    apply (rule exI[of _ "tick s + 6"])
    apply (simp add: install_def install_table_def appended_def row event_to_record_id[OF f] also_written_def
      nothing_def eval_nat_numeral)
    done
  then show ?thesis by blast
qed

lemma attachedE:
  assumes "attached E s"
  obtains run where "map_of (ag_run (db s)) (run_key E (es_scope s) (es_run s)) = Some run"
    "run_in_scope (es_scope s) (es_run s) run" "\<not> head_moved s run"
    "next_seq run = int (length (run_events (es_scope s) (es_run s) (db s)))"
    "verify_rows E (es_scope s) (es_run s) 0 None (run_events (es_scope s) (es_run s) (db s)) = Inr (head_hash run)"
  using assms by (auto simp: attached_def intact_def head_moved_def split: option.splits)

lemma record_to_event_id: "record_to_event E r = Inr e \<Longrightarrow> ev_id e = event_id r"
  by (auto simp: record_to_event_def)

lemma event_content_decodes:
  "event_to_record E ev = Inr f \<Longrightarrow> record_to_event E (event_content f sc rid n p h) = record_to_event E f"
  by (simp add: record_to_event_def event_content_def)

text \<open>The next row of an intact log fits: no record clashes with it, and the chain goes on.\<close>

lemma next_row_fits:
  assumes lib: "lib_ok E" and ev: "event_ok E ev" and f: "event_to_record E ev = Inr f"
    and ok: "tables_ok E d" and sc: "in_run sc rid row" 
    and n: "n = int (length (run_events sc rid d))"
    and ver: "verify_rows E sc rid 0 None (run_events sc rid d) = Inr p"
    and h: "event_hash E sc rid n ev p = Inr h"
    and row: "row = event_content f sc rid n p h"
    and new: "map_of (ag_event d) (event_key E sc rid (ev_id ev)) = None"
  shows "creatable event_clash (event_key E sc rid (ev_id ev)) row (ag_event d)"
    and "run_events sc rid (appended E run row d) = run_events sc rid d @ [row]"
    and "verify_rows E sc rid 0 None (run_events sc rid d @ [row]) = Inr (Some h)"
    and "record_to_event E row = norm_event E ev"
proof -
  have fid: "event_id f = ev_id ev" by (rule event_to_record_id[OF f])
  have clash: "\<not> event_clash row r" if r: "(k, r) \<in> set (ag_event d)" "k \<noteq> event_key E sc rid (ev_id ev)" for k r
  proof
    assume cl: "event_clash row r"
    then have "in_run sc rid r" by (auto simp: event_clash_def row in_run_def)
    then have "r \<in> set (run_events sc rid d)" using r(1) by (auto simp: run_events_set)
    then have "seq r < n" using verify_rows_in_run[OF ver] n by auto
    with cl have "event_id r = ev_id ev" by (simp add: event_clash_def row fid)
    then show False using tables_okD(4)[OF ok r(1)] r(2) \<open>in_run sc rid r\<close> by (simp add: in_run_def)
  qed
  then show "creatable event_clash (event_key E sc rid (ev_id ev)) row (ag_event d)"
    using new by (auto simp: creatable_def room_for_def list_all_iff)
  show "run_events sc rid (appended E run row d) = run_events sc rid d @ [row]"
  proof (subst run_events_appended)
    show "map_of (ag_event d) (event_key E (event_scope row) (event_run row) (event_id row)) = None"
      using new by (simp add: row fid)
    show "seq r \<le> seq row" if "r \<in> set (run_events sc rid d)" for r
      using verify_rows_in_run[OF ver that] n by (simp add: row)
  qed (simp add: sc)
  have lib': "float_text_ok (float_text E)" using lib by (simp add: lib_ok_def)
  obtain e' where e': "record_to_event E f = Inr e'"
    using stored_event_same[OF lib f] by blast
  have "event_hash E sc rid n e' p = Inr h"
    using stored_event_hash(1)[OF lib ev f e'] h by simp
  then show "verify_rows E sc rid 0 None (run_events sc rid d @ [row]) = Inr (Some h)"
    using verify_rows_snoc[OF ver sc, of e'] e' n by (simp add: row event_content_decodes[OF f])
  show "record_to_event E row = norm_event E ev"
    using event_codec.decode_encode[OF lib' f] by (simp add: row event_content_decodes[OF f])
qed

lemma append_extends_aux:
  assumes calm: "calm E" and lib: "lib_ok E" and att: "attached E s" and hooks: "no_hooks s"
    and ev: "event_ok E ev" and f: "event_to_record E ev = Inr f"
    and new: "map_of (ag_event (db s)) (event_key E (es_scope s) (es_run s) (ev_id ev)) = None"
  shows "\<exists>s' row. append_event E ev s = (Inr (), s')
     \<and> run_events (es_scope s) (es_run s) (db s') = run_events (es_scope s) (es_run s) (db s) @ [row]
     \<and> record_to_event E row = norm_event E ev
     \<and> (\<forall>sc rid. (sc, rid) \<noteq> (es_scope s, es_run s) \<longrightarrow> run_events sc rid (db s') = run_events sc rid (db s))
     \<and> es_scope s' = es_scope s \<and> es_run s' = es_run s \<and> attached E s'"
proof -
  let ?sc = "es_scope s" and ?rid = "es_run s" and ?d = "db s"
  obtain run where run: "map_of (ag_run ?d) (run_key E ?sc ?rid) = Some run" "run_in_scope ?sc ?rid run"
    "\<not> head_moved s run" "next_seq run = int (length (run_events ?sc ?rid ?d))"
    "verify_rows E ?sc ?rid 0 None (run_events ?sc ?rid ?d) = Inr (head_hash run)"
    using attachedE[OF att] by blast
  have ok: "tables_ok E ?d" and open_s: "\<not> es_closed s" "\<not> link_closed s" "session_open s"
    using att by (simp_all add: attached_def)
  obtain e' where e': "record_to_event E f = Inr e'"
    using stored_event_same[OF lib f] by blast
  obtain h where h: "event_hash E ?sc ?rid (next_seq run) ev (head_hash run) = Inr h"
    using stored_event_hash(2)[OF lib ev f e'] by blast
  define row where row: "row = event_content f ?sc ?rid (next_seq run) (head_hash run) h"
  have inr: "in_run ?sc ?rid row" by (simp add: row in_run_def)
  note fits = next_row_fits[OF lib ev f ok inr run(4,5) h row new]
  obtain n where app: "append_event E ev s = (Inr (), s\<lparr>tick := n, db := appended E run row ?d,
      transaction := None, expected_next_seq := next_seq run + 1, expected_head_hash := Some h\<rparr>)"
    using append_calm[OF calm open_s hooks f run(1-3) new h row fits(1)] by blast
  let ?s' = "s\<lparr>tick := n, db := appended E run row ?d,
      transaction := None, expected_next_seq := next_seq run + 1, expected_head_hash := Some h\<rparr>"
  have keys: "event_scope row = ?sc" "event_run row = ?rid" "event_id row = ev_id ev" "hash row = h"
    by (simp_all add: row event_to_record_id[OF f])
  have head: "map_of (ag_run (appended E run row ?d)) (run_key E ?sc ?rid) =
      Some (run\<lparr>next_seq := next_seq run + 1, head_hash := Some h\<rparr>)"
    by (simp add: appended_def keys)
  have "tables_ok E (appended E run row ?d)"
    using tables_ok_appended[OF ok, of row run] run(1,2) fits(1) by (simp add: keys)
  moreover have "intact E ?sc ?rid (appended E run row ?d)"
    using run(2,4) fits(2,3) by (simp add: intact_def head run_in_scope_def del: verify_rows.simps)
  ultimately have "attached E ?s'"
    using open_s by (simp add: attached_def head)
  moreover have "run_events sc rid (appended E run row ?d) = run_events sc rid ?d"
    if "(sc, rid) \<noteq> (?sc, ?rid)" for sc rid
  proof -
    have "\<not> in_run sc rid row" using that by (auto simp: in_run_def keys)
    then show ?thesis using new by (subst run_events_appended) (simp_all add: keys)
  qed
  ultimately show ?thesis
    using app fits(2,4) by (intro exI[of _ ?s'] exI[of _ row]) simp
qed

lemma append_stale_aux:
  assumes "calm E" and "\<not> es_closed s" "\<not> link_closed s" "session_open s"
    and "event_to_record E ev = Inr f"
    and "map_of (ag_run (db s)) (run_key E (es_scope s) (es_run s)) = Some run"
    and "run_in_scope (es_scope s) (es_run s) run" and "head_moved s run"
  shows "\<exists>n. append_event E ev s = (Inl (ConcurrentWriterError
     (''run '' @ py_repr (es_run s) @ '' changed after this handle observed its head'')),
     s\<lparr>tick := n, transaction := None\<rparr>)"
proof -
  have hm: "head_moved (s\<lparr>tick := n, transaction := y\<rparr>) run" for n y
    using assms(8) by (simp add: head_moved_def)
  have "\<exists>t. append_event E ev s = (Inl (ConcurrentWriterError
     (''run '' @ py_repr (es_run s) @ '' changed after this handle observed its head'')), t)
     \<and> (\<exists>n. t = s\<lparr>tick := n, transaction := None\<rparr>)"
    apply (rule wp_exact_error)
    using assms(2-7) hm
    apply (simp add: append_event_def append_in_transaction_def transaction_run_row_def wp_rules wp_calm[OF assms(1)]
      select_defs rethrow_write_error_def is_concurrent_def)
    by blast
  then show ?thesis by blast
qed

lemma append_duplicate_aux:
  assumes "calm E" and "\<not> es_closed s" "\<not> link_closed s" "session_open s" "no_hooks s"
    and "event_to_record E ev = Inr f"
    and "map_of (ag_run (db s)) (run_key E (es_scope s) (es_run s)) = Some run"
    and "run_in_scope (es_scope s) (es_run s) run" and "\<not> head_moved s run"
    and "map_of (ag_event (db s)) (event_key E (es_scope s) (es_run s) (ev_id ev)) = Some old"
  shows "\<exists>n. append_event E ev s = (Inl (DuplicateEventError
     (''event '' @ py_repr (ev_id ev) @ '' already exists in run '' @ py_repr (es_run s))),
     s\<lparr>tick := n, transaction := None\<rparr>)"
proof -
  have hm: "\<not> head_moved (s\<lparr>tick := n, transaction := y\<rparr>) run" for n y
    using assms(9) by (simp add: head_moved_def)
  have "\<exists>t. append_event E ev s = (Inl (DuplicateEventError
     (''event '' @ py_repr (ev_id ev) @ '' already exists in run '' @ py_repr (es_run s))), t)
     \<and> (\<exists>n. t = s\<lparr>tick := n, transaction := None\<rparr>)"
    apply (rule wp_exact_error)
    using assms(2-8,10) hm
    apply (simp add: append_event_def append_in_transaction_def transaction_run_row_def wp_rules wp_calm[OF assms(1)]
      select_defs rethrow_write_error_def is_duplicate_def no_hooks_def)
    by blast
  then show ?thesis by blast
qed

end
