(* ===== verification/Truncation.thy ===== *)
theory Truncation
  imports Ledger
begin

text \<open>
  \<open>truncate_after\<close>: the transaction it commits, that it keeps exactly the prefix up to the given
  event, and that a failure leaves the log whole or truncated, nothing in between.
\<close>

section \<open>The transaction\<close>

definition beyond :: "string \<Rightarrow> string \<Rightarrow> int \<Rightarrow> event_row \<Rightarrow> bool" where
  "beyond sc rid n r \<longleftrightarrow> in_run sc rid r \<and> seq r > n"

definition truncated ::
  "('x, 'z) env_scheme \<Rightarrow> string \<Rightarrow> string \<Rightarrow> run_row \<Rightarrow> event_row \<Rightarrow> tables \<Rightarrow> tables" where
  "truncated E sc rid run kept d = d\<lparr>
     ag_event := delete_where (beyond sc rid (seq kept)) (ag_event d),
     ag_run := AList.update (run_key E sc rid)
       (run\<lparr>next_seq := seq kept + 1, head_hash := Some (hash kept)\<rparr>) (ag_run d)\<rparr>"

definition truncate_txn ::
  "('x, 'z) env_scheme \<Rightarrow> 's event_store_scheme \<Rightarrow> string \<Rightarrow> run_row \<Rightarrow> event_row \<Rightarrow> snapshot_txn \<Rightarrow> bool" where
  "truncate_txn E s i run kept t \<longleftrightarrow>
     map_of (ag_run (base t)) (run_key E (es_scope s) (es_run s)) = Some run
     \<and> run_in_scope (es_scope s) (es_run s) run \<and> \<not> head_moved s run
     \<and> map_of (ag_event (base t)) (event_key E (es_scope s) (es_run s) i) = Some kept
     \<and> in_run (es_scope s) (es_run s) kept
     \<and> work t = truncated E (es_scope s) (es_run s) run kept (base t)
     \<and> written t = nothing\<lparr>t_run := [run_key E (es_scope s) (es_run s)],
         t_event := keys_where (beyond (es_scope s) (es_run s) (seq kept)) (ag_event (base t))\<rparr>"

lemma delete_events_Done:
  "delete_events_after sc rid n e d = Done x d' w \<longleftrightarrow>
     d' = d\<lparr>ag_event := delete_where (beyond sc rid n) (ag_event d)\<rparr>
     \<and> w = nothing\<lparr>t_event := keys_where (beyond sc rid n) (ag_event d)\<rparr>"
  by (auto simp: delete_events_after_def beyond_def[abs_def] Let_def)

lemma install_deleted:
  assumes "\<And>k. k \<in> set ks \<Longrightarrow> map_of w k = None"
  shows "install_table ks w c = filter (\<lambda>kr. fst kr \<notin> set ks) c"
  using assms unfolding install_table_def
proof (induction ks arbitrary: c)
  case Nil
  then show ?case by simp
next
  case (Cons k ks)
  then show ?case by (simp add: AList.delete_eq filter_filter conj_commute) (rule filter_cong, auto)
qed

lemma install_delete_where:
  assumes "distinct (map fst t)"
  shows "install_table (keys_where P t) (delete_where P t) t = delete_where P t"
proof -
  have "install_table (keys_where P t) (delete_where P t) t = filter (\<lambda>kr. fst kr \<notin> set (keys_where P t)) t"
    by (rule install_deleted) (use assms in \<open>auto simp: map_of_delete_where in_keys_where\<close>)
  also have "\<dots> = delete_where P t"
    unfolding delete_where_def
    using assms by (intro filter_cong) (auto simp: in_keys_where dest: eq_key_imp_eq_value)
  finally show ?thesis .
qed

lemma install_truncate:
  assumes "truncate_txn E s i run kept t" and "distinct (map fst (ag_event (base t)))"
  shows "install t (base t) = truncated E (es_scope s) (es_run s) run kept (base t)"
  using assms(1) install_delete_where[OF assms(2)]
  by (simp add: install_def truncate_txn_def truncated_def nothing_def) (simp add: install_table_def)

lemma truncate_writes:
  assumes B: "snapshot_since E s0 B"
    and run: "map_of (ag_run B) (run_key E (es_scope s0) (es_run s0)) = Some run"
      "run_in_scope (es_scope s0) (es_run s0) run" "\<not> head_moved s0 run"
      "map_of (ag_event B) (event_key E (es_scope s0) (es_run s0) i) = Some kept" "in_run (es_scope s0) (es_run s0) kept"
    and y: "reach E s0 y" "transaction y = Some \<lparr>base = B, work = B, written = nothing\<rparr>"
    and Q: "\<And>y t. committed E s0 t y \<Longrightarrow> truncate_txn E s0 i run kept t \<Longrightarrow> Q (seq kept, hash kept) y"
    and R: "\<And>e y. reach E s0 y \<Longrightarrow> R e y"
    and R': "\<And>e y t. committed E s0 t y \<Longrightarrow> truncate_txn E s0 i run kept t \<Longrightarrow> R e y"
  shows "wp (bnd (txn_request E (delete_events_after (es_scope s0) (es_run s0) (seq kept))) (\<lambda>_.
      bnd (txn_request E (merge_run (run_key E (es_scope s0) (es_run s0))
        (\<lambda>r. r\<lparr>next_seq := seq kept + 1, head_hash := Some (hash kept)\<rparr>))) (\<lambda>_.
      bnd (commit E) (\<lambda>_. ret (seq kept, hash kept))))) Q R y"
  unfolding wp_bnd wp_ret
proof (rule wp_txn_step[OF y(2,1)])
  let ?rk = "run_key E (es_scope s0) (es_run s0)"
  let ?P = "beyond (es_scope s0) (es_run s0) (seq kept)"
  let ?t = "\<lparr>base = B, work = B, written = nothing\<rparr>"
  let ?u = "\<lparr>base = B, work = truncated E (es_scope s0) (es_run s0) run kept B,
    written = nothing\<lparr>t_run := [?rk], t_event := keys_where ?P (ag_event B)\<rparr>\<rparr>"
  have txn: "truncate_txn E s0 i run kept ?u" using run by (simp add: truncate_txn_def)
  fix x d w
  assume "delete_events_after (es_scope s0) (es_run s0) (seq kept) (refusal E (tick y)) (work ?t) = Done x d w"
  then have d: "d = B\<lparr>ag_event := delete_where ?P (ag_event B)\<rparr>"
    and w: "w = nothing\<lparr>t_event := keys_where ?P (ag_event B)\<rparr>"
    by (simp_all add: delete_events_Done)
  let ?z = "(arrived E y)\<lparr>transaction := Some (?t\<lparr>work := d, written := also_written (written ?t) w\<rparr>)\<rparr>"
  assume z: "reach E s0 ?z"
  show "wp (txn_request E (merge_run ?rk (\<lambda>r. r\<lparr>next_seq := seq kept + 1, head_hash := Some (hash kept)\<rparr>)))
      (\<lambda>_. wp (commit E) (\<lambda>_. Q (seq kept, hash kept)) R) R ?z"
  proof (rule wp_move_head[OF _ z, where B = B and d = d and w = w and run = run])
    fix v
    assume v: "reach E s0 v" "transaction v = Some \<lparr>base = B,
        work = d\<lparr>ag_run := AList.update ?rk (run\<lparr>next_seq := seq kept + 1, head_hash := Some (hash kept)\<rparr>) (ag_run d)\<rparr>,
        written = also_written w (nothing\<lparr>t_run := [?rk]\<rparr>)\<rparr>"
    then have tv: "transaction v = Some ?u" by (simp add: d w also_written_def nothing_def truncated_def)
    show "wp (commit E) (\<lambda>_. Q (seq kept, hash kept)) R v"
      by (rule wp_commit_step[OF tv v(1)]) (use B Q[OF _ txn] R R'[OF _ txn] in auto)
  qed (use run(1) R in \<open>simp_all add: d\<close>)
qed (rule R)

lemma truncate_body:
  assumes s: "reach E s0 s" "transaction s = Some \<lparr>base = B, work = B, written = nothing\<rparr>"
    and B: "snapshot_since E s0 B"
    and Q: "\<And>y t run kept. committed E s0 t y \<Longrightarrow> truncate_txn E s0 i run kept t \<Longrightarrow> Q (seq kept, hash kept) y"
    and R: "\<And>e y. reach E s0 y \<Longrightarrow> R e y"
    and R': "\<And>e y t run kept. committed E s0 t y \<Longrightarrow> truncate_txn E s0 i run kept t \<Longrightarrow> R e y"
  shows "wp (truncate_in_transaction E i) Q R s"
proof -
  note fields = reach_event_store[OF s(1)]
  show ?thesis
    unfolding truncate_in_transaction_def wp_with_self wp_bnd fields
    apply (rule wp_transaction_run_row[OF s(2,1)])
     apply (simp only: wp_assert_expected_head head_moved_reach split: if_split)
     apply (intro conjI impI, erule R)
     apply (rule wp_select_event, assumption, assumption)
      apply (simp only: wp_throw one_only_reply split: option.split)
      apply (intro conjI impI allI, erule R)
      apply (subst wp_bnd, simp only: wp_lift assert_row_scope_def guard_result_def split: sum.split if_split)
      apply (intro conjI impI allI)
         apply (erule R | rule truncate_writes[OF B] | erule (1) Q R' | simp add: head_moved_reach)+
    done
qed

lemma truncate_runs:
  assumes "truncate_after E i s = (r, s')"
  shows "((\<exists>e. r = Inl e) \<and> reach E s s') \<or>
    (\<exists>t run kept. truncate_txn E s i run kept t \<and>
       ((\<exists>e. r = Inl e) \<and> committed E s t s'
        \<or> r = Inr () \<and> (\<exists>y. committed E s t y
            \<and> s' = y\<lparr>expected_next_seq := seq kept + 1, expected_head_hash := Some (hash kept)\<rparr>)))"
proof -
  let ?Q = "\<lambda>x s'. \<exists>t run kept y. truncate_txn E s i run kept t \<and> committed E s t y
       \<and> s' = y\<lparr>expected_next_seq := seq kept + 1, expected_head_hash := Some (hash kept)\<rparr>"
  let ?R = "\<lambda>e s'. reach E s s' \<or> (\<exists>t run kept. truncate_txn E s i run kept t \<and> committed E s t s')"
  have more: "committed E s t z" if "committed E s t y" and "reach E y z" for t y z
    using that unfolding committed_def by (blast intro: reach_trans)
  have rethrow: "wp (rethrow_write_error E c e) Q ?R y" if y: "?R e y"
    for c e y and Q :: "int \<times> string \<Rightarrow> 'a event_store_scheme \<Rightarrow> bool"
  proof -
    obtain e' z where z: "(rethrow_write_error E c e :: (_, exn, int \<times> string) prog) y = (Inl e', z)"
      using throwing_rethrow unfolding throwing_def by (metis surj_pair fst_conv)
    have "reach E y z" by (rule readonlyD[OF readonly_rethrow z])
    with y more have "?R e' z" by (blast intro: reach_trans)
    with z show ?thesis by (simp add: wp_def)
  qed
  have "wp (truncate_after E i) ?Q ?R s"
    unfolding truncate_after_def wp_bnd wp_es_ensure_open
    apply (simp only: if_bool_eq_conj reach_refl simp_thms)
    apply (rule impI, rule wp_begin_step[OF reach_refl])
     apply (simp only: wp_try_except)
     apply (rule truncate_body, assumption, assumption, assumption)
       apply (simp only: prod.case wp_modify)
       apply blast
      apply (rule rethrow, blast)
     apply (rule rethrow, blast)
    by blast
  with assms show ?thesis by (auto simp: wp_def split: sum.splits)
qed

section \<open>The log afterwards\<close>

lemma run_events_truncated:
  "run_events sc rid (truncated E sc rid run kept d) = filter (\<lambda>r. seq r \<le> seq kept) (run_events sc rid d)"
  "(sc', rid') \<noteq> (sc, rid) \<Longrightarrow> run_events sc' rid' (truncated E sc rid run kept d) = run_events sc' rid' d"
proof -
  have ev: "ag_event (truncated E sc rid run kept d) = delete_where (beyond sc rid (seq kept)) (ag_event d)"
    by (simp add: truncated_def)
  have "rows_where (\<lambda>r. in_run sc rid r \<and> \<not> beyond sc rid (seq kept) r) (ag_event d) =
      filter (\<lambda>r. seq r \<le> seq kept) (rows_where (in_run sc rid) (ag_event d))"
    unfolding rows_where_def filter_filter by (rule filter_cong) (auto simp: beyond_def)
  then show "run_events sc rid (truncated E sc rid run kept d) = filter (\<lambda>r. seq r \<le> seq kept) (run_events sc rid d)"
    by (simp add: run_events_def ev filter_sort)
  assume "(sc', rid') \<noteq> (sc, rid)"
  then have "rows_where (\<lambda>r. in_run sc' rid' r \<and> \<not> beyond sc rid (seq kept) r) (ag_event d) =
      rows_where (in_run sc' rid') (ag_event d)"
    unfolding rows_where_def by (intro filter_cong) (auto simp: beyond_def in_run_def)
  then show "run_events sc' rid' (truncated E sc rid run kept d) = run_events sc' rid' d"
    by (simp add: run_events_def ev)
qed

lemma tables_ok_truncated:
  assumes ok: "tables_ok E d"
    and run: "map_of (ag_run d) (run_key E sc rid) = Some run" "run_in_scope sc rid run"
  shows "tables_ok E (truncated E sc rid run kept d)"
proof -
  let ?run = "run\<lparr>next_seq := seq kept + 1, head_hash := Some (hash kept)\<rparr>"
  let ?d = "truncated E sc rid run kept d"
  have events: "set (ag_event ?d) \<subseteq> set (ag_event d)" by (auto simp: truncated_def)
  have runs: "set (ag_run ?d) = {kr \<in> set (ag_run d). fst kr \<noteq> run_key E sc rid} \<union> {(run_key E sc rid, ?run)}"
    using tables_okD(1)[OF ok] by (simp add: truncated_def set_update_alist)
  have old: "(run_key E sc rid, run) \<in> set (ag_run d)" using run(1) by (rule map_of_SomeD)
  have there: "\<exists>(k', q') \<in> set (ag_run ?d). run_scope q' = run_scope q \<and> run_run_id q' = run_run_id q"
    if "(k, q) \<in> set (ag_run d)" for k q
  proof (cases "k = run_key E sc rid")
    case True
    then have "q = run" using that old tables_okD(1)[OF ok] by (metis eq_key_imp_eq_value)
    then show ?thesis unfolding runs by auto
  next
    case False
    with that show ?thesis unfolding runs by force
  qed
  show ?thesis
  proof (rule tables_okI)
    show "distinct (map fst (ag_run ?d))" and "distinct (map fst (ag_event ?d))"
      using tables_okD(1,2)[OF ok] by (simp_all add: truncated_def)
    show "k = run_key E (run_scope q) (run_run_id q)" if "(k, q) \<in> set (ag_run ?d)" for k q
      using that tables_okD(3)[OF ok] run(2) unfolding runs by (auto simp: run_in_scope_def)
    show "k = event_key E (event_scope r) (event_run r) (event_id r)" if "(k, r) \<in> set (ag_event ?d)" for k r
      using that events tables_okD(4)[OF ok] by blast
    show "\<exists>(k', q) \<in> set (ag_run ?d). run_scope q = event_scope r \<and> run_run_id q = event_run r"
      if "(k, r) \<in> set (ag_event ?d)" for k r
    proof -
      have "(k, r) \<in> set (ag_event d)" using that events by blast
      from tables_okD(5)[OF ok this] obtain k' q where
        q: "(k', q) \<in> set (ag_run d)" "run_scope q = event_scope r" "run_run_id q = event_run r"
        by blast
      from there[OF q(1)] show ?thesis unfolding q(2,3) .
    qed
    show "k = k'" if "(k, r) \<in> set (ag_event ?d)" "(k', r') \<in> set (ag_event ?d)" "event_clash r r'" for k r k' r'
      using that events tables_okD(6)[OF ok] by blast
  qed
qed

lemma intact_truncated:
  assumes ok: "tables_ok E d" and run: "map_of (ag_run d) (run_key E sc rid) = Some run" "run_in_scope sc rid run"
    and ver: "verify_rows E sc rid 0 None (run_events sc rid d) = Inr h"
    and kept: "map_of (ag_event d) k = Some kept" "in_run sc rid kept"
  shows "intact E sc rid (truncated E sc rid run kept d)"
    and "run_events sc rid (truncated E sc rid run kept d) = take (nat (seq kept) + 1) (run_events sc rid d)"
    and "nat (seq kept) < length (run_events sc rid d)"
    and "run_events sc rid d ! nat (seq kept) = kept"
proof -
  let ?L = "run_events sc rid d"
  obtain j where j: "j < length ?L" "?L ! j = kept"
    using run_events_at_key[OF kept] by (auto simp: in_set_conv_nth)
  have sk: "seq kept = int j" using verify_rows_nth[OF ver j(1)] j(2) by simp
  show "nat (seq kept) < length ?L" and "?L ! nat (seq kept) = kept" using j sk by simp_all
  show t: "run_events sc rid (truncated E sc rid run kept d) = take (nat (seq kept) + 1) ?L"
    using verify_rows_filter[OF ver, of j] by (simp add: run_events_truncated(1) sk)
  have "verify_rows E sc rid 0 None (take (Suc j) ?L) = Inr (Some (hash kept))"
    using verify_rows_take[OF ver j(1)] j(2) by simp
  moreover have "map_of (ag_run (truncated E sc rid run kept d)) (run_key E sc rid) =
      Some (run\<lparr>next_seq := seq kept + 1, head_hash := Some (hash kept)\<rparr>)"
    by (simp add: truncated_def)
  ultimately show "intact E sc rid (truncated E sc rid run kept d)"
    using run(2) j(1) sk unfolding intact_def t by (simp add: run_in_scope_def)
qed

lemma truncate_calm:
  assumes calm: "calm E" and open_s: "\<not> es_closed s" "\<not> link_closed s" "session_open s"
    and run: "map_of (ag_run (db s)) (run_key E (es_scope s) (es_run s)) = Some run"
      "run_in_scope (es_scope s) (es_run s) run" "\<not> head_moved s run"
    and kept: "map_of (ag_event (db s)) (event_key E (es_scope s) (es_run s) i) = Some kept"
      "in_run (es_scope s) (es_run s) kept"
    and ok: "distinct (map fst (ag_event (db s)))"
  shows "\<exists>n. truncate_after E i s = (Inr (), s\<lparr>tick := n,
      db := truncated E (es_scope s) (es_run s) run kept (db s),
      transaction := None, expected_next_seq := seq kept + 1, expected_head_hash := Some (hash kept)\<rparr>)"
proof -
  have hm: "\<not> head_moved (s\<lparr>tick := n, transaction := y\<rparr>) run" for n y
    using run(3) by (simp add: head_moved_def)
  let ?w = "also_written (nothing\<lparr>t_event := keys_where (beyond (es_scope s) (es_run s) (seq kept)) (ag_event (db s))\<rparr>)
    (nothing\<lparr>t_run := [run_key E (es_scope s) (es_run s)]\<rparr>)"
  have w: "?w = nothing\<lparr>t_run := [run_key E (es_scope s) (es_run s)],
      t_event := keys_where (beyond (es_scope s) (es_run s) (seq kept)) (ag_event (db s))\<rparr>"
    by (simp add: also_written_def nothing_def)
  have inst: "install \<lparr>base = db s, work = truncated E (es_scope s) (es_run s) run kept (db s), written = ?w\<rparr> (db s) =
      truncated E (es_scope s) (es_run s) run kept (db s)"
    unfolding w using install_truncate[of E s i run kept
        "\<lparr>base = db s, work = truncated E (es_scope s) (es_run s) run kept (db s), written = nothing\<lparr>t_run := [run_key E (es_scope s) (es_run s)],
         t_event := keys_where (beyond (es_scope s) (es_run s) (seq kept)) (ag_event (db s))\<rparr>\<rparr>"] run kept ok
    by (simp add: truncate_txn_def)
  have "\<exists>t. truncate_after E i s = (Inr (), t) \<and> (\<exists>n. t = s\<lparr>tick := n, db := truncated E (es_scope s) (es_run s) run kept (db s),
      transaction := None, expected_next_seq := seq kept + 1, expected_head_hash := Some (hash kept)\<rparr>)"
    apply (rule wp_exact)
    using open_s run kept hm inst
    apply (simp add: truncate_after_def truncate_in_transaction_def transaction_run_row_def wp_rules wp_calm[OF calm]
      select_defs merge_run_def assert_row_scope_def delete_events_after_def guard_result_def
      truncated_def beyond_def[abs_def] Let_def)
    by blast
  then show ?thesis by blast
qed

lemma truncate_keeps_prefix_aux:
  assumes calm: "calm E" and att: "attached E s"
    and kept: "map_of (ag_event (db s)) (event_key E (es_scope s) (es_run s) i) = Some kept"
      "in_run (es_scope s) (es_run s) kept"
  shows "\<exists>s'. truncate_after E i s = (Inr (), s')
     \<and> run_events (es_scope s) (es_run s) (db s) ! nat (seq kept) = kept
     \<and> nat (seq kept) < length (run_events (es_scope s) (es_run s) (db s))
     \<and> run_events (es_scope s) (es_run s) (db s') = take (nat (seq kept) + 1) (run_events (es_scope s) (es_run s) (db s))
     \<and> (\<forall>sc rid. (sc, rid) \<noteq> (es_scope s, es_run s) \<longrightarrow> run_events sc rid (db s') = run_events sc rid (db s))
     \<and> es_scope s' = es_scope s \<and> es_run s' = es_run s \<and> attached E s'"
proof -
  obtain run where run: "map_of (ag_run (db s)) (run_key E (es_scope s) (es_run s)) = Some run"
    "run_in_scope (es_scope s) (es_run s) run" "\<not> head_moved s run"
    "verify_rows E (es_scope s) (es_run s) 0 None (run_events (es_scope s) (es_run s) (db s)) = Inr (head_hash run)"
    using attachedE[OF att] by blast
  have ok: "tables_ok E (db s)" and open_s: "\<not> es_closed s" "\<not> link_closed s" "session_open s"
    using att by (simp_all add: attached_def)
  note log = intact_truncated[OF ok run(1,2,4) kept]
  obtain n where tr: "truncate_after E i s = (Inr (), s\<lparr>tick := n,
      db := truncated E (es_scope s) (es_run s) run kept (db s),
      transaction := None, expected_next_seq := seq kept + 1, expected_head_hash := Some (hash kept)\<rparr>)"
    using truncate_calm[OF calm open_s run(1-3) kept tables_okD(2)[OF ok]] by blast
  let ?s' = "s\<lparr>tick := n, db := truncated E (es_scope s) (es_run s) run kept (db s),
      transaction := None, expected_next_seq := seq kept + 1, expected_head_hash := Some (hash kept)\<rparr>"
  have "map_of (ag_run (truncated E (es_scope s) (es_run s) run kept (db s))) (run_key E (es_scope s) (es_run s)) =
      Some (run\<lparr>next_seq := seq kept + 1, head_hash := Some (hash kept)\<rparr>)"
    by (simp add: truncated_def)
  then have "attached E ?s'"
    using open_s tables_ok_truncated[OF ok run(1,2)] log(1) by (simp add: attached_def)
  moreover have "\<forall>sc rid. (sc, rid) \<noteq> (es_scope s, es_run s) \<longrightarrow>
      run_events sc rid (truncated E (es_scope s) (es_run s) run kept (db s)) = run_events sc rid (db s)"
    using run_events_truncated(2) by blast
  ultimately show ?thesis
    using tr log(2-4) by (intro exI[of _ ?s']) simp
qed

lemma truncate_all_or_nothing_aux:
  assumes "quiet E" and "tables_ok E (db s)" and "truncate_after E i s = (r, s')"
  shows "db s' = db s \<and> (\<exists>e. r = Inl e)
     \<or> (\<exists>t run kept. truncate_txn E s i run kept t \<and> base t = db s
          \<and> db s' = truncated E (es_scope s) (es_run s) run kept (db s))"
proof -
  have inst: "base t = db s \<and> db y = truncated E (es_scope s) (es_run s) run kept (db s)"
    if "truncate_txn E s i run kept t" and "committed E s t y" for t run kept y
    using committed_quiet[OF assms(1) that(2)] install_truncate[OF that(1)] tables_okD(2)[OF assms(2)] by simp
  from truncate_runs[OF assms(3)] show ?thesis
  proof (elim disjE exE conjE)
    assume "reach E s s'"
    then show ?thesis if "r = Inl e" for e using that reach_quiet[OF assms(1)] by blast
  next
    fix t run kept e
    assume t: "truncate_txn E s i run kept t" and c: "committed E s t s'"
    show ?thesis using t inst[OF t c] by blast
  next
    fix t run kept y
    assume t: "truncate_txn E s i run kept t" and c: "committed E s t y"
      and s': "s' = y\<lparr>expected_next_seq := seq kept + 1, expected_head_hash := Some (hash kept)\<rparr>"
    have "db s' = db y" by (simp add: s')
    then show ?thesis using t inst[OF t c] by auto
  qed
qed

end
