(* ===== verification/Sample.thy ===== *)
theory Sample
  imports Truncation
begin

text \<open>
  A concrete environment for the witnesses: an injective digest (the text itself), the encoder that
  writes JSON values as they are, and a server that never fails and that no other session uses.
\<close>

definition sample_encode :: "unit pyval \<Rightarrow> exn + string" where
  "sample_encode v =
     and_then (adapt (\<lambda>_. Inl (NonSerializableEventError ''no adapter'')) v) (\<lambda>j. Inr (dumps_raw j))"

definition sample_env :: "unit env" where
  "sample_env =
     \<lparr>sha256 = (\<lambda>s. s), float_text = (\<lambda>t. t), encode_payload = sample_encode,
      outcome = (\<lambda>_. Proceeds), others = (\<lambda>_ d. d), verdict = (\<lambda>_ t d. if same_records (written t) (base t) d then None else Some (Foreign ''QueryError'' ''conflict'')),
      refusal = (\<lambda>_. Foreign ''QueryError'' ''refused''), scan = (\<lambda>_ ks. ks), clock = (\<lambda>_. ''t''),
      listed = False, blocking_websocket = (\<lambda>_. True), reported_version = ''surrealdb-2.1.0'',
      schema_resource = ''DEFINE TABLE IF NOT EXISTS ag_schema SCHEMAFULL;''\<rparr>"

lemma sample_fields [simp]:
  "sha256 sample_env = (\<lambda>s. s)" "float_text sample_env = (\<lambda>t. t)" "encode_payload sample_env = sample_encode"
  "outcome sample_env n = Proceeds" "others sample_env n d = d"
  "verdict sample_env n t d =
     (if same_records (written t) (base t) d then None else Some (Foreign ''QueryError'' ''conflict''))"
  by (simp_all add: sample_env_def)

lemma sample_float_text: "float_text_ok (\<lambda>t. t)"
  by (simp add: float_text_ok_def float_lexeme_def)

lemma sample_lib_ok: "lib_ok sample_env"
proof -
  let ?f = "\<lambda>_::unit. Inl (NonSerializableEventError ''no adapter'') :: exn + json"
  have "json_loads (\<lambda>t. t) (dumps_raw j) = Some j" if "pyval_ok (\<lambda>t. t) v" and "adapt ?f v = Inr j" for v j
    using adapt_ok[of ?f "\<lambda>t. t" v j] that by (intro json_loads_dumps_raw) auto
  then have "encodes_with sample_env ?f"
    by (auto simp: encodes_with_def sample_encode_def split: sum.split)
  then show ?thesis
    using sample_float_text by (auto simp: lib_ok_def)
qed

lemma same_records_refl: "same_records w d d"
  by (simp add: same_records_def list_all_iff)

lemma sample_calm: "calm sample_env"
  by (simp add: calm_def quiet_def fault_free_def commits_unopposed_def same_records_refl)

lemma sample_first_committer_wins: "first_committer_wins sample_env"
  by (simp add: first_committer_wins_def)

definition sample_config :: surreal_config where
  "sample_config =
     \<lparr>endpoint = ''ws://h'', namespace = ''n'', database = ''d'', username = ''u'', password = ''p'',
      capabilities = default_capabilities\<rparr>"

text \<open>A database that holds the empty run \<open>r\<close> of scope \<open>s\<close>, and a handle on it.\<close>

definition sample_tables :: tables where
  "sample_tables = empty_tables\<lparr>ag_run := [(run_key sample_env ''s'' ''r'', new_run_row ''s'' ''r'' ''t'')]\<rparr>"

definition sample_store :: event_store where
  "sample_store =
     \<lparr>db = sample_tables, tick = 0, settings = sample_config, link_closed = False, session_open = True,
      schema_ready = True, transaction = None, es_scope = ''s'', es_run = ''r'', es_closed = False,
      expected_next_seq = 0, expected_head_hash = None, test_after_head_read = None,
      test_before_commit = None\<rparr>"

definition sample_event :: "unit event" where
  "sample_event = \<lparr>ev_id = ''e1'', ev_type = ''note'', ev_payload = PList [PLeaf (SInt 1), PLeaf SNull],
     ev_actor = None, ev_frame_id = None, ev_caused_by = None, ev_timestamp = ''t''\<rparr>"

definition sample_fields :: event_fields where
  "sample_fields = \<lparr>event_id = ''e1'', event_type = ''note'', payload_json = ''[1,null]'',
     actor = None, frame_id = None, caused_by = None, timestamp = ''t''\<rparr>"

lemma sample_event_ok: "event_ok sample_env sample_event"
  by (simp add: event_ok_def sample_event_def)

lemma sample_event_encodes: "event_to_record sample_env sample_event = Inr sample_fields"
  by code_simp

lemma sample_attached: "attached sample_env sample_store"
  by (simp add: attached_def intact_def tables_ok_def sample_store_def sample_tables_def empty_tables_def
      new_run_row_def run_in_scope_def run_events_def rows_where_def)

lemma sample_no_hooks: "no_hooks sample_store"
  by (simp add: no_hooks_def sample_store_def)

lemma sample_fresh: "map_of (ag_event (db sample_store)) k = None"
  by (simp add: sample_store_def sample_tables_def empty_tables_def)

text \<open>The same handle after one append.\<close>

definition sample_store1 :: event_store where
  "sample_store1 = snd (append_event sample_env sample_event sample_store)"

lemma sample_store1:
  "attached sample_env sample_store1" "no_hooks sample_store1"
  "es_scope sample_store1 = ''s''" "es_run sample_store1 = ''r''"
  "\<exists>row. run_events ''s'' ''r'' (db sample_store1) = [row] \<and> event_id row = ''e1''
     \<and> record_to_event sample_env row = norm_event sample_env sample_event"
proof -
  have s: "es_scope sample_store = ''s''" "es_run sample_store = ''r''" "run_events ''s'' ''r'' (db sample_store) = []"
    by (simp_all add: sample_store_def sample_tables_def empty_tables_def run_events_def rows_where_def)
  from append_extends_aux[OF sample_calm sample_lib_ok sample_attached sample_no_hooks sample_event_ok
      sample_event_encodes sample_fresh]
  obtain s' row where s': "append_event sample_env sample_event sample_store = (Inr (), s')"
    and row: "run_events ''s'' ''r'' (db s') = [row]" "record_to_event sample_env row = norm_event sample_env sample_event"
    and att: "attached sample_env s'"
    using s by auto
  have e: "sample_store1 = s'" by (simp add: sample_store1_def s')
  show "attached sample_env sample_store1" using att e by simp
  show "no_hooks sample_store1" "es_scope sample_store1 = ''s''" "es_run sample_store1 = ''r''"
    using append_keeps_fields[OF s'] sample_no_hooks s e by simp_all
  obtain ev where ev: "record_to_event sample_env row = Inr ev"
    using stored_event_same[OF sample_lib_ok sample_event_encodes] row(2) by metis
  then have "ev_id ev = event_id row" by (auto simp: record_to_event_def)
  moreover have "ev_id ev = ''e1''" using ev row(2) by (auto simp: norm_event_def sample_event_def)
  ultimately show "\<exists>row. run_events ''s'' ''r'' (db sample_store1) = [row] \<and> event_id row = ''e1''
     \<and> record_to_event sample_env row = norm_event sample_env sample_event"
    using row e by auto
qed

lemma sample_store1_verified:
  "\<exists>h. verify_rows sample_env ''s'' ''r'' 0 None (run_events ''s'' ''r'' (db sample_store1)) = Inr h"
  by (rule attachedE[OF sample_store1(1), unfolded sample_store1(3,4)], rule exI)

section \<open>The schema resource of the sample\<close>

lemma first_bytes:
  "map hd line_breaks = [CHR 0x0D, CHR 10, CHR 11, CHR 12, CHR 13, CHR 28, CHR 29, CHR 30, CHR 0xC2, CHR 0xE2, CHR 0xE2]"
  "CHR ''D'' \<notin> set (map hd space_texts)" "CHR ''L'' \<notin> set (map hd (map rev space_texts))"
  by (simp_all add: line_breaks_def space_texts_def utf8_def char_of_def bit_0 upt_rec)

lemma sample_statements: "schema_statements (schema_resource sample_env) = [schema_resource sample_env]"
proof -
  let ?t = "''DEFINE TABLE IF NOT EXISTS ag_schema SCHEMAFULL;''"
  have "split_lines_from [] ?t = [?t]" by (subst one_line) (simp_all add: first_bytes)
  moreover have "lstrip_of space_texts (CHR ''D'' # s) = CHR ''D'' # s" for s
    by (rule lstrip_none[OF first_bytes(2)])
  moreover have "rstrip_of space_texts ''DEFINE TABLE IF NOT EXISTS ag_schema SCHEMAFULL'' = ''DEFINE TABLE IF NOT EXISTS ag_schema SCHEMAFULL''"
    "rstrip_of space_texts [] = []"
    using lstrip_none[OF first_bytes(3)] by (simp_all add: rstrip_of_def)
  ultimately have "schema_statements ?t = [?t]"
    by (simp add: schema_statements_def uncommented_def is_comment_def starts_with_def py_strip_def)
  then show ?thesis by (simp add: sample_env_def)
qed

end
