(* ===== verification/LogTheorems.thy ===== *)
theory LogTheorems
  imports Sample
begin

text \<open>
  The properties of the event log: appending, truncating, verifying, under failures and under other
  sessions' commits, each with a witness in the sample environment.
\<close>

section \<open>Appending\<close>

text \<open>
  Property C1. On an intact log that the handle has seen the head of, and with nothing going wrong,
  appending an event that encodes and is new adds exactly one row at the end, which decodes to the
  event, leaves every other run's log as it was, and leaves the handle on an intact log again.
\<close>

theorem append_extends_log:
  assumes "calm E" and "lib_ok E" and "attached E s" and "no_hooks s"
    and "event_ok E ev" and "event_to_record E ev = Inr f"
    and "map_of (ag_event (db s)) (event_key E (es_scope s) (es_run s) (ev_id ev)) = None"
  shows "\<exists>s' row. append_event E ev s = (Inr (), s')
     \<and> run_events (es_scope s) (es_run s) (db s') = run_events (es_scope s) (es_run s) (db s) @ [row]
     \<and> record_to_event E row = norm_event E ev
     \<and> (\<forall>sc rid. (sc, rid) \<noteq> (es_scope s, es_run s) \<longrightarrow> run_events sc rid (db s') = run_events sc rid (db s))
     \<and> es_scope s' = es_scope s \<and> es_run s' = es_run s \<and> attached E s'"
  by (rule append_extends_aux[OF assms])

theorem append_extends_log_witness:
  "\<exists>s' row. append_event sample_env sample_event sample_store = (Inr (), s')
     \<and> run_events ''s'' ''r'' (db s') = [row] \<and> record_to_event sample_env row = norm_event sample_env sample_event
     \<and> attached sample_env s'"
proof -
  have "es_scope sample_store = ''s''" "es_run sample_store = ''r''" "run_events ''s'' ''r'' (db sample_store) = []"
    by (simp_all add: sample_store_def sample_tables_def empty_tables_def run_events_def rows_where_def)
  with append_extends_log[OF sample_calm sample_lib_ok sample_attached sample_no_hooks sample_event_ok
      sample_event_encodes sample_fresh]
  show ?thesis by auto
qed

text \<open>
  Property C10. While no other session writes, whichever requests of \<open>append\<close> fail, before or after
  their effect: either the database is as it was and the call raised, or the whole append is in it,
  the event's row under its key and the run's head moved to it, and the head it extended was the one
  the handle had seen.
\<close>

theorem append_all_or_nothing:
  assumes "quiet E" and "append_event E ev s = (r, s')"
  shows "db s' = db s \<and> (\<exists>e. r = Inl e)
     \<or> (\<exists>run f h. map_of (ag_run (db s)) (run_key E (es_scope s) (es_run s)) = Some run
          \<and> next_seq run = expected_next_seq s \<and> head_hash run = expected_head_hash s
          \<and> map_of (ag_event (db s)) (event_key E (es_scope s) (es_run s) (ev_id ev)) = None
          \<and> event_to_record E ev = Inr f
          \<and> event_hash E (es_scope s) (es_run s) (next_seq run) ev (head_hash run) = Inr h
          \<and> db s' = appended E run
              (event_content f (es_scope s) (es_run s) (next_seq run) (head_hash run) h) (db s))"
  using append_all_or_nothing_aux[OF assms] unfolding append_txn_def by metis

theorem append_all_or_nothing_witness:
  "db (snd (append_event (sample_env\<lparr>outcome := (\<lambda>n. if n = 5 then FailsAfter (TimeoutError ''late'') else Proceeds)\<rparr>)
       sample_event sample_store)) = db sample_store
   \<or> (\<exists>run row. db (snd (append_event (sample_env\<lparr>outcome := (\<lambda>n. if n = 5 then FailsAfter (TimeoutError ''late'') else Proceeds)\<rparr>)
       sample_event sample_store)) = appended sample_env run row (db sample_store))"
proof -
  let ?E = "sample_env\<lparr>outcome := (\<lambda>n. if n = 5 then FailsAfter (TimeoutError ''late'') else Proceeds)\<rparr>"
  have "quiet ?E" by (simp add: quiet_def)
  moreover have "appended ?E = appended sample_env"
    by (simp add: fun_eq_iff appended_def event_key_def run_key_def)
  ultimately show ?thesis
    using append_all_or_nothing[of ?E sample_event sample_store "fst (append_event ?E sample_event sample_store)"
        "snd (append_event ?E sample_event sample_store)"]
    by auto
qed

text \<open>
  Property C8. Whatever other sessions commit and whichever requests fail: if \<open>append\<close> returns and
  the server lets only the first committer of a record win, then the database its commit found (the
  initial one with other sessions' writes) still had the head that the handle had seen and no row
  under the event's key, and the commit added the event to that very database. No update is lost.
\<close>

theorem append_loses_no_update:
  assumes "first_committer_wins E" and "append_event E ev s = (Inr (), s')"
  shows "\<exists>m run f h.
     map_of (ag_run (drift E (tick s) m (db s))) (run_key E (es_scope s) (es_run s)) = Some run
     \<and> next_seq run = expected_next_seq s \<and> head_hash run = expected_head_hash s
     \<and> map_of (ag_event (drift E (tick s) m (db s))) (event_key E (es_scope s) (es_run s) (ev_id ev)) = None
     \<and> event_to_record E ev = Inr f
     \<and> event_hash E (es_scope s) (es_run s) (next_seq run) ev (head_hash run) = Inr h
     \<and> tick s \<le> m \<and> m \<le> tick s'
     \<and> db s' = drift E m (tick s') (appended E run
          (event_content f (es_scope s) (es_run s) (next_seq run) (head_hash run) h) (drift E (tick s) m (db s)))
     \<and> expected_next_seq s' = next_seq run + 1 \<and> expected_head_hash s' = Some h"
proof -
  from append_returns[OF assms] obtain m t run row where m: "tick s \<le> m" "m \<le> tick s'"
    and t: "append_txn E s ev run row t"
    and d: "map_of (ag_run (drift E (tick s) m (db s))) (run_key E (es_scope s) (es_run s)) = Some run"
      "map_of (ag_event (drift E (tick s) m (db s))) (event_key E (es_scope s) (es_run s) (ev_id ev)) = None"
      "db s' = drift E m (tick s') (appended E run row (drift E (tick s) m (db s)))"
      "expected_next_seq s' = next_seq run + 1" "expected_head_hash s' = Some (hash row)"
    by blast
  from t obtain f h where f: "event_to_record E ev = Inr f"
    "event_hash E (es_scope s) (es_run s) (next_seq run) ev (head_hash run) = Inr h"
    "row = event_content f (es_scope s) (es_run s) (next_seq run) (head_hash run) h"
    "next_seq run = expected_next_seq s" "head_hash run = expected_head_hash s"
    by (auto simp: append_txn_def)
  then have "hash row = h" by simp
  with m d f show ?thesis by (intro exI[of _ m] exI[of _ run] exI[of _ f] exI[of _ h]) simp
qed

theorem append_loses_no_update_witness:
  "\<exists>s' m run row. append_event sample_env sample_event sample_store = (Inr (), s')
     \<and> map_of (ag_run (drift sample_env 0 m sample_tables)) (run_key sample_env ''s'' ''r'') = Some run
     \<and> db s' = drift sample_env m (tick s') (appended sample_env run row (drift sample_env 0 m sample_tables))"
proof -
  from append_extends_aux[OF sample_calm sample_lib_ok sample_attached sample_no_hooks sample_event_ok
      sample_event_encodes sample_fresh]
  obtain s' where s': "append_event sample_env sample_event sample_store = (Inr (), s')" by blast
  have "tick sample_store = 0" "db sample_store = sample_tables" "es_scope sample_store = ''s''" "es_run sample_store = ''r''"
    by (simp_all add: sample_store_def)
  with append_loses_no_update[OF sample_first_committer_wins s'] s' show ?thesis by metis
qed

text \<open>
  A handle whose view of the head is out of date cannot append: the call raises
  \<open>ConcurrentWriterError\<close> and changes nothing.
\<close>

theorem append_refuses_stale_head:
  assumes "calm E" and "\<not> es_closed s" "\<not> link_closed s" "session_open s"
    and "event_to_record E ev = Inr f"
    and "map_of (ag_run (db s)) (run_key E (es_scope s) (es_run s)) = Some run"
    and "run_in_scope (es_scope s) (es_run s) run" and "head_moved s run"
  shows "\<exists>n. append_event E ev s = (Inl (ConcurrentWriterError
     (''run '' @ py_repr (es_run s) @ '' changed after this handle observed its head'')),
     s\<lparr>tick := n, transaction := None\<rparr>)"
  by (rule append_stale_aux[OF assms])

theorem append_refuses_stale_head_witness:
  "\<exists>n. append_event sample_env sample_event (sample_store\<lparr>expected_next_seq := 4\<rparr>) =
     (Inl (ConcurrentWriterError (''run '' @ py_repr ''r'' @ '' changed after this handle observed its head'')),
      sample_store\<lparr>expected_next_seq := 4, tick := n, transaction := None\<rparr>)"
  using append_refuses_stale_head[of sample_env "sample_store\<lparr>expected_next_seq := 4\<rparr>" sample_event sample_fields
      "new_run_row ''s'' ''r'' ''t''"] sample_calm sample_event_encodes
  by (simp add: sample_store_def sample_tables_def empty_tables_def head_moved_def new_run_row_def run_in_scope_def)

text \<open>
  Property C22. Appending an event whose id the run already holds raises \<open>DuplicateEventError\<close> and
  changes nothing.
\<close>

theorem append_refuses_duplicate:
  assumes "calm E" and "attached E s" and "no_hooks s" and "event_to_record E ev = Inr f"
    and "row \<in> set (run_events (es_scope s) (es_run s) (db s))" and "event_id row = ev_id ev"
  shows "\<exists>n. append_event E ev s = (Inl (DuplicateEventError
     (''event '' @ py_repr (ev_id ev) @ '' already exists in run '' @ py_repr (es_run s))),
     s\<lparr>tick := n, transaction := None\<rparr>)"
proof -
  obtain run where run: "map_of (ag_run (db s)) (run_key E (es_scope s) (es_run s)) = Some run"
    "run_in_scope (es_scope s) (es_run s) run" "\<not> head_moved s run"
    using attachedE[OF assms(2)] by blast
  have s: "tables_ok E (db s)" "\<not> es_closed s" "\<not> link_closed s" "session_open s"
    using assms(2) by (simp_all add: attached_def)
  have "map_of (ag_event (db s)) (event_key E (es_scope s) (es_run s) (ev_id ev)) = Some row"
    using run_events_by_id[OF s(1) assms(5)] assms(6) by simp
  with append_duplicate_aux[OF assms(1) s(2-4) assms(3,4) run] show ?thesis by blast
qed

theorem append_refuses_duplicate_witness:
  "\<exists>n. append_event sample_env sample_event sample_store1 =
     (Inl (DuplicateEventError (''event '' @ py_repr ''e1'' @ '' already exists in run '' @ py_repr ''r'')),
      sample_store1\<lparr>tick := n, transaction := None\<rparr>)"
proof -
  from sample_store1(5) obtain row where row: "run_events ''s'' ''r'' (db sample_store1) = [row]" "event_id row = ''e1''"
    by blast
  have i: "ev_id sample_event = ''e1''" by (simp add: sample_event_def)
  have "row \<in> set (run_events (es_scope sample_store1) (es_run sample_store1) (db sample_store1))"
    using row(1) by (simp add: sample_store1(3,4))
  from append_refuses_duplicate[OF sample_calm sample_store1(1,2) sample_event_encodes this, unfolded i, OF row(2)]
  show ?thesis by (simp add: sample_store1(3,4))
qed

text \<open>
  What the code does with a run record that is not the handle's own (another scope or
  run under its key): the transaction raises \<open>LedgerIntegrityError\<close>, but its message contains the
  word \<open>transaction\<close>, one of the words by which \<open>_raise_if_concurrent\<close> recognises conflicts, so the
  caller is told of a concurrent writer.
\<close>

theorem append_hides_mis_scoped_run:
  assumes "calm E" and "\<not> es_closed s" "\<not> link_closed s" "session_open s"
    and "event_to_record E ev = Inr f"
    and "map_of (ag_run (db s)) (run_key E (es_scope s) (es_run s)) = Some run"
    and "\<not> run_in_scope (es_scope s) (es_run s) run"
  shows "\<exists>n. append_event E ev s = (Inl (ConcurrentWriterError
     (''run '' @ py_repr (es_run s) @ '' changed during a transactional write'')),
     s\<lparr>tick := n, transaction := None\<rparr>)"
proof -
  have c: "names_conflict (LedgerIntegrityError ''the transactional run record is mis-scoped'')"
    by code_simp
  have "\<exists>t. append_event E ev s = (Inl (ConcurrentWriterError
     (''run '' @ py_repr (es_run s) @ '' changed during a transactional write'')), t)
     \<and> (\<exists>n. t = s\<lparr>tick := n, transaction := None\<rparr>)"
    apply (rule wp_exact_error)
    using assms(2-7) c
    apply (simp add: append_event_def append_in_transaction_def transaction_run_row_def read_run_row_def
      raise_if_concurrent_def wp_rules wp_calm[OF assms(1)] select_defs rethrow_write_error_def
      is_duplicate_def is_concurrent_def)
    by (intro exI[of _ "tick s + 4"]) (simp add: eval_nat_numeral)
  then show ?thesis by blast
qed

theorem append_hides_mis_scoped_run_witness:
  "\<exists>t. append_event sample_env sample_event
       (sample_store\<lparr>db := sample_tables\<lparr>ag_run := [(run_key sample_env ''s'' ''r'', new_run_row ''q'' ''r'' ''t'')]\<rparr>\<rparr>) =
     (Inl (ConcurrentWriterError (''run '' @ py_repr ''r'' @ '' changed during a transactional write'')), t)"
proof -
  let ?s = "sample_store\<lparr>db := sample_tables\<lparr>ag_run := [(run_key sample_env ''s'' ''r'', new_run_row ''q'' ''r'' ''t'')]\<rparr>\<rparr>"
  have "es_scope ?s = ''s''" "es_run ?s = ''r''" "\<not> es_closed ?s" "\<not> link_closed ?s" "session_open ?s"
    "map_of (ag_run (db ?s)) (run_key sample_env ''s'' ''r'') = Some (new_run_row ''q'' ''r'' ''t'')"
    "\<not> run_in_scope ''s'' ''r'' (new_run_row ''q'' ''r'' ''t'')"
    by (simp_all add: sample_store_def new_run_row_def run_in_scope_def)
  then obtain n where "append_event sample_env sample_event ?s =
     (Inl (ConcurrentWriterError (''run '' @ py_repr ''r'' @ '' changed during a transactional write'')),
      ?s\<lparr>tick := n, transaction := None\<rparr>)"
    using append_hides_mis_scoped_run[OF sample_calm, of ?s, OF _ _ _ sample_event_encodes] by auto
  then show ?thesis by (rule exI)
qed

section \<open>Truncating\<close>

lemma attached_verified:
  "attached E s \<Longrightarrow>
     \<exists>h. verify_rows E (es_scope s) (es_run s) 0 None (run_events (es_scope s) (es_run s) (db s)) = Inr h"
  by (erule attachedE) (rule exI)

text \<open>
  Property C19. On an intact log, truncating after an event of it keeps exactly the events up to and
  including that one, touches no other run, and leaves the handle on an intact log.
\<close>

theorem truncate_keeps_prefix:
  assumes "calm E" and "attached E s"
    and "k < length (run_events (es_scope s) (es_run s) (db s))"
    and "event_id (run_events (es_scope s) (es_run s) (db s) ! k) = i"
  shows "\<exists>s'. truncate_after E i s = (Inr (), s')
     \<and> run_events (es_scope s) (es_run s) (db s') = take (k + 1) (run_events (es_scope s) (es_run s) (db s))
     \<and> (\<forall>sc rid. (sc, rid) \<noteq> (es_scope s, es_run s) \<longrightarrow> run_events sc rid (db s') = run_events sc rid (db s))
     \<and> es_scope s' = es_scope s \<and> es_run s' = es_run s \<and> attached E s'"
proof -
  let ?L = "run_events (es_scope s) (es_run s) (db s)"
  obtain h where ver: "verify_rows E (es_scope s) (es_run s) 0 None ?L = Inr h"
    using attached_verified[OF assms(2)] by blast
  have "?L ! k \<in> set ?L" using assms(3) by simp
  moreover have "tables_ok E (db s)" using assms(2) by (simp add: attached_def)
  ultimately have kept: "map_of (ag_event (db s)) (event_key E (es_scope s) (es_run s) i) = Some (?L ! k)"
    using run_events_by_id assms(4) by metis
  have inr: "in_run (es_scope s) (es_run s) (?L ! k)" and k: "nat (seq (?L ! k)) = k"
    using verify_rows_nth[OF ver assms(3)] by simp_all
  have "\<exists>s'. truncate_after E i s = (Inr (), s') \<and> ?L ! nat (seq (?L ! k)) = ?L ! k
     \<and> nat (seq (?L ! k)) < length ?L
     \<and> run_events (es_scope s) (es_run s) (db s') = take (nat (seq (?L ! k)) + 1) ?L
     \<and> (\<forall>sc rid. (sc, rid) \<noteq> (es_scope s, es_run s) \<longrightarrow> run_events sc rid (db s') = run_events sc rid (db s))
     \<and> es_scope s' = es_scope s \<and> es_run s' = es_run s \<and> attached E s'"
    by (rule truncate_keeps_prefix_aux[OF assms(1,2) kept inr])
  then show ?thesis unfolding k by blast
qed

theorem truncate_keeps_prefix_witness:
  "\<exists>s' row. truncate_after sample_env ''e1'' sample_store1 = (Inr (), s')
     \<and> run_events ''s'' ''r'' (db s') = [row] \<and> attached sample_env s'"
proof -
  from sample_store1(5) obtain row where row: "run_events ''s'' ''r'' (db sample_store1) = [row]" "event_id row = ''e1''"
    by blast
  with truncate_keeps_prefix[OF sample_calm sample_store1(1), of 0 "''e1''"]
  show ?thesis by (auto simp: sample_store1(3,4))
qed



section \<open>Verifying\<close>

text \<open>
  Property C7. Two logs that verification accepts and that end in the same head hash hold the same
  events at the same positions, of the same scope and run, unless two of their rows exhibit a
  collision of SHA-256. A rewritten, dropped, reordered or added event changes the head.
\<close>

theorem equal_heads_equal_logs:
  assumes "lib_ok E"
    and "verify_rows E sc rid 0 None rws = Inr h" and "verify_rows E sc' rid' 0 None rws' = Inr h"
  shows "(\<exists>r\<in>set rws. \<exists>r'\<in>set rws'. rows_collide E r r') \<or> list_all2 (same_row E) rws rws'"
  using equal_heads_aux[OF assms] by blast

theorem equal_heads_equal_logs_witness:
  "list_all2 (same_row sample_env) (run_events ''s'' ''r'' (db sample_store1)) (run_events ''s'' ''r'' (db sample_store1))"
proof -
  from sample_store1_verified obtain h where
    ver: "verify_rows sample_env ''s'' ''r'' 0 None (run_events ''s'' ''r'' (db sample_store1)) = Inr h" ..
  have none: "\<not> rows_collide sample_env r r'" for r r'
    by (simp add: rows_collide_def hash_collision_def)
  from equal_heads_equal_logs[OF sample_lib_ok ver ver] show ?thesis
    by (rule disjE) (use none in simp_all)
qed

end
