(* ===== verification/Schema.thy ===== *)
theory Schema
  imports Reach
begin

text \<open>
  \<open>ensure_schema\<close>: which databases it accepts, what it leaves behind, and that it writes nothing
  before it has accepted the version it found.
\<close>

definition define_all :: "string list \<Rightarrow> string list \<Rightarrow> string list" where
  "define_all ts defs = fold (\<lambda>t ds. if t \<in> set ds then ds else ds @ [t]) ts defs"

lemma define_all_simps [simp]:
  "define_all [] ds = ds"
  "define_all (t # ts) ds = define_all ts (if t \<in> set ds then ds else ds @ [t])"
  by (simp_all add: define_all_def)

lemma define_all_set [simp]: "set (define_all ts ds) = set ts \<union> set ds"
  by (induction ts arbitrary: ds) auto

lemma define_all_again: "set ts \<subseteq> set ds \<Longrightarrow> define_all ts ds = ds"
  by (induction ts) auto

definition version_ok :: "schema_row \<Rightarrow> bool" where
  "version_ok row \<longleftrightarrow> (case schema_version_field row of None \<Rightarrow> False
     | Some v \<Rightarrow> MIN_SCHEMA_VERSION \<le> v \<and> v \<le> SCHEMA_VERSION)"

lemma assert_schema_version_ok: "assert_schema_version row = Inr u \<longleftrightarrow> version_ok row"
  by (auto simp: assert_schema_version_def version_ok_def split: option.split)

text \<open>What the first query of \<open>ensure_schema\<close> finds: nothing, or the version record.\<close>

definition found_schema :: "tables \<Rightarrow> schema_row option" where
  "found_schema d = (if table_defined ''ag_schema'' d then ag_schema d else None)"

text \<open>A version record is in a defined table, and the provider's statements define that table.\<close>

definition schema_sane :: "('x, 'z) env_scheme \<Rightarrow> tables \<Rightarrow> bool" where
  "schema_sane E d \<longleftrightarrow> (ag_schema d \<noteq> None \<longrightarrow> table_defined ''ag_schema'' d)
     \<and> list_ex (starts_with ''DEFINE TABLE IF NOT EXISTS ag_schema '') (schema_statements (schema_resource E))"

definition installed :: "('x, 'z) env_scheme \<Rightarrow> string \<Rightarrow> tables \<Rightarrow> tables" where
  "installed E at d = d\<lparr>defined := define_all (schema_statements (schema_resource E)) (defined d),
     ag_schema := Some (case found_schema d of
        None \<Rightarrow> \<lparr>schema_version_field = Some SCHEMA_VERSION, installed_at = at\<rparr>
      | Some row \<Rightarrow> row\<lparr>schema_version_field := Some SCHEMA_VERSION\<rparr>)\<rparr>"

lemma wp_define_all:
  assumes "calm E" and "\<not> link_closed s" and "session_open s"
  shows "wp (for_each (\<lambda>t. query E (define_statement t)) ts) Q R s =
     Q () (s\<lparr>tick := tick s + length ts, db := (db s)\<lparr>defined := define_all ts (defined (db s))\<rparr>\<rparr>)"
  using assms(2,3)
proof (induction ts arbitrary: s)
  case Nil
  then show ?case by (cases s) (simp add: wp_rules)
next
  case (Cons t ts)
  then show ?case
    by (simp add: wp_rules wp_calm[OF assms(1)] define_statement_def Cons.IH)
qed

lemma table_defined_after:
  "list_ex (starts_with ''DEFINE TABLE IF NOT EXISTS ag_schema '') ts \<Longrightarrow>
   table_defined ''ag_schema'' (d\<lparr>defined := define_all ts ds\<rparr>)"
  by (auto simp: table_defined_def list_ex_iff)

lemma table_defined_defined [simp]:
  "table_defined n (d\<lparr>ag_schema := x\<rparr>) = table_defined n d"
  by (simp add: table_defined_def)

lemma ensure_schema_calm:
  assumes calm: "calm E" and s: "\<not> link_closed s" "session_open s" "\<not> schema_ready s"
    and sane: "schema_sane E (db s)"
    and ok: "case found_schema (db s) of None \<Rightarrow> True | Some row \<Rightarrow> version_ok row"
  shows "\<exists>n at. ensure_schema E s = (Inr SCHEMA_VERSION,
     s\<lparr>tick := n, db := installed E at (db s), schema_ready := True\<rparr>)"
proof -
  let ?ts = "schema_statements (schema_resource E)"
  have def_later: "table_defined ''ag_schema'' ((db s)\<lparr>defined := define_all ?ts ds\<rparr>)" for ds
    using sane unfolding schema_sane_def by (intro table_defined_after) blast
  have "\<exists>t. ensure_schema E s = (Inr SCHEMA_VERSION, t) \<and> (\<exists>n at. t =
     s\<lparr>tick := n, db := installed E at (db s), schema_ready := True\<rparr>)"
  proof (rule wp_exact, cases "found_schema (db s)")
    case None
    then have none: "ag_schema (db s) = None" using sane by (auto simp: found_schema_def schema_sane_def split: if_splits)
    show "wp (ensure_schema E) (\<lambda>x t. x = SCHEMA_VERSION \<and> (\<exists>n at. t =
     s\<lparr>tick := n, db := installed E at (db s), schema_ready := True\<rparr>)) (\<lambda>_ _. False) s"
      using s none def_later
      apply (cases "table_defined ''ag_schema'' (db s)")
       apply (simp_all add: ensure_schema_def read_schema_def wp_rules wp_calm[OF calm] select_schema_def
          wp_define_all[OF calm] create_schema_record_def server_now_def create_schema_def is_sdk_not_found_def
          assert_schema_version_def MIN_SCHEMA_VERSION_def SCHEMA_VERSION_def update_schema_version_def reading_def)
      apply (simp_all add: installed_def None SCHEMA_VERSION_def)
       apply (rule exI, rule exI, rule refl)+
      done
  next
    case (Some row)
    then have there: "ag_schema (db s) = Some row" "table_defined ''ag_schema'' (db s)"
      by (auto simp: found_schema_def split: if_splits)
    from ok Some obtain v where v: "schema_version_field row = Some v" "1 \<le> v" "v \<le> 3"
      by (auto simp: version_ok_def MIN_SCHEMA_VERSION_def SCHEMA_VERSION_def split: option.splits)
    have row: "row\<lparr>schema_version_field := Some 3\<rparr> = row" if "v = 3"
      using that v(1) by (cases row) simp
    have final: "\<exists>n at. s\<lparr>tick := m, db := (db s)\<lparr>defined := define_all ?ts (defined (db s)), ag_schema :=
          Some (row\<lparr>schema_version_field := Some 3\<rparr>)\<rparr>, schema_ready := True\<rparr> =
        s\<lparr>tick := n, db := installed E at (db s), schema_ready := True\<rparr>" for m
      by (rule exI[of _ m], rule exI) (simp add: installed_def Some SCHEMA_VERSION_def)
    have same: "(db s)\<lparr>defined := ds, ag_schema := Some row\<rparr> = (db s)\<lparr>defined := ds\<rparr>" for ds
      using there(1) by (cases "db s") simp
    show "wp (ensure_schema E) (\<lambda>x t. x = SCHEMA_VERSION \<and> (\<exists>n at. t =
     s\<lparr>tick := n, db := installed E at (db s), schema_ready := True\<rparr>)) (\<lambda>_ _. False) s"
      using s there def_later v final row same
      apply (cases "v = 3")
       apply (simp_all add: ensure_schema_def read_schema_def wp_rules wp_calm[OF calm] select_schema_def
          wp_define_all[OF calm] assert_schema_version_def MIN_SCHEMA_VERSION_def SCHEMA_VERSION_def
          update_schema_version_def)
      done
  qed
  then show ?thesis by blast
qed

lemma ensure_schema_rejects:
  assumes calm: "calm E" and s: "\<not> link_closed s" "session_open s" "\<not> schema_ready s"
    and bad: "found_schema (db s) = Some row" "\<not> version_ok row"
  shows "\<exists>n m. ensure_schema E s = (Inl (LedgerIntegrityError m), s\<lparr>tick := n\<rparr>)"
proof -
  have there: "ag_schema (db s) = Some row" "table_defined ''ag_schema'' (db s)"
    using bad(1) by (auto simp: found_schema_def split: if_splits)
  have "\<exists>m. assert_schema_version row = Inl (LedgerIntegrityError m)"
    using bad(2)
    by (auto simp: assert_schema_version_def version_ok_def SCHEMA_VERSION_def MIN_SCHEMA_VERSION_def split: option.split)
  then obtain m where m: "assert_schema_version row = Inl (LedgerIntegrityError m)" ..
  have "\<exists>t. ensure_schema E s = (Inl (LedgerIntegrityError m), t) \<and> (\<exists>n. t = s\<lparr>tick := n\<rparr>)"
    apply (rule wp_exact_error)
    using s there m
    apply (cases s)
    apply (simp add: ensure_schema_def read_schema_def wp_rules wp_calm[OF calm] select_schema_def)
    done
  then show ?thesis by blast
qed

lemma installed_found:
  assumes "schema_sane E d"
  shows "\<exists>row. found_schema (installed E at d) = Some row \<and> schema_version_field row = Some SCHEMA_VERSION"
    and "schema_sane E (installed E at d)"
proof -
  have t: "table_defined ''ag_schema'' (installed E at d)"
    using assms by (auto simp: table_defined_def installed_def list_ex_iff schema_sane_def)
  then show "\<exists>row. found_schema (installed E at d) = Some row \<and> schema_version_field row = Some SCHEMA_VERSION"
    by (simp add: found_schema_def) (simp add: installed_def split: option.split)
  show "schema_sane E (installed E at d)" using t assms by (simp add: schema_sane_def)
qed

lemma installed_again:
  assumes "schema_sane E d"
  shows "installed E at' (installed E at d) = installed E at d"
proof -
  obtain row where row: "found_schema (installed E at d) = Some row" "schema_version_field row = Some SCHEMA_VERSION"
    using installed_found(1)[OF assms] by blast
  then have "ag_schema (installed E at d) = Some row" by (auto simp: found_schema_def split: if_splits)
  moreover have "row\<lparr>schema_version_field := Some SCHEMA_VERSION\<rparr> = row" using row(2) by (cases row) simp
  moreover have "define_all (schema_statements (schema_resource E)) (defined (installed E at d)) = defined (installed E at d)"
    by (rule define_all_again) (simp add: installed_def)
  ultimately show ?thesis
    unfolding installed_def[of E at' "installed E at d"] row(1) by (cases "installed E at d") simp
qed

lemma installed_data [simp]:
  "ag_run (installed E at d) = ag_run d" "ag_event (installed E at d) = ag_event d"
  "ag_projection (installed E at d) = ag_projection d" "ag_vertex (installed E at d) = ag_vertex d"
  "ag_relation (installed E at d) = ag_relation d" "ag_patch (installed E at d) = ag_patch d"
  by (simp_all add: installed_def)

end
