(* ===== verification/Forks.thy ===== *)
theory Forks
  imports Truncation Schema
begin

text \<open>
  \<open>fork_prefix\<close>: the child's rows verify under the child's run id and decode to the prefix, the
  transaction writes them with the child's run record and touches the parent's head without changing
  it, and the new handle is on an intact log.
\<close>

section \<open>The child's rows\<close>

lemma decoded_encodes:
  assumes "lib_ok E" and "record_to_event E r = Inr e"
  obtains f h where "event_to_record E e = Inr f" and "event_hash E sc rid n e p = Inr h"
proof -
  from assms(1) obtain g where g: "encodes_with E g" by (auto simp: lib_ok_def)
  obtain j where j: "ev_payload e = of_json j"
    using assms(2) by (auto simp: record_to_event_def parse_json_def)
  have ok: "event_ok E e"
    using assms record_to_event_ok unfolding lib_ok_def by blast
  then have "canonical_json E (ev_payload e) = Inr (dumps_sorted j)"
    using canonical_json_adapt[OF g, of "ev_payload e" j] by (simp add: event_ok_def j)
  then obtain f where f: "event_to_record E e = Inr f" by (auto simp: event_to_record_def)
  obtain e' where "record_to_event E f = Inr e'" using stored_event_same[OF assms(1) f] by blast
  then obtain h where "event_hash E sc rid n e p = Inr h"
    using stored_event_hash(2)[OF assms(1) ok f] by blast
  with f show thesis by (rule that)
qed

text \<open>Decoding a stored event and storing it again gives the same event.\<close>

lemma decoded_norm:
  assumes "lib_ok E" and "record_to_event E r = Inr e"
  shows "norm_event E e = Inr e \<or> (\<exists>e'. norm_event E e = Inr e' \<and> same_event E e e')"
proof -
  obtain f h where "event_to_record E e = Inr f" "event_hash E '''' '''' 0 e None = Inr h"
    using decoded_encodes[OF assms] by blast
  then show ?thesis using stored_event_same[OF assms(1)] by metis
qed

lemma child_rows_verify:
  assumes lib: "lib_ok E" and "\<And>e. e \<in> set evs \<Longrightarrow> \<exists>r::event_row. record_to_event E r = Inr e"
  shows "\<exists>krs h. child_rows E sc rid n p evs = Inr (krs, h)
     \<and> verify_rows E sc rid n p (map snd krs) = Inr h
     \<and> length krs = length evs
     \<and> map fst krs = map (\<lambda>e. event_key E sc rid (ev_id e)) evs
     \<and> list_all (\<lambda>(k, r). k = event_key E sc rid (event_id r)) krs
     \<and> list_all2 (\<lambda>e r. record_to_event E r = norm_event E e \<and> event_id r = ev_id e) evs (map snd krs)"
  using assms(2)
proof (induction evs arbitrary: n p)
  case Nil
  show ?case by simp
next
  case (Cons e evs)
  obtain r :: event_row where r: "record_to_event E r = Inr e" using Cons.prems by (meson list.set_intros(1))
  obtain f h where f: "event_to_record E e = Inr f" and h: "event_hash E sc rid n e p = Inr h"
    using decoded_encodes[OF lib r] by blast
  obtain krs final where IH: "child_rows E sc rid (n + 1) (Some h) evs = Inr (krs, final)"
    "verify_rows E sc rid (n + 1) (Some h) (map snd krs) = Inr final"
    "length krs = length evs" "map fst krs = map (\<lambda>e. event_key E sc rid (ev_id e)) evs"
    "list_all (\<lambda>(k, r). k = event_key E sc rid (event_id r)) krs"
    "list_all2 (\<lambda>e r. record_to_event E r = norm_event E e \<and> event_id r = ev_id e) evs (map snd krs)"
    using Cons.IH[of "n + 1" "Some h"] Cons.prems by auto
  let ?row = "event_content f sc rid n p h"
  have fr: "float_text_ok (float_text E)" using lib by (simp add: lib_ok_def)
  have dec: "record_to_event E ?row = norm_event E e"
    using event_codec.decode_encode[OF fr f] by (simp add: event_content_decodes[OF f])
  obtain e' where e': "record_to_event E f = Inr e'" "norm_event E e = Inr e'"
    using stored_event_same[OF lib f] by blast
  have ok: "event_ok E e" using record_to_event_ok[OF fr r] .
  have "event_hash E sc rid n e' p = Inr h"
    using stored_event_hash(1)[OF lib ok f e'(1)] h by simp
  then have "verify_rows E sc rid n p (?row # map snd krs) = Inr final"
    using IH(2) dec e'(2) unfolding verify_rows_Cons by (simp add: in_run_def)
  then show ?case
    using IH f h dec by (simp add: event_to_record_id[OF f] del: verify_rows.simps)
qed

section \<open>Creating many rows\<close>

definition add_rows :: "(string \<times> 'r) list \<Rightarrow> 'r table \<Rightarrow> 'r table" where
  "add_rows krs t = fold (\<lambda>(k, r). AList.update k r) krs t"

fun all_creatable :: "(string \<times> event_row) list \<Rightarrow> event_row table \<Rightarrow> bool" where
  "all_creatable [] t = True"
| "all_creatable ((k, r) # krs) t = (creatable event_clash k r t \<and> all_creatable krs (AList.update k r t))"

lemma add_rows_simps [simp]:
  "add_rows [] t = t" "add_rows ((k, r) # krs) t = add_rows krs (AList.update k r t)"
  by (simp_all add: add_rows_def)

lemma map_of_add_rows:
  "distinct (map fst krs) \<Longrightarrow> map_of (add_rows krs t) k = (case map_of krs k of Some r \<Rightarrow> Some r | None \<Rightarrow> map_of t k)"
proof (induction krs arbitrary: t)
  case Nil
  then show ?case by simp
next
  case (Cons a krs)
  obtain k' r where a: "a = (k', r)" by (cases a)
  have "map_of krs k' = None" using Cons.prems a by (simp add: map_of_eq_None_iff)
  with Cons a show ?case by (simp split: option.split)
qed

lemma add_rows_fresh:
  "\<lbrakk>distinct (map fst krs); \<forall>k\<in>set (map fst krs). map_of t k = None\<rbrakk> \<Longrightarrow> add_rows krs t = t @ krs"
proof (induction krs arbitrary: t)
  case Nil
  then show ?case by simp
next
  case (Cons a krs)
  obtain k r where a: "a = (k, r)" by (cases a)
  have "add_rows krs (t @ [(k, r)]) = (t @ [(k, r)]) @ krs"
    using Cons.prems a by (intro Cons.IH) (auto simp: map_add_Some_iff map_of_append split: option.split)
  then show ?case using Cons.prems a by (simp add: map_of_fresh)
qed

lemma install_added:
  assumes "\<And>k r. (k, r) \<in> set krs \<Longrightarrow> map_of w k = Some r"
  shows "install_table (map fst krs) w t = add_rows krs t"
  using assms unfolding install_table_def
proof (induction krs arbitrary: t)
  case Nil
  then show ?case by simp
next
  case (Cons a krs)
  obtain k r where a: "a = (k, r)" by (cases a)
  have w: "map_of w k = Some r" by (rule Cons.prems) (simp add: a)
  have "fold (\<lambda>k c. case map_of w k of None \<Rightarrow> AList.delete k c | Some r \<Rightarrow> AList.update k r c)
      (map fst krs) t' = add_rows krs t'" for t'
    by (rule Cons.IH) (simp add: Cons.prems)
  then show ?case by (simp add: a w)
qed

lemma update_same: "map_of al k = Some v \<Longrightarrow> AList.update k v al = al"
  by (induction al) (auto split: if_splits)

text \<open>Rows of a run that has no rows yet, with different ids and positions, can all be created.\<close>

lemma all_creatable_run:
  assumes "distinct (map fst krs)" and "inj_on seq (snd ` set krs)" and "distinct (map (event_id o snd) krs)"
    and "distinct (map snd krs)"
    and "\<And>k r. (k, r) \<in> set krs \<Longrightarrow> in_run sc rid r"
    and "\<And>k r. (k, r) \<in> set t \<Longrightarrow> \<not> in_run sc rid r"
    and "\<And>k. k \<in> fst ` set krs \<Longrightarrow> map_of t k = None"
  shows "all_creatable krs t"
proof -
  have "all_creatable todo (t @ done)" if "krs = done @ todo" for "done" todo
    using that
  proof (induction todo arbitrary: "done")
    case Nil
    show ?case by simp
  next
    case (Cons a todo)
    obtain k r where a: "a = (k, r)" by (cases a)
    have fresh: "map_of (t @ done) k = None"
      using assms(1,7) Cons.prems a by (auto simp: map_add_def map_of_eq_None_iff split: option.split)
    have ok: "\<not> event_clash r r'" if "(k', r') \<in> set (t @ done)" for k' r'
    proof
      assume cl: "event_clash r r'"
      have inr: "in_run sc rid r" using assms(5) Cons.prems a by auto
      with cl have "in_run sc rid r'" by (auto simp: event_clash_def in_run_def)
      then have mem: "(k', r') \<in> set done" using that assms(6) by auto
      have "event_id r' \<noteq> event_id r" using assms(3) mem Cons.prems a by (force simp: image_iff)
      with cl have "seq r = seq r'" by (simp add: event_clash_def)
      moreover have "r \<in> snd ` set krs" "r' \<in> snd ` set krs" using mem Cons.prems a by force+
      ultimately have "r = r'" using assms(2) by (meson inj_onD)
      then show False using \<open>event_id r' \<noteq> event_id r\<close> by simp
    qed
    then have "creatable event_clash k r (t @ done)"
      using fresh by (auto simp: creatable_def room_for_def list_all_iff)
    moreover have "all_creatable todo (t @ done @ [(k, r)])"
      using Cons.IH[of "done @ [(k, r)]"] Cons.prems a by simp
    ultimately show ?case using fresh a by (simp add: map_of_fresh)
  qed
  from this[of "[]" krs] show ?thesis by simp
qed

lemma create_event_creatable:
  "creatable event_clash k r (ag_event d) \<Longrightarrow> create_event k r e d =
     Done () (d\<lparr>ag_event := AList.update k r (ag_event d)\<rparr>) (nothing\<lparr>t_event := [k]\<rparr>)"
  by (simp add: create_event_def)

lemma wp_create_all:
  assumes "calm E" and "transaction s = Some t" and "all_creatable krs (ag_event (work t))"
  shows "wp (for_each (\<lambda>(k, row). txn_request E (create_event k row)) krs) Q R s =
     Q () (s\<lparr>tick := tick s + length krs, transaction := Some
       (t\<lparr>work := (work t)\<lparr>ag_event := add_rows krs (ag_event (work t))\<rparr>,
          written := (written t)\<lparr>t_event := t_event (written t) @ map fst krs\<rparr>\<rparr>)\<rparr>)"
  using assms(2,3)
proof (induction krs arbitrary: s t)
  case Nil
  have "s\<lparr>tick := tick s, transaction := Some t\<rparr> = s" using Nil(1) by (cases s) simp
  then show ?case by (simp add: wp_rules)
next
  case (Cons a krs)
  obtain k r where a: "a = (k, r)" by (cases a)
  have w: "also_written (written t) (nothing\<lparr>t_event := [k]\<rparr>) = (written t)\<lparr>t_event := t_event (written t) @ [k]\<rparr>"
    by (cases "written t") (simp add: also_written_def nothing_def)
  from Cons.prems a show ?case
    by (simp add: wp_rules wp_calm[OF assms(1)] create_event_creatable Cons.IH w)
qed

end
