(* ===== verification/Opening.thy ===== *)
theory Opening
  imports Forks
begin

text \<open>
  Opening a store: the constructor on a run that exists intact, and on a run that does not exist yet,
  ends with a handle on an intact log; verification and reading of an intact log succeed.
\<close>

lemma run_events_installed [simp]: "run_events sc rid (installed E at d) = run_events sc rid d"
  by (simp add: run_events_def)

lemma tables_ok_installed [simp]: "tables_ok E (installed E' at d) = tables_ok E d"
  by (simp add: tables_ok_def)

lemma intact_installed [simp]: "intact E sc rid (installed E' at d) = intact E sc rid d"
  by (cases "map_of (ag_run d) (run_key E sc rid)") (simp_all add: intact_def)

lemma intactE:
  assumes "intact E sc rid d"
  obtains run where "map_of (ag_run d) (run_key E sc rid) = Some run" "run_in_scope sc rid run"
    "next_seq run = int (length (run_events sc rid d))"
    "verify_rows E sc rid 0 None (run_events sc rid d) = Inr (head_hash run)"
  using assms by (auto simp: intact_def split: option.splits)

lemma wp_read_run_row_calm:
  assumes "calm E" and "\<not> link_closed s" "session_open s"
    and "map_of (ag_run (db s)) (run_key E (es_scope s) (es_run s)) = Some run"
    and "run_in_scope (es_scope s) (es_run s) run"
  shows "wp (read_run_row E) Q R s = Q (Some run) (s\<lparr>tick := Suc (tick s)\<rparr>)"
  using assms(2-5) by (cases s) (simp add: read_run_row_def wp_rules wp_calm[OF assms(1)] select_defs)

lemma wp_verified_calm:
  assumes "calm E" and "\<not> es_closed s" "\<not> link_closed s" "session_open s"
    and run: "map_of (ag_run (db s)) (run_key E (es_scope s) (es_run s)) = Some run"
      "run_in_scope (es_scope s) (es_run s) run"
      "next_seq run = int (length (run_events (es_scope s) (es_run s) (db s)))"
      "verify_rows E (es_scope s) (es_run s) 0 None (run_events (es_scope s) (es_run s) (db s)) = Inr (head_hash run)"
  shows "wp (verified_rows_and_run E) Q R s =
     Q (run_events (es_scope s) (es_run s) (db s), run) (s\<lparr>tick := Suc (Suc (tick s))\<rparr>)"
  using assms(2-)
  by (cases s) (simp add: verified_rows_and_run_def wp_rules wp_calm[OF assms(1)] select_defs
      wp_read_run_row_calm[OF assms(1)] verify_head_def guard_result_def)

lemma wp_connection_init_calm:
  assumes "calm E" and "blocking_websocket E (endpoint (settings s))"
  shows "wp (connection_init E) Q R s = Q () (s\<lparr>tick := tick s + 6, session_open := True\<rparr>)"
  using assms(2) by (simp add: connection_init_def wp_rules wp_calm[OF assms(1)] eval_nat_numeral)

lemma wp_of_Inr: "p s = (Inr x, t) \<Longrightarrow> wp p Q R s = Q x t"
  by (simp add: wp_def)

definition openable :: "('x, 'z) env_scheme \<Rightarrow> surreal_config \<Rightarrow> tables \<Rightarrow> bool" where
  "openable E c d \<longleftrightarrow> blocking_websocket E (endpoint c) \<and> schema_sane E d
     \<and> (case found_schema d of None \<Rightarrow> True | Some row \<Rightarrow> version_ok row)"

lemma new_event_store_existing:
  assumes calm: "calm E" and names: "rid \<noteq> []" "sc \<noteq> []" and o: "openable E c (db s)"
    and ok: "tables_ok E (db s)" and int: "intact E sc rid (db s)"
  shows "\<exists>st n at. new_event_store E c rid sc s = (Inr st, s\<lparr>db := installed E at (db s), tick := n\<rparr>)
     \<and> db st = installed E at (db s) \<and> es_scope st = sc \<and> es_run st = rid \<and> attached E st \<and> no_hooks st"
proof -
  obtain run where run: "map_of (ag_run (db s)) (run_key E sc rid) = Some run" "run_in_scope sc rid run"
    "next_seq run = int (length (run_events sc rid (db s)))"
    "verify_rows E sc rid 0 None (run_events sc rid (db s)) = Inr (head_hash run)"
    using intactE[OF int] by blast
  let ?o = "(fresh_event_store c rid sc s)\<lparr>tick := tick s + 6, session_open := True\<rparr>"
  obtain n at where es: "ensure_schema E ?o = (Inr SCHEMA_VERSION,
      ?o\<lparr>tick := n, db := installed E at (db ?o), schema_ready := True\<rparr>)"
    using ensure_schema_calm[OF calm, of ?o] o by (auto simp: fresh_event_store_def openable_def)
  note es' = es[unfolded fresh_event_store_def, simplified]
  let ?st = "?o\<lparr>tick := n + 3, db := installed E at (db s), schema_ready := True,
      expected_next_seq := next_seq run, expected_head_hash := head_hash run\<rparr>"
  have att: "attached E ?st"
    using run ok int by (simp add: attached_def fresh_event_store_def)
  have "wp (new_event_store E c rid sc) (\<lambda>x t. x = ?st \<and> t = s\<lparr>db := installed E at (db s), tick := n + 3\<rparr>) (\<lambda>_ _. False) s"
    using names o run
    apply (simp add: new_event_store_def wp_rules event_store_init_def wp_connection_init_calm[OF calm]
        openable_def fresh_event_store_def wp_of_Inr[where p = "ensure_schema E", OF es'] ensure_run_def verify_integrity_def
        wp_read_run_row_calm[OF calm] wp_verified_calm[OF calm])
    done
  then have "\<exists>t. new_event_store E c rid sc s = (Inr ?st, t) \<and> t = s\<lparr>db := installed E at (db s), tick := n + 3\<rparr>"
    by (rule wp_exact)
  then show ?thesis using att
    by (intro exI[of _ ?st] exI[of _ "n + 3"] exI[of _ at]) (simp add: fresh_event_store_def no_hooks_def)
qed

text \<open>A run without a record has no events, and its record can be created.\<close>

definition with_new_run :: "('x, 'z) env_scheme \<Rightarrow> run_row \<Rightarrow> tables \<Rightarrow> tables" where
  "with_new_run E run d = d\<lparr>ag_run := AList.update (run_key E (run_scope run) (run_run_id run)) run (ag_run d)\<rparr>"

lemma absent_run:
  assumes ok: "tables_ok E d" and none: "map_of (ag_run d) (run_key E sc rid) = None"
  shows "(k, q) \<in> set (ag_run d) \<Longrightarrow> \<not> (run_scope q = sc \<and> run_run_id q = rid)"
    and "(k', r) \<in> set (ag_event d) \<Longrightarrow> \<not> in_run sc rid r"
    and "run_events sc rid d = []"
proof -
  show a: "\<not> (run_scope q = sc \<and> run_run_id q = rid)" if "(k, q) \<in> set (ag_run d)" for k q
  proof
    assume "run_scope q = sc \<and> run_run_id q = rid"
    then have "k = run_key E sc rid" using tables_okD(3)[OF ok that] by simp
    with that none show False using map_of_Some_iff[OF tables_okD(1)[OF ok]] by force
  qed
  show b: "\<not> in_run sc rid r" if "(k', r) \<in> set (ag_event d)" for k' r
    using tables_okD(5)[OF ok that] a by (auto simp: in_run_def)
  show "run_events sc rid d = []"
  proof (rule ccontr)
    assume "run_events sc rid d \<noteq> []"
    then have "hd (run_events sc rid d) \<in> set (run_events sc rid d)" by simp
    then show False using b unfolding run_events_set by blast
  qed
qed

lemma tables_ok_new_run:
  assumes ok: "tables_ok E d" and none: "map_of (ag_run d) (run_key E (run_scope run) (run_run_id run)) = None"
  shows "tables_ok E (with_new_run E run d)"
    and "creatable run_clash (run_key E (run_scope run) (run_run_id run)) run (ag_run d)"
proof -
  have new: "ag_run (with_new_run E run d) = ag_run d @ [(run_key E (run_scope run) (run_run_id run), run)]"
    "ag_event (with_new_run E run d) = ag_event d"
    using none by (simp_all add: with_new_run_def map_of_fresh)
  show "tables_ok E (with_new_run E run d)"
  proof (rule tables_okI, unfold new)
    show "distinct (map fst (ag_run d @ [(run_key E (run_scope run) (run_run_id run), run)]))"
      using tables_okD(1)[OF ok] none by (auto simp: map_of_eq_None_iff)
    show "\<exists>(k', q) \<in> set (ag_run d @ [(run_key E (run_scope run) (run_run_id run), run)]).
        run_scope q = event_scope r \<and> run_run_id q = event_run r" if "(k, r) \<in> set (ag_event d)" for k r
      using tables_okD(5)[OF ok that] by auto
  qed (use tables_okD[OF ok] in auto)
  show "creatable run_clash (run_key E (run_scope run) (run_run_id run)) run (ag_run d)"
  proof -
    have "\<not> run_clash run q" if "(k, q) \<in> set (ag_run d)" for k q
      using absent_run(1)[OF ok none that] by (auto simp: run_clash_def)
    then show ?thesis using none by (auto simp: creatable_def room_for_def list_all_iff)
  qed
qed

lemma new_event_store_fresh:
  assumes calm: "calm E" and names: "rid \<noteq> []" "sc \<noteq> []" and o: "openable E c (db s)"
    and ok: "tables_ok E (db s)" and none: "map_of (ag_run (db s)) (run_key E sc rid) = None"
  shows "\<exists>st n at at'. new_event_store E c rid sc s =
       (Inr st, s\<lparr>db := with_new_run E (new_run_row sc rid at') (installed E at (db s)), tick := n\<rparr>)
     \<and> db st = with_new_run E (new_run_row sc rid at') (installed E at (db s))
     \<and> es_scope st = sc \<and> es_run st = rid \<and> attached E st \<and> no_hooks st"
proof -
  let ?o = "(fresh_event_store c rid sc s)\<lparr>tick := tick s + 6, session_open := True\<rparr>"
  obtain n at where es: "ensure_schema E ?o = (Inr SCHEMA_VERSION,
      ?o\<lparr>tick := n, db := installed E at (db ?o), schema_ready := True\<rparr>)"
    using ensure_schema_calm[OF calm, of ?o] o by (auto simp: fresh_event_store_def openable_def)
  note es' = es[unfolded fresh_event_store_def, simplified]
  let ?run = "new_run_row sc rid (clock E (Suc n))"
  let ?d = "with_new_run E ?run (installed E at (db s))"
  have rr: "run_scope ?run = sc" "run_run_id ?run = rid" "next_seq ?run = 0" "head_hash ?run = None"
    by (simp_all add: new_run_row_def)
  have none': "map_of (ag_run (installed E at (db s))) (run_key E (run_scope ?run) (run_run_id ?run)) = None"
    using none by (simp add: rr)
  have c: "creatable run_clash (run_key E sc rid) ?run (ag_run (db s))"
    using tables_ok_new_run(2)[OF _ none'] ok by (simp add: rr)
  have ev: "run_events sc rid ?d = []"
    using absent_run(3)[OF ok none] by (simp add: run_events_def with_new_run_def)
  have head: "map_of (ag_run ?d) (run_key E sc rid) = Some ?run" by (simp add: with_new_run_def rr)
  have int: "intact E sc rid ?d" by (simp add: intact_def head ev rr run_in_scope_def)
  let ?st = "?o\<lparr>tick := n + 4, db := ?d, schema_ready := True, expected_next_seq := 0, expected_head_hash := None\<rparr>"
  have att: "attached E ?st"
    using tables_ok_new_run(1)[OF _ none'] ok int head by (simp add: attached_def fresh_event_store_def rr)
  have d: "(installed E at (db s))\<lparr>ag_run := AList.update (run_key E sc rid) ?run (ag_run (db s))\<rparr> = ?d"
    by (simp add: with_new_run_def rr)
  have ev': "run_events sc rid ((installed E at (db s))\<lparr>ag_run := x\<rparr>) = []" for x
    using absent_run(3)[OF ok none] by (simp add: run_events_def)
  have "wp (new_event_store E c rid sc) (\<lambda>x t. x = ?st \<and> t = s\<lparr>db := ?d, tick := n + 4\<rparr>) (\<lambda>_ _. False) s"
    using names o none c d
    apply (simp add: new_event_store_def wp_rules event_store_init_def wp_connection_init_calm[OF calm]
        openable_def fresh_event_store_def wp_of_Inr[where p = "ensure_schema E", OF es'] ensure_run_def
        verify_integrity_def read_run_row_def select_defs wp_calm[OF calm] create_run_def)
    apply (simp add: wp_verified_calm[OF calm] head ev rr run_in_scope_def wp_rules)
    done
  then have "\<exists>t. new_event_store E c rid sc s = (Inr ?st, t) \<and> t = s\<lparr>db := ?d, tick := n + 4\<rparr>"
    by (rule wp_exact)
  then show ?thesis using att
    by (intro exI[of _ ?st] exI[of _ "n + 4"] exI[of _ at] exI[of _ "clock E (Suc n)"])
      (simp add: fresh_event_store_def no_hooks_def)
qed

end
