(* ===== verification/LogReads.thy ===== *)
theory LogReads
  imports Opening Sample
begin

text \<open>
  Reading an intact log: \<open>iter_events\<close> with its two boundaries, \<open>get_event\<close> and \<open>count\<close>.
\<close>

lemma traverse_take_drop:
  assumes "traverse f xs = Inr ys"
  shows "traverse f (take n xs) = Inr (take n ys)" and "traverse f (drop n xs) = Inr (drop n ys)"
proof -
  have "traverse f (take n xs @ drop n xs) = Inr ys" using assms by simp
  then obtain us vs where uv: "traverse f (take n xs) = Inr us" "traverse f (drop n xs) = Inr vs" "ys = us @ vs"
    unfolding traverse_append by auto
  have l: "length us = min (length xs) n" using traverse_Inr_length[OF uv(1)] by simp
  have "us = take n ys \<and> vs = drop n ys"
  proof (cases "n \<le> length xs")
    case True
    then have "length us = n" using l by simp
    then show ?thesis using uv(3) by simp
  next
    case False
    then have "length us = length ys" using l traverse_Inr_length[OF assms] by simp
    then have "vs = []" using uv(3) by simp
    then show ?thesis using uv(3) l False by simp
  qed
  then show "traverse f (take n xs) = Inr (take n ys)" "traverse f (drop n xs) = Inr (drop n ys)" using uv by simp_all
qed

lemma verify_rows_filter_drop:
  assumes "verify_rows E sc rid 0 p rws = Inr h"
  shows "filter (\<lambda>r. \<not> seq r \<le> int c) rws = drop (Suc c) rws"
proof -
  have "filter (\<lambda>r. \<not> seq r \<le> int c) (take (Suc c) rws) = []"
    using verify_rows_nth[OF assms] by (auto simp: filter_empty_conv in_set_conv_nth)
  moreover have "filter (\<lambda>r. \<not> seq r \<le> int c) (drop (Suc c) rws) = drop (Suc c) rws"
    using verify_rows_nth[OF assms] by (intro filter_True) (auto simp: in_set_conv_nth)
  ultimately show ?thesis
    by (metis append_Nil append_take_drop_id filter_append)
qed

lemma run_events_ids:
  assumes "tables_ok E d" and "distinct (run_events sc rid d)"
  shows "distinct (map event_id (run_events sc rid d))"
proof -
  have same: "r = r'" if "r \<in> set (run_events sc rid d)" "r' \<in> set (run_events sc rid d)" "event_id r = event_id r'" for r r'
    using run_events_by_id[OF assms(1) that(1)] run_events_by_id[OF assms(1) that(2)] unfolding that(3) by (metis option.inject)
  from assms(2) show ?thesis unfolding distinct_map by (intro conjI inj_onI) (simp_all add: same)
qed

text \<open>What the boundaries of \<open>iter_events\<close> resolve to on an intact log.\<close>

lemma boundary_at:
  assumes "distinct (map event_id rws)" and "verify_rows E sc rid 0 p rws = Inr h" and "a < length rws"
  shows "boundary_seq rid rws (Some (event_id (rws ! a))) = Inr (Some (int a))"
proof -
  have "distinct (map fst (rev (map (\<lambda>r. (event_id r, seq r)) rws)))"
    using assms(1) by (simp add: rev_map[symmetric] comp_def)
  moreover have "(event_id (rws ! a), seq (rws ! a)) \<in> set (rev (map (\<lambda>r. (event_id r, seq r)) rws))"
    using assms(3) by auto
  ultimately have "map_of (rev (map (\<lambda>r. (event_id r, seq r)) rws)) (event_id (rws ! a)) = Some (seq (rws ! a))"
    by (rule map_of_is_SomeI)
  then show ?thesis using verify_rows_nth[OF assms(2,3)] by (simp add: boundary_seq_def)
qed

lemma boundary_absent:
  "i \<notin> event_id ` set rws \<Longrightarrow> boundary_seq rid rws (Some i) =
     Inl (EventNotFoundError (''event '' @ py_repr i @ '' not found in run '' @ py_repr rid))"
proof -
  assume "i \<notin> event_id ` set rws"
  then have "map_of (rev (map (\<lambda>r. (event_id r, seq r)) rws)) i = None"
    by (auto simp: map_of_eq_None_iff)
  then show ?thesis by (simp add: boundary_seq_def)
qed

text \<open>The rows between two boundaries, each given or not.\<close>

definition window :: "nat option \<Rightarrow> nat option \<Rightarrow> 'a list \<Rightarrow> 'a list" where
  "window a u xs = (case a of None \<Rightarrow> (\<lambda>ys. ys) | Some n \<Rightarrow> drop (Suc n))
     ((case u of None \<Rightarrow> (\<lambda>ys. ys) | Some n \<Rightarrow> take (Suc n)) xs)"

lemma filter_between:
  assumes v: "verify_rows E sc rid 0 None rws = Inr h"
    and "case u of None \<Rightarrow> True | Some n \<Rightarrow> n < length rws"
  shows "filter (between (map_option int a) (map_option int u)) rws = window a u rws"
proof -
  let ?P = "\<lambda>r. case a of None \<Rightarrow> True | Some n \<Rightarrow> \<not> seq r \<le> int n"
  let ?Q = "\<lambda>r. case u of None \<Rightarrow> True | Some n \<Rightarrow> \<not> seq r > int n"
  have b: "between (map_option int a) (map_option int u) = (\<lambda>r. ?Q r \<and> ?P r)"
    by (auto simp: between_def fun_eq_iff split: option.splits)
  have split: "filter (\<lambda>r. ?Q r \<and> ?P r) rws = filter ?P (filter ?Q rws)" by (simp add: conj_commute)
  obtain h' where v': "verify_rows E sc rid 0 None (filter ?Q rws) = Inr h'" "filter ?Q rws = window None u rws"
    using v assms(2) verify_rows_take[OF v] verify_rows_filter[OF v]
    by (cases u) (auto simp: window_def not_less)
  show ?thesis
    unfolding b split using v' verify_rows_filter_drop[OF v'(1)] by (cases a) (auto simp: window_def)
qed

lemma iter_events_reads:
  assumes c: "calm E" and att: "attached E s" and evs: "traverse (record_to_event E) (run_events (es_scope s) (es_run s) (db s)) = Inr evs"
    and at: "case a of None \<Rightarrow> True | Some n \<Rightarrow> n < length evs" "case u of None \<Rightarrow> True | Some n \<Rightarrow> n < length evs"
  shows iter_events_window: "iter_events E (map_option (\<lambda>n. ev_id (evs ! n)) a) (map_option (\<lambda>n. ev_id (evs ! n)) u) s =
    (Inr (window a u evs), s\<lparr>tick := Suc (Suc (tick s))\<rparr>)"
    and iter_events_absent0: "i \<notin> ev_id ` set evs \<Longrightarrow> iter_events E (Some i) until s =
      (Inl (EventNotFoundError (''event '' @ py_repr i @ '' not found in run '' @ py_repr (es_run s))), s\<lparr>tick := Suc (Suc (tick s))\<rparr>)"
proof -
  let ?rws = "run_events (es_scope s) (es_run s) (db s)"
  obtain run where run: "map_of (ag_run (db s)) (run_key E (es_scope s) (es_run s)) = Some run"
    "run_in_scope (es_scope s) (es_run s) run" "next_seq run = int (length ?rws)"
    "verify_rows E (es_scope s) (es_run s) 0 None ?rws = Inr (head_hash run)"
    using attachedE[OF att] by blast
  have o: "\<not> es_closed s" "\<not> link_closed s" "session_open s" "tables_ok E (db s)" using att by (simp_all add: attached_def)
  have len: "length evs = length ?rws" by (rule traverse_Inr_length[OF evs])
  have ids: "ev_id (evs ! n) = event_id (?rws ! n)" if "n < length evs" for n
    by (rule record_to_event_id[OF traverse_Inr_nth[OF evs]]) (use that len in simp)
  have "map ev_id evs = map event_id ?rws" by (rule nth_equalityI) (simp_all add: len ids)
  then have id_set: "ev_id ` set evs = event_id ` set ?rws" by (metis set_map)
  note dist = run_events_ids[OF o(4) verify_rows_distinct(1)[OF run(4)]]
  have bound: "boundary_seq (es_run s) ?rws (map_option (\<lambda>n. ev_id (evs ! n)) b) = Inr (map_option int b)"
    if "case b of None \<Rightarrow> True | Some n \<Rightarrow> n < length evs" for b
    using that boundary_at[OF dist run(4)] ids len by (cases b) (auto simp: boundary_seq_def)
  have win: "filter (between (map_option int a) (map_option int u)) ?rws = window a u ?rws"
    by (rule filter_between[OF run(4)]) (use at(2) len in \<open>auto split: option.splits\<close>)
  have dec: "traverse (record_to_event E) (window a u ?rws) = Inr (window a u evs)"
    using traverse_take_drop[OF evs] traverse_take_drop(2)[OF traverse_take_drop(1)[OF evs]]
    by (cases a; cases u) (simp_all add: window_def evs)
  show "iter_events E (map_option (\<lambda>n. ev_id (evs ! n)) a) (map_option (\<lambda>n. ev_id (evs ! n)) u) s =
    (Inr (window a u evs), s\<lparr>tick := Suc (Suc (tick s))\<rparr>)"
  proof -
    have "\<exists>t. iter_events E (map_option (\<lambda>n. ev_id (evs ! n)) a) (map_option (\<lambda>n. ev_id (evs ! n)) u) s = (Inr (window a u evs), t)
        \<and> t = s\<lparr>tick := Suc (Suc (tick s))\<rparr>"
      by (rule wp_exact) (use at len in \<open>simp add: iter_events_def wp_bnd wp_with_self wp_lift wp_verified_calm[OF c o(1-3) run]
        bound win dec\<close>)
    then show ?thesis by blast
  qed
  show "iter_events E (Some i) until s =
      (Inl (EventNotFoundError (''event '' @ py_repr i @ '' not found in run '' @ py_repr (es_run s))), s\<lparr>tick := Suc (Suc (tick s))\<rparr>)"
    if "i \<notin> ev_id ` set evs"
  proof -
    have "\<exists>t. iter_events E (Some i) until s = (Inl (EventNotFoundError (''event '' @ py_repr i @ '' not found in run '' @ py_repr (es_run s))), t)
        \<and> t = s\<lparr>tick := Suc (Suc (tick s))\<rparr>"
      by (rule wp_exact_error) (use that id_set in \<open>simp add: iter_events_def wp_bnd wp_with_self wp_lift wp_verified_calm[OF c o(1-3) run]
        boundary_absent\<close>)
    then show ?thesis by blast
  qed
qed

lemma get_event_count:
  assumes c: "calm E" and att: "attached E s" and evs: "traverse (record_to_event E) (run_events (es_scope s) (es_run s) (db s)) = Inr evs"
  shows "ev \<in> set evs \<Longrightarrow> get_event E (ev_id ev) s = (Inr (Some ev), s\<lparr>tick := Suc (tick s)\<rparr>)"
    and "count E s = (Inr (int (length evs)), s\<lparr>tick := Suc (tick s)\<rparr>)"
proof -
  let ?rws = "run_events (es_scope s) (es_run s) (db s)"
  have o: "\<not> es_closed s" "\<not> link_closed s" "session_open s" "tables_ok E (db s)" using att by (simp_all add: attached_def)
  show "get_event E (ev_id ev) s = (Inr (Some ev), s\<lparr>tick := Suc (tick s)\<rparr>)" if mem: "ev \<in> set evs"
  proof -
    obtain row where row: "row \<in> set ?rws" "record_to_event E row = Inr ev" using traverse_from[OF evs mem] by blast
    have "map_of (ag_event (db s)) (event_key E (es_scope s) (es_run s) (ev_id ev)) = Some row"
      using run_events_by_id[OF o(4) row(1)] record_to_event_id[OF row(2)] by simp
    moreover have "assert_row_scope (es_scope s) (es_run s) row = Inr ()"
      using row(1) by (simp add: run_events_set in_run_def assert_row_scope_def)
    ultimately have "\<exists>t. get_event E (ev_id ev) s = (Inr (Some ev), t) \<and> t = s\<lparr>tick := Suc (tick s)\<rparr>"
      using o row(2) by (intro wp_exact) (simp add: get_event_def wp_rules wp_reading_calm[OF c] select_event_def)
    then show ?thesis by blast
  qed
  have "length (rows_where (in_run (es_scope s) (es_run s)) (ag_event (db s))) = length evs"
    using traverse_Inr_length[OF evs] by (simp add: run_events_def)
  then have "\<exists>t. count E s = (Inr (int (length evs)), t) \<and> t = s\<lparr>tick := Suc (tick s)\<rparr>"
    using o by (intro wp_exact) (auto simp: count_def wp_rules wp_reading_calm[OF c] count_run_events_def Let_def)
  then show "count E s = (Inr (int (length evs)), s\<lparr>tick := Suc (tick s)\<rparr>)" by blast
qed

text \<open>
  Property C21. Reading an intact log, undisturbed: \<open>iter_events\<close> yields the events of the log in order,
  those after the event \<open>after\<close> and up to and including the event \<open>until\<close>, where each is given; a boundary
  that is not in the log raises \<open>EventNotFoundError\<close>; \<open>get_event\<close> finds every event by its id, and
  \<open>count\<close> is their number. Nothing is written.
\<close>

theorem log_reads:
  assumes "calm E" and "attached E s"
    and "traverse (record_to_event E) (run_events (es_scope s) (es_run s) (db s)) = Inr evs"
    and "n < length evs" and "m < length evs" and "i \<notin> ev_id ` set evs"
  shows "iter_events E None None s = (Inr evs, s\<lparr>tick := tick s + 2\<rparr>)
     \<and> iter_events E (Some (ev_id (evs ! n))) None s = (Inr (drop (Suc n) evs), s\<lparr>tick := tick s + 2\<rparr>)
     \<and> iter_events E None (Some (ev_id (evs ! m))) s = (Inr (take (Suc m) evs), s\<lparr>tick := tick s + 2\<rparr>)
     \<and> iter_events E (Some (ev_id (evs ! n))) (Some (ev_id (evs ! m))) s =
         (Inr (drop (Suc n) (take (Suc m) evs)), s\<lparr>tick := tick s + 2\<rparr>)
     \<and> iter_events E (Some i) until s =
         (Inl (EventNotFoundError (''event '' @ py_repr i @ '' not found in run '' @ py_repr (es_run s))), s\<lparr>tick := tick s + 2\<rparr>)
     \<and> get_event E (ev_id (evs ! n)) s = (Inr (Some (evs ! n)), s\<lparr>tick := tick s + 1\<rparr>)
     \<and> count E s = (Inr (int (length evs)), s\<lparr>tick := tick s + 1\<rparr>)"
  using iter_events_window[OF assms(1-3), of None None] iter_events_window[OF assms(1-3), of "Some n" None]
    iter_events_window[OF assms(1-3), of None "Some m"] iter_events_window[OF assms(1-3), of "Some n" "Some m"]
    iter_events_absent0[OF assms(1-3) _ _ assms(6), of None None] get_event_count[OF assms(1-3)] assms(4,5)
  by (simp add: window_def)

theorem log_reads_witness:
  "\<exists>ev. iter_events sample_env None None sample_store1 = (Inr [ev], sample_store1\<lparr>tick := tick sample_store1 + 2\<rparr>)
     \<and> get_event sample_env ''e1'' sample_store1 = (Inr (Some ev), sample_store1\<lparr>tick := tick sample_store1 + 1\<rparr>)
     \<and> iter_events sample_env (Some ''e1'') None sample_store1 = (Inr [], sample_store1\<lparr>tick := tick sample_store1 + 2\<rparr>)"
proof -
  obtain row where row: "run_events ''s'' ''r'' (db sample_store1) = [row]" "event_id row = ''e1''"
    "record_to_event sample_env row = norm_event sample_env sample_event"
    using sample_store1(5) by blast
  obtain ev where ev: "record_to_event sample_env row = Inr ev"
    using stored_event_same[OF sample_lib_ok sample_event_encodes] row(3) by metis
  have id: "ev_id ev = ''e1''" using record_to_event_id[OF ev] row(2) by simp
  have "traverse (record_to_event sample_env) (run_events (es_scope sample_store1) (es_run sample_store1) (db sample_store1)) = Inr [ev]"
    using row(1) ev by (simp add: sample_store1(3,4))
  from log_reads[OF sample_calm sample_store1(1) this, of 0 0 "''e2''"] show ?thesis by (simp add: id)
qed

end
