(* ===== verification/DataTheorems.thy ===== *)
theory DataTheorems
  imports Sample
begin

text \<open>
  The properties of the data layer: JSON, record keys, row formats and event hashes.
\<close>

text \<open>
  Property C35. Reading canonical JSON back gives the value that was written, up to the order of
  object members; this holds for every value the reader can produce, escapes, numbers and nested
  containers included.
\<close>

theorem json_round_trip:
  assumes "json_ok fr v"
  shows "json_loads fr (dumps_sorted v) = Some (canon v) \<and> dumps_sorted (canon v) = dumps_sorted v"
  using json_loads_dumps_sorted[OF assms] by (simp add: dumps_sorted_canon canon_canon)

theorem json_round_trip_witness:
  "json_loads (\<lambda>t. t) (dumps_sorted (JObj [(''b'', JArr [JLeaf (SInt (-7)), JLeaf SNull]), (''a'', JLeaf (SStr [dquote]))])) =
     Some (JObj [(''a'', JLeaf (SStr [dquote])), (''b'', JArr [JLeaf (SInt (-7)), JLeaf SNull])])"
proof -
  let ?v = "JObj [(''b'', JArr [JLeaf (SInt (-7)), JLeaf SNull]), (''a'', JLeaf (SStr [dquote]))]"
  have "json_ok (\<lambda>t. t) ?v" by simp
  moreover have "canon ?v = JObj [(''a'', JLeaf (SStr [dquote])), (''b'', JArr [JLeaf (SInt (-7)), JLeaf SNull])]"
    by code_simp
  ultimately show ?thesis using json_round_trip by metis
qed

text \<open>
  Property C36. Record keys keep tables, scopes, runs and logical ids apart: two lists of parts that
  yield one key are equal, part by part, however they are cut, or the two digested texts themselves
  are a collision of SHA-256.
\<close>

theorem record_key_separates:
  assumes "record_id sha table ps = record_id sha table' qs"
    and "\<forall>p\<in>set (table # ps). length p < 2 ^ 64" and "\<forall>q\<in>set (table' # qs). length q < 2 ^ 64"
  shows "(table = table' \<and> ps = qs)
     \<or> (concat (map framed (table # ps)) \<noteq> concat (map framed (table' # qs))
         \<and> sha (concat (map framed (table # ps))) = sha (concat (map framed (table' # qs))))"
  using record_key_inj_or_collision[of sha "table # ps" "table' # qs"] assms unfolding record_id_def by blast

theorem record_key_separates_witness:
  "record_id (\<lambda>s. s) ''ag_run'' [''ab'', ''c''] \<noteq> record_id (\<lambda>s. s) ''ag_run'' [''a'', ''bc'']"
proof
  assume "record_id (\<lambda>s. s) ''ag_run'' [''ab'', ''c''] = record_id (\<lambda>s. s) ''ag_run'' [''a'', ''bc'']"
  from record_key_separates[OF this] show False by simp
qed

text \<open>
  Property C32. An event that encodes decodes to the same event: every field as it was and a payload
  with the same canonical JSON, whose hash at any position of any run is the hash of the original.
\<close>

theorem stored_event_round_trip:
  assumes "lib_ok L" and "event_ok L e" and "event_to_record L e = Inr r"
  shows "\<exists>e' h. record_to_event L r = Inr e' \<and> same_event L e e' \<and> norm_event L e = Inr e'
     \<and> event_hash L sc rid n e previous = Inr h \<and> event_hash L sc rid n e' previous = Inr h"
proof -
  obtain e' where e': "record_to_event L r = Inr e'" "norm_event L e = Inr e'" "same_event L e e'"
    using stored_event_same[OF assms(1,3)] by blast
  with stored_event_hash[OF assms e'(1)] show ?thesis by metis
qed

theorem stored_event_round_trip_witness:
  "\<exists>e' h. record_to_event sample_env sample_fields = Inr e' \<and> same_event sample_env sample_event e'
     \<and> event_hash sample_env ''s'' ''r'' 0 e' None = Inr h"
  using stored_event_round_trip[OF sample_lib_ok sample_event_ok sample_event_encodes] by blast

text \<open>
  Property C31. One hash binds one event to one place: two events with the same hash have the same
  scope, run, position, predecessor, fields and canonical payload, or the texts hashed for them differ
  and are a collision of SHA-256.
\<close>

theorem event_hash_binds:
  assumes "lib_ok L" and "event_ok L e" and "event_ok L e'"
    and "event_hash L sc rid n e previous = Inr h" and "event_hash L sc' rid' n' e' previous' = Inr h"
  shows "hash_collision L (sc, rid, n, e, previous) (sc', rid', n', e', previous')
     \<or> (sc = sc' \<and> rid = rid' \<and> n = n' \<and> previous = previous' \<and> same_event L e e')"
  by (rule event_hash_collision[OF assms])

theorem event_hash_binds_witness:
  "event_hash sample_env ''s'' ''r'' 0 sample_event None \<noteq> event_hash sample_env ''s'' ''r'' 1 sample_event None"
proof
  assume eq: "event_hash sample_env ''s'' ''r'' 0 sample_event None = event_hash sample_env ''s'' ''r'' 1 sample_event None"
  obtain h where "event_hash sample_env ''s'' ''r'' 0 sample_event None = Inr h"
    using stored_event_hash(2)[OF sample_lib_ok sample_event_ok sample_event_encodes]
      stored_event_same[OF sample_lib_ok sample_event_encodes] by metis
  with event_hash_binds[OF sample_lib_ok sample_event_ok sample_event_ok, of "''s''" "''r''" 0 None h "''s''" "''r''" 1 None] eq
  show False by (simp add: hash_collision_def)
qed


lemma not_isl_Inr: "\<not> isl r \<Longrightarrow> \<exists>x. r = Inr x"
  by (cases r) auto


end
