(* ===== verification/DecodedTypes.thy ===== *)
theory DecodedTypes
  imports Sample
begin

text \<open>
  The types of decoded values. Rows hold texts that anybody may have written; a decoder that accepts a
  row returns JSON values only, which the encoder in turn accepts, and the row it writes is a fixed point.
\<close>

section \<open>Values of JSON type\<close>

fun plain :: "(string \<Rightarrow> string) \<Rightarrow> 'x pyval \<Rightarrow> bool" where
  "plain fr (PLeaf a) = scalar_ok fr a"
| "plain fr (PExt x) = False"
| "plain fr (PList xs) = list_all (plain fr) xs"
| "plain fr (PDict kvs) = (distinct (map fst kvs) \<and> list_all (\<lambda>kv. plain fr (snd kv)) kvs)"

lemma plain_of_json [simp]: "plain fr (of_json j) = json_ok fr j"
proof (induction j)
  case (JArr xs)
  then show ?case by (auto simp: list_all_iff)
next
  case (JObj kvs)
  then show ?case by (fastforce simp: list_all_iff comp_def snds.simps)
qed simp

lemma plain_pyval_ok: "plain fr v \<Longrightarrow> pyval_ok fr v"
  by (induction v) (auto simp: list_all_iff snds.simps)

lemma plain_json: "plain fr v \<Longrightarrow> \<exists>j. v = of_json j \<and> json_ok fr j"
proof (induction v)
  case (PLeaf a)
  then show ?case by (intro exI[of _ "JLeaf a"]) simp
next
  case (PExt x)
  then show ?case by simp
next
  case (PList xs)
  then have "\<forall>v\<in>set xs. \<exists>j. v = of_json j \<and> json_ok fr j" by (auto simp: list_all_iff)
  then obtain f where f: "\<And>v. v \<in> set xs \<Longrightarrow> v = of_json (f v) \<and> json_ok fr (f v)" by metis
  then have "PList xs = of_json (JArr (map f xs))" by (simp add: map_idI)
  moreover have "json_ok fr (JArr (map f xs))" using f by (auto simp: list_all_iff)
  ultimately show ?case by blast
next
  case (PDict kvs)
  then have "\<forall>kv\<in>set kvs. \<exists>j. snd kv = of_json j \<and> json_ok fr j" by (fastforce simp: list_all_iff snds.simps)
  then obtain f where f: "\<And>kv. kv \<in> set kvs \<Longrightarrow> snd kv = of_json (f kv) \<and> json_ok fr (f kv)" by metis
  let ?j = "JObj (map (\<lambda>kv. (fst kv, f kv)) kvs)"
  have "map (\<lambda>kv. (fst kv, of_json (f kv))) kvs = kvs" using f by (intro map_idI) (metis prod.collapse)
  then have "PDict kvs = of_json ?j" by (simp add: comp_def)
  moreover have "json_ok fr ?j" using f PDict.prems by (auto simp: list_all_iff comp_def)
  ultimately show ?case by blast
qed

lemma plain_iff: "plain fr v \<longleftrightarrow> (\<exists>j. v = of_json j \<and> json_ok fr j)"
  using plain_json by auto

lemma parse_plain: "\<lbrakk>lib_ok L; parse_json L t = Inr v\<rbrakk> \<Longrightarrow> plain (float_text L) v"
  by (auto simp: parse_json_def lib_ok_def dest: json_loads_ok)

text \<open>Such a value encodes, and what it decodes to again encodes to the same text.\<close>

lemma plain_text:
  assumes lib: "lib_ok L" and j: "json_ok (float_text L) j"
  shows "canonical_json L (of_json j) = Inr (dumps_sorted j)"
    and "json_loads (float_text L) (dumps_sorted j) = Some (canon j)"
    and "canonical_json L (of_json (canon j)) = Inr (dumps_sorted j)"
proof -
  obtain f where f: "encodes_with L f" using lib by (auto simp: lib_ok_def)
  show "canonical_json L (of_json j) = Inr (dumps_sorted j)" by (rule canonical_json_adapt[OF f]) (use j in auto)
  show "json_loads (float_text L) (dumps_sorted j) = Some (canon j)" by (rule json_loads_dumps_sorted[OF j])
  have "canonical_json L (of_json (canon j)) = Inr (dumps_sorted (canon j))"
    by (rule canonical_json_adapt[OF f]) (use canon_ok[OF j] in auto)
  then show "canonical_json L (of_json (canon j)) = Inr (dumps_sorted j)" by (simp add: dumps_sorted_canon canon_canon)
qed

section \<open>The contract of a typed row format\<close>

text \<open>
  A \<open>codec\<close> whose values are typed: \<open>read\<close> decodes a stored row, which has more columns than those the
  codec fills. What is read is typed, and a typed value is written as a row that it settles on.
\<close>

locale typed_codec = codec lawful encode decode norm
  for lawful :: bool and encode :: "'a \<Rightarrow> exn + 'r" and decode :: "'r \<Rightarrow> exn + 'a" and norm :: "'a \<Rightarrow> exn + 'a" +
  fixes read :: "'w \<Rightarrow> exn + 'a" and typed :: "'a \<Rightarrow> bool"
  assumes read_typed: "\<lbrakk>lawful; read w = Inr x\<rbrakk> \<Longrightarrow> typed x"
    and settles: "\<lbrakk>lawful; typed x\<rbrakk> \<Longrightarrow> \<exists>r y. encode x = Inr r \<and> norm x = Inr y \<and> typed y \<and> encode y = Inr r"
begin

lemma typed_encodes: "\<lbrakk>lawful; typed x\<rbrakk> \<Longrightarrow> \<exists>r. encode x = Inr r"
  using settles by blast

lemma read_settles:
  "\<lbrakk>lawful; read w = Inr x\<rbrakk> \<Longrightarrow>
   typed x \<and> (\<exists>r y. encode x = Inr r \<and> decode r = Inr y \<and> typed y \<and> encode y = Inr r)"
  using read_typed settles decode_encode by metis

end

definition event_typed :: "('x, 'z) lib_scheme \<Rightarrow> 'x event \<Rightarrow> bool" where
  "event_typed L e \<longleftrightarrow> plain (float_text L) (ev_payload e)"

definition object_typed :: "('x, 'z) lib_scheme \<Rightarrow> 'x object \<Rightarrow> bool" where
  "object_typed L x \<longleftrightarrow> plain (float_text L) (ob_data x) \<and> plain (float_text L) (ob_provenance x)"

definition relation_typed :: "('x, 'z) lib_scheme \<Rightarrow> 'x relation \<Rightarrow> bool" where
  "relation_typed L x \<longleftrightarrow> plain (float_text L) (re_data x) \<and> plain (float_text L) (re_provenance x)"

definition patch_typed :: "('x, 'z) lib_scheme \<Rightarrow> 'x patch \<Rightarrow> bool" where
  "patch_typed L x \<longleftrightarrow> plain (float_text L) (pa_value x) \<and> list_all (plain (float_text L)) (pa_evidence x)
     \<and> plain (float_text L) (pa_provenance x)"

lemma plain_norm:
  assumes "lib_ok L" and "plain (float_text L) v"
  obtains t w where "canonical_json L v = Inr t" and "norm_val L v = Inr w" and "plain (float_text L) w"
    and "canonical_json L w = Inr t"
proof -
  obtain j where j: "v = of_json j" "json_ok (float_text L) j" using plain_json[OF assms(2)] by blast
  show thesis
    using plain_text[OF assms(1) j(2)] that[of "dumps_sorted j" "of_json (canon j)"] canon_ok[OF j(2)]
    by (simp add: j(1) norm_val_of_json[OF assms(1) j(2)])
qed

lemma lib_ok_floats: "lib_ok L \<Longrightarrow> float_text_ok (float_text L)"
  by (simp add: lib_ok_def)

interpretation event_types:
  typed_codec "lib_ok L" "event_to_record L" "record_to_event L" "norm_event L" "record_to_event L" "event_typed L" for L
proof
  show "record_to_event L r = norm_event L x" if "lib_ok L" "event_to_record L x = Inr r" for x r
    using event_codec.decode_encode lib_ok_floats that by blast
  show "event_typed L x" if "lib_ok L" "record_to_event L w = Inr x" for w x
    using that parse_plain[OF that(1)] by (auto simp: record_to_event_def event_typed_def)
  fix x assume lib: "lib_ok L" and "event_typed L x"
  then obtain t w where "canonical_json L (ev_payload x) = Inr t" "norm_val L (ev_payload x) = Inr w"
    "plain (float_text L) w" "canonical_json L w = Inr t"
    using plain_norm[OF lib] unfolding event_typed_def by blast
  then show "\<exists>r y. event_to_record L x = Inr r \<and> norm_event L x = Inr y \<and> event_typed L y \<and> event_to_record L y = Inr r"
    by (simp add: event_to_record_def norm_event_def event_typed_def)
qed

interpretation object_types:
  typed_codec "lib_ok L" "object_to_record L" "object_from_record L" "norm_object L" "object_from_record L" "object_typed L" for L
proof
  show "object_from_record L r = norm_object L x" if "lib_ok L" "object_to_record L x = Inr r" for x r
    using object_codec.decode_encode lib_ok_floats that by blast
  show "object_typed L x" if "lib_ok L" "object_from_record L w = Inr x" for w x
    using that parse_plain[OF that(1)] by (auto simp: object_from_record_def object_typed_def)
  fix x assume lib: "lib_ok L" and t: "object_typed L x"
  obtain d d' where "canonical_json L (ob_data x) = Inr d" "norm_val L (ob_data x) = Inr d'"
    "plain (float_text L) d'" "canonical_json L d' = Inr d"
    using plain_norm[OF lib] t unfolding object_typed_def by blast
  moreover obtain p p' where "canonical_json L (ob_provenance x) = Inr p" "norm_val L (ob_provenance x) = Inr p'"
    "plain (float_text L) p'" "canonical_json L p' = Inr p"
    using plain_norm[OF lib] t unfolding object_typed_def by blast
  ultimately show "\<exists>r y. object_to_record L x = Inr r \<and> norm_object L x = Inr y \<and> object_typed L y \<and> object_to_record L y = Inr r"
    by (simp add: object_to_record_def norm_object_def object_typed_def)
qed

interpretation relation_types:
  typed_codec "lib_ok L" "relation_to_record L" "record_to_relation L" "norm_relation L" "record_to_relation L" "relation_typed L" for L
proof
  show "record_to_relation L r = norm_relation L x" if "lib_ok L" "relation_to_record L x = Inr r" for x r
    using relation_codec.decode_encode lib_ok_floats that by blast
  show "relation_typed L x" if "lib_ok L" "record_to_relation L w = Inr x" for w x
    using that parse_plain[OF that(1)] by (auto simp: record_to_relation_def relation_typed_def)
  fix x assume lib: "lib_ok L" and t: "relation_typed L x"
  obtain d d' where "canonical_json L (re_data x) = Inr d" "norm_val L (re_data x) = Inr d'"
    "plain (float_text L) d'" "canonical_json L d' = Inr d"
    using plain_norm[OF lib] t unfolding relation_typed_def by blast
  moreover obtain p p' where "canonical_json L (re_provenance x) = Inr p" "norm_val L (re_provenance x) = Inr p'"
    "plain (float_text L) p'" "canonical_json L p' = Inr p"
    using plain_norm[OF lib] t unfolding relation_typed_def by blast
  ultimately show "\<exists>r y. relation_to_record L x = Inr r \<and> norm_relation L x = Inr y \<and> relation_typed L y \<and> relation_to_record L y = Inr r"
    by (simp add: relation_to_record_def norm_relation_def relation_typed_def)
qed

text \<open>A patch's evidence is whatever \<open>list\<close> makes of the decoded value.\<close>

lemma json_list_ok: "\<lbrakk>json_list j = Inr js; json_ok fr j\<rbrakk> \<Longrightarrow> list_all (json_ok fr) js"
  by (cases j rule: json_list.cases) (auto simp: list_all_iff)

lemma plain_list:
  assumes "list_all (plain fr) vs"
  obtains js where "vs = map of_json js" and "list_all (json_ok fr) js"
proof -
  have "plain fr (PList vs)" using assms by simp
  then obtain j where "PList vs = of_json j" "json_ok fr j" using plain_json by blast
  then show thesis using that by (cases j) auto
qed

interpretation patch_types:
  typed_codec "lib_ok L" "patch_to_record L" "patch_from_record L" "norm_patch L" "patch_from_record L" "patch_typed L" for L
proof
  show "patch_from_record L r = norm_patch L x" if "lib_ok L" "patch_to_record L x = Inr r" for x r
    using patch_codec.decode_encode lib_ok_floats that by blast
  show "patch_typed L x" if "lib_ok L" "patch_from_record L w = Inr x" for w x
    using that parse_plain[OF that(1)] json_loads_ok[OF lib_ok_floats[OF that(1)]]
    by (auto simp: patch_from_record_def patch_typed_def list.pred_map comp_def dest!: json_list_ok)
  fix x assume lib: "lib_ok L" and t: "patch_typed L x"
  obtain v v' where v: "canonical_json L (pa_value x) = Inr v" "norm_val L (pa_value x) = Inr v'"
    "plain (float_text L) v'" "canonical_json L v' = Inr v"
    using plain_norm[OF lib] t unfolding patch_typed_def by blast
  obtain p p' where p: "canonical_json L (pa_provenance x) = Inr p" "norm_val L (pa_provenance x) = Inr p'"
    "plain (float_text L) p'" "canonical_json L p' = Inr p"
    using plain_norm[OF lib] t unfolding patch_typed_def by blast
  obtain js where js: "pa_evidence x = map of_json js" "list_all (json_ok (float_text L)) js"
    using t plain_list unfolding patch_typed_def by blast
  obtain ej where ej: "adapted L (of_json (JArr js)) = Inr ej" "canon ej = canon (JArr js)"
    using adapted_of_json[OF lib, of "JArr js"] js(2) by auto
  have e: "canonical_json L (PList (map of_json js)) = Inr (dumps_sorted (JArr js))"
    "canonical_json L (PList (map (of_json \<circ> canon) js)) = Inr (dumps_sorted (JArr js))"
    using plain_text(1,3)[OF lib, of "JArr js"] js(2) by simp_all
  have typed: "list_all (plain (float_text L)) (map (of_json \<circ> canon) js)"
    using js(2) by (auto simp: list_all_iff canon_ok)
  show "\<exists>r y. patch_to_record L x = Inr r \<and> norm_patch L x = Inr y \<and> patch_typed L y \<and> patch_to_record L y = Inr r"
    using v p js(1) e ej typed by (simp add: patch_to_record_def norm_patch_def patch_typed_def)
qed


text \<open>
  The witness reads rows that the provider did not write: members out of order, one of them twice, white
  space, and an evidence text that is an object, of which \<open>list\<close> keeps the keys.
\<close>

definition foreign_text :: string where
  "foreign_text = ''{ '' @ [dquote] @ ''b'' @ [dquote] @ '':1, '' @ [dquote] @ ''a'' @ [dquote] @ '':[true] , ''
     @ [dquote] @ ''b'' @ [dquote] @ '': null}''"


end
