(* ===== verification/GraphStore.thy ===== *)
theory GraphStore
  imports Connection
begin

text \<open>
  \<open>graph_store.py\<close>: the projection of one scope and run. An object is the record \<open>graph_store\<close>, its
  connection's fields and its own; each method is a program on it. Objects, and endpoints of relations
  that have no object, share the vertex table; a vertex whose \<open>object_present\<close> is false is a
  placeholder.
\<close>

section \<open>Objects\<close>

record graph_store = link +
  gs_scope :: string
  gs_run :: string
  gs_closed :: bool
  rebuilding_here :: bool

definition vertex_key :: "('x, 'z) env_scheme \<Rightarrow> string \<Rightarrow> string \<Rightarrow> string \<Rightarrow> string" where
  "vertex_key E sc rid i = record_id (sha256 E) ''ag_vertex'' [sc, rid, i]"

definition relation_key :: "('x, 'z) env_scheme \<Rightarrow> string \<Rightarrow> string \<Rightarrow> string \<Rightarrow> string" where
  "relation_key E sc rid i = record_id (sha256 E) ''ag_relation'' [sc, rid, i]"

definition patch_key :: "('x, 'z) env_scheme \<Rightarrow> string \<Rightarrow> string \<Rightarrow> string \<Rightarrow> string" where
  "patch_key E sc rid i = record_id (sha256 E) ''ag_patch'' [sc, rid, i]"

definition projection_key :: "('x, 'z) env_scheme \<Rightarrow> string \<Rightarrow> string \<Rightarrow> string" where
  "projection_key E sc rid = record_id (sha256 E) ''ag_projection'' [sc, rid]"

section \<open>Guards\<close>

definition gs_ensure_open :: "('s graph_store_scheme, exn, unit) prog" where
  "gs_ensure_open = (\<lambda>s. (if gs_closed s
     then Inl (ClosedStoreError ''the SurrealGraphStore is closed'') else Inr (), s))"

text \<open>\<open>_assert_scoped_row\<close>: the row's scope and run, and the logical id found and the one expected.\<close>

definition assert_scoped_row ::
  "string \<Rightarrow> string \<Rightarrow> (string \<times> string) option \<Rightarrow> ('s graph_store_scheme, exn, unit) prog" where
  "assert_scoped_row row_scope row_run logical = (\<lambda>s.
     (if row_scope \<noteq> gs_scope s \<or> row_run \<noteq> gs_run s
      then Inl (SurrealProviderError ''a graph record crossed its scope/run boundary'')
      else case logical of
        None \<Rightarrow> Inr ()
      | Some (found, expected) \<Rightarrow>
          if found \<noteq> expected
          then Inl (SurrealProviderError ''an opaque graph record ID resolved incorrectly'')
          else Inr (), s))"

definition projection_row :: "('x, 'z) env_scheme \<Rightarrow> ('s graph_store_scheme, exn, projection_row option) prog" where
  "projection_row E = with_self (\<lambda>s.
     bnd (query E (select_projection (projection_key E (gs_scope s) (gs_run s)))) (\<lambda>r.
     case one r of
       None \<Rightarrow> ret None
     | Some row \<Rightarrow>
         bnd (assert_scoped_row (projection_scope row) (projection_run row) None) (\<lambda>_. ret (Some row))))"

definition projection_status :: "('x, 'z) env_scheme \<Rightarrow> ('s graph_store_scheme, exn, string) prog" where
  "projection_status E =
     bnd gs_ensure_open (\<lambda>_.
     bnd (projection_row E) (\<lambda>found.
     case found of
       None \<Rightarrow> throw (ProjectionUnavailableError ''projection metadata is incomplete'')
     | Some row \<Rightarrow> ret (status row)))"

definition unavailable :: "string \<Rightarrow> exn" where
  "unavailable st = ProjectionUnavailableError
     (''projection is '' @ st @ ''; current-state data is incomplete'')"

definition assert_readable :: "('x, 'z) env_scheme \<Rightarrow> ('s graph_store_scheme, exn, unit) prog" where
  "assert_readable E =
     bnd gs_ensure_open (\<lambda>_.
     bnd (projection_status E) (\<lambda>st.
     if st = ''ready'' then ret ()
     else bnd (get_state rebuilding_here) (\<lambda>here.
       if st = ''rebuilding'' \<and> here then ret () else throw (unavailable st))))"

definition assert_writable :: "('x, 'z) env_scheme \<Rightarrow> ('s graph_store_scheme, exn, unit) prog" where
  "assert_writable E = assert_readable E"

section \<open>The projection record\<close>

definition projection_content :: "string \<Rightarrow> string \<Rightarrow> string \<Rightarrow> string option \<Rightarrow> string \<Rightarrow> projection_row" where
  "projection_content sc rid st err at =
     \<lparr>projection_scope = sc, projection_run = rid, status = st, error_detail = err, updated_at = at\<rparr>"

definition set_projection_status ::
  "('x, 'z) env_scheme \<Rightarrow> string \<Rightarrow> string option \<Rightarrow> ('s graph_store_scheme, exn, unit) prog" where
  "set_projection_status E st err = with_self (\<lambda>s.
     bnd (now E) (\<lambda>at.
       query E (upsert_projection (projection_key E (gs_scope s) (gs_run s))
         (projection_content (gs_scope s) (gs_run s) st err at))))"

definition ensure_projection_record :: "('x, 'z) env_scheme \<Rightarrow> ('s graph_store_scheme, exn, unit) prog" where
  "ensure_projection_record E =
     bnd (projection_row E) (\<lambda>found.
     if found \<noteq> None then ret ()
     else
       bnd (now E) (\<lambda>at. with_self (\<lambda>s.
       try_except
         (query E (create_projection (projection_key E (gs_scope s) (gs_run s))
           (projection_content (gs_scope s) (gs_run s) ''ready'' None at)))
         (\<lambda>e. bnd (projection_row E) (\<lambda>again. if again = None then throw e else ret ())))))"

section \<open>Construction and closing\<close>

definition fresh_graph_store :: "surreal_config \<Rightarrow> string \<Rightarrow> string \<Rightarrow> 's server_scheme \<Rightarrow> graph_store" where
  "fresh_graph_store c rid sc s =
     \<lparr>db = db s, tick = tick s, settings = c, link_closed = False, session_open = False,
      schema_ready = False, transaction = None, gs_scope = sc, gs_run = rid, gs_closed = False,
      rebuilding_here = False\<rparr>"

definition graph_store_init :: "('x, 'z) env_scheme \<Rightarrow> ('s graph_store_scheme, exn, unit) prog" where
  "graph_store_init E = with_self (\<lambda>s.
     if gs_run s = [] then throw (ValueError ''run_id must be non-empty'')
     else if gs_scope s = [] then throw (ValueError ''scope must be non-empty'')
     else
       bnd (connection_init E) (\<lambda>_.
         try_except
           (bnd (ensure_schema E) (\<lambda>_. ensure_projection_record E))
           (\<lambda>e. bnd (link_close E) (\<lambda>_.
                bnd (modify (\<lambda>s. s\<lparr>gs_closed := True\<rparr>)) (\<lambda>_. throw e)))))"

definition new_graph_store ::
  "('x, 'z) env_scheme \<Rightarrow> surreal_config \<Rightarrow> string \<Rightarrow> string
    \<Rightarrow> ('s server_scheme, exn, graph_store) prog" where
  "new_graph_store E c rid sc = making (fresh_graph_store c rid sc) (graph_store_init E)"

definition gs_close :: "('x, 'z) env_scheme \<Rightarrow> ('s graph_store_scheme, exn, unit) prog" where
  "gs_close E =
     bnd (get_state gs_closed) (\<lambda>closed.
     if closed then ret ()
     else bnd (modify (\<lambda>s. s\<lparr>gs_closed := True\<rparr>)) (\<lambda>_. link_close E))"

definition gs_raw_query :: "('x, 'z) env_scheme \<Rightarrow> 'a stmt \<Rightarrow> ('s graph_store_scheme, exn, 'a) prog" where
  "gs_raw_query E f = bnd gs_ensure_open (\<lambda>_. query E f)"

section \<open>Objects of the projection\<close>

definition object_content :: "object_fields \<Rightarrow> string \<Rightarrow> string \<Rightarrow> int \<Rightarrow> vertex_row" where
  "object_content f sc rid n =
     \<lparr>object_id = object_id f, object_type = object_type f, data_json = data_json f,
      version = version f, provenance_json = provenance_json f,
      vertex_scope = sc, vertex_run = rid, object_present = True, object_seq = n\<rparr>"

definition placeholder_content :: "string \<Rightarrow> string \<Rightarrow> string \<Rightarrow> exn + vertex_row" where
  "placeholder_content sc rid i =
     and_then (object_counter i) (\<lambda>n. Inr
       \<lparr>object_id = i, object_type = None, data_json = None, version = None, provenance_json = None,
        vertex_scope = sc, vertex_run = rid, object_present = False, object_seq = n\<rparr>)"

definition put_object :: "('x, 'z) env_scheme \<Rightarrow> 'x object \<Rightarrow> ('s graph_store_scheme, exn, unit) prog" where
  "put_object E obj =
     bnd (assert_writable E) (\<lambda>_. with_self (\<lambda>s.
     bnd (lift (object_counter (ob_id obj))) (\<lambda>n.
     bnd (lift (object_to_record E obj)) (\<lambda>f.
       query E (upsert_vertex (vertex_key E (gs_scope s) (gs_run s) (ob_id obj))
         (object_content f (gs_scope s) (gs_run s) n))))))"

definition get_object ::
  "('x, 'z) env_scheme \<Rightarrow> string \<Rightarrow> ('s graph_store_scheme, exn, 'x object option) prog" where
  "get_object E i =
     bnd (assert_readable E) (\<lambda>_. with_self (\<lambda>s.
     bnd (query E (select_vertex (listed E) (vertex_key E (gs_scope s) (gs_run s) i))) (\<lambda>r.
     case one r of
       None \<Rightarrow> ret None
     | Some row \<Rightarrow>
         if \<not> object_present row then ret None
         else
           bnd (assert_scoped_row (vertex_scope row) (vertex_run row) (Some (object_id row, i))) (\<lambda>_.
           bnd (lift (object_from_record E row)) (\<lambda>obj. ret (Some obj))))))"

definition remove_object :: "('x, 'z) env_scheme \<Rightarrow> string \<Rightarrow> ('s graph_store_scheme, exn, unit) prog" where
  "remove_object E i =
     bnd (assert_writable E) (\<lambda>_. with_self (\<lambda>s.
     bnd (query E (select_vertex (listed E) (vertex_key E (gs_scope s) (gs_run s) i))) (\<lambda>r.
     case one r of
       None \<Rightarrow> ret ()
     | Some row \<Rightarrow>
         bnd (assert_scoped_row (vertex_scope row) (vertex_run row) (Some (object_id row, i))) (\<lambda>_.
         bnd (lift (placeholder_content (gs_scope s) (gs_run s) i)) (\<lambda>content.
           query E (upsert_vertex (vertex_key E (gs_scope s) (gs_run s) i) content))))))"

text \<open>\<open>scope = $scope AND run_id = $run_id AND object_present = true\<close>\<close>

definition present_in :: "string \<Rightarrow> string \<Rightarrow> vertex_row \<Rightarrow> bool" where
  "present_in sc rid r \<longleftrightarrow> vertex_scope r = sc \<and> vertex_run r = rid \<and> object_present r"

definition objects_of_rows :: "('x, 'z) env_scheme \<Rightarrow> vertex_row list \<Rightarrow> exn + 'x object list" where
  "objects_of_rows E rs = traverse (object_from_record E) rs"

definition all_objects :: "('x, 'z) env_scheme \<Rightarrow> ('s graph_store_scheme, exn, 'x object list) prog" where
  "all_objects E =
     bnd (assert_readable E) (\<lambda>_. with_self (\<lambda>s.
     bnd (query E (select_vertices (present_in (gs_scope s) (gs_run s)) None)) (\<lambda>r.
       lift (objects_of_rows E (rows r)))))"

section \<open>Relations of the projection\<close>

definition ensure_placeholder ::
  "('x, 'z) env_scheme \<Rightarrow> string \<Rightarrow> string \<Rightarrow> ('s graph_store_scheme, exn, unit) prog" where
  "ensure_placeholder E k i = with_self (\<lambda>s.
     bnd (txn_request E (select_vertex (listed E) k)) (\<lambda>r.
     case one r of
       None \<Rightarrow>
         bnd (lift (placeholder_content (gs_scope s) (gs_run s) i)) (\<lambda>content.
           txn_request E (create_vertex k content))
     | Some row \<Rightarrow> assert_scoped_row (vertex_scope row) (vertex_run row) (Some (object_id row, i))))"

definition relation_content :: "relation_fields \<Rightarrow> string \<Rightarrow> string \<Rightarrow> string \<Rightarrow> string \<Rightarrow> relation_row" where
  "relation_content f sc rid a b =
     \<lparr>relation_id = relation_id f, source = source f, target = target f, relation_type = relation_type f,
      rel_data_json = rel_data_json f, rel_provenance_json = rel_provenance_json f,
      relation_scope = sc, relation_run = rid, edge_in = a, edge_out = b\<rparr>"

text \<open>The body of the \<open>try\<close> of \<open>put_relation\<close>.\<close>

definition put_relation_in_transaction ::
  "('x, 'z) env_scheme \<Rightarrow> 'x relation \<Rightarrow> ('s graph_store_scheme, exn, unit) prog" where
  "put_relation_in_transaction E rel = with_self (\<lambda>s.
     (let a = vertex_key E (gs_scope s) (gs_run s) (re_source rel);
          b = vertex_key E (gs_scope s) (gs_run s) (re_target rel);
          k = relation_key E (gs_scope s) (gs_run s) (re_id rel) in
     bnd (ensure_placeholder E a (re_source rel)) (\<lambda>_.
     bnd (ensure_placeholder E b (re_target rel)) (\<lambda>_.
     bnd (txn_request E (delete_relation k)) (\<lambda>_.
     bnd (lift (relation_to_record E rel)) (\<lambda>f.
     bnd (txn_request E (insert_relation k (relation_content f (gs_scope s) (gs_run s) a b))) (\<lambda>_.
       commit E)))))))"

definition put_relation :: "('x, 'z) env_scheme \<Rightarrow> 'x relation \<Rightarrow> ('s graph_store_scheme, exn, unit) prog" where
  "put_relation E rel =
     bnd (assert_writable E) (\<lambda>_.
     bnd (begin_transaction E) (\<lambda>_.
     try_except (put_relation_in_transaction E rel)
       (\<lambda>e. bnd (cancel_safely E) (\<lambda>_. throw e))))"

definition get_relation ::
  "('x, 'z) env_scheme \<Rightarrow> string \<Rightarrow> ('s graph_store_scheme, exn, 'x relation option) prog" where
  "get_relation E i =
     bnd (assert_readable E) (\<lambda>_. with_self (\<lambda>s.
     bnd (query E (select_relation (listed E) (relation_key E (gs_scope s) (gs_run s) i))) (\<lambda>r.
     case one r of
       None \<Rightarrow> ret None
     | Some row \<Rightarrow>
         bnd (assert_scoped_row (relation_scope row) (relation_run row) (Some (relation_id row, i))) (\<lambda>_.
         bnd (lift (record_to_relation E row)) (\<lambda>rel. ret (Some rel))))))"

definition remove_relation :: "('x, 'z) env_scheme \<Rightarrow> string \<Rightarrow> ('s graph_store_scheme, exn, unit) prog" where
  "remove_relation E i =
     bnd (assert_writable E) (\<lambda>_. with_self (\<lambda>s.
       query E (delete_relation (relation_key E (gs_scope s) (gs_run s) i))))"

definition edge_of :: "string \<Rightarrow> string \<Rightarrow> relation_row \<Rightarrow> bool" where
  "edge_of sc rid r \<longleftrightarrow> relation_scope r = sc \<and> relation_run r = rid"

definition relations_of_rows :: "('x, 'z) env_scheme \<Rightarrow> relation_row list \<Rightarrow> exn + 'x relation list" where
  "relations_of_rows E rs = traverse (record_to_relation E) rs"

definition all_relations :: "('x, 'z) env_scheme \<Rightarrow> ('s graph_store_scheme, exn, 'x relation list) prog" where
  "all_relations E =
     bnd (assert_readable E) (\<lambda>_. with_self (\<lambda>s.
     bnd (query E (select_relations (edge_of (gs_scope s) (gs_run s)))) (\<lambda>r.
       lift (relations_of_rows E (rows r)))))"

section \<open>Queries\<close>

record 'w object_query =
  plan_type :: "string option"
  plan_where :: "'w list option"
  plan_result_mode :: string
  plan_limit :: "int option"

record ('x, 'w) object_query_result =
  found_objects :: "'x object list"
  residual :: "'w list"
  found_any :: "bool option"

definition of_type :: "string option \<Rightarrow> vertex_row \<Rightarrow> bool" where
  "of_type ty r = (case ty of None \<Rightarrow> True | Some t \<Rightarrow> object_type r = Some t)"

definition select_objects ::
  "('x, 'z) env_scheme \<Rightarrow> string option \<Rightarrow> int option \<Rightarrow> ('s graph_store_scheme, exn, 'x object list) prog" where
  "select_objects E ty limit = with_self (\<lambda>s.
     bnd (query E (select_vertices (\<lambda>r. present_in (gs_scope s) (gs_run s) r \<and> of_type ty r) limit)) (\<lambda>r.
       lift (objects_of_rows E (rows r))))"

definition object_exists ::
  "('x, 'z) env_scheme \<Rightarrow> string option \<Rightarrow> ('s graph_store_scheme, exn, bool) prog" where
  "object_exists E ty = with_self (\<lambda>s.
     bnd (query_scan E (\<lambda>scan. select_one_vertex scan
            (\<lambda>r. present_in (gs_scope s) (gs_run s) r \<and> of_type ty r))) (\<lambda>r.
       ret (rows r \<noteq> [])))"

definition query_objects ::
  "('x, 'z) env_scheme \<Rightarrow> 'w object_query
    \<Rightarrow> ('s graph_store_scheme, exn, ('x, 'w) object_query_result) prog" where
  "query_objects E plan =
     bnd (assert_readable E) (\<lambda>_.
     (let rest = (case plan_where plan of None \<Rightarrow> [] | Some ws \<Rightarrow> ws) in
     if plan_result_mode plan = ''exists'' \<and> rest = [] then
       bnd (object_exists E (plan_type plan)) (\<lambda>b.
         ret \<lparr>found_objects = [], residual = [], found_any = Some b\<rparr>)
     else
       bnd (select_objects E (plan_type plan) (if rest = [] then plan_limit plan else None)) (\<lambda>xs.
         ret \<lparr>found_objects = xs, residual = rest, found_any = None\<rparr>)))"

definition find_objects ::
  "('x, 'z) env_scheme \<Rightarrow> string option \<Rightarrow> ('s graph_store_scheme, exn, 'x object list) prog" where
  "find_objects E ty = bnd (assert_readable E) (\<lambda>_. select_objects E ty None)"

definition find_objects_in_types ::
  "('x, 'z) env_scheme \<Rightarrow> string list \<Rightarrow> ('s graph_store_scheme, exn, 'x object list) prog" where
  "find_objects_in_types E types =
     (if types = [] then ret []
      else
        bnd (assert_readable E) (\<lambda>_. with_self (\<lambda>s.
        bnd (query E (select_vertices
               (\<lambda>r. present_in (gs_scope s) (gs_run s) r \<and> object_type r \<in> Some ` set types) None)) (\<lambda>r.
          lift (objects_of_rows E (rows r))))))"

definition wanted :: "string option \<Rightarrow> string \<Rightarrow> bool" where
  "wanted w v = (case w of None \<Rightarrow> True | Some x \<Rightarrow> v = x)"

definition find_relations ::
  "('x, 'z) env_scheme \<Rightarrow> string option \<Rightarrow> string option \<Rightarrow> string option
    \<Rightarrow> ('s graph_store_scheme, exn, 'x relation list) prog" where
  "find_relations E src tgt ty =
     bnd (assert_readable E) (\<lambda>_. with_self (\<lambda>s.
     bnd (query E (select_relations (\<lambda>r. edge_of (gs_scope s) (gs_run s) r
            \<and> wanted src (source r) \<and> wanted tgt (target r) \<and> wanted ty (relation_type r)))) (\<lambda>r.
       lift (relations_of_rows E (rows r)))))"

section \<open>The neighborhood walk\<close>

text \<open>
  Sets of ids are lists without repetition. \<open>new_endpoints\<close> is one level's inner loop: the endpoints
  of the level's rows that were not seen before the level.
\<close>

definition new_endpoints :: "string list \<Rightarrow> relation_row list \<Rightarrow> string list" where
  "new_endpoints seen rs =
     remdups (filter (\<lambda>i. i \<notin> set seen) (concat (map (\<lambda>r. [source r, target r]) rs)))"

fun walk ::
  "('x, 'z) env_scheme \<Rightarrow> nat \<Rightarrow> string list \<Rightarrow> string list \<Rightarrow> string list
    \<Rightarrow> ('s graph_store_scheme, exn, string list \<times> string list) prog" where
  "walk E 0 seen frontier rels = ret (seen, rels)"
| "walk E (Suc n) seen frontier rels =
     (if frontier = [] then ret (seen, rels)
      else with_self (\<lambda>s.
        bnd (query E (select_relations (\<lambda>r. edge_of (gs_scope s) (gs_run s) r
               \<and> (source r \<in> set frontier \<or> target r \<in> set frontier)))) (\<lambda>reply.
        let level = rows reply; next = new_endpoints seen level in
        walk E n (seen @ next) next (remdups (rels @ map relation_id level)))))"

definition objects_by_logical_ids ::
  "('x, 'z) env_scheme \<Rightarrow> string list \<Rightarrow> ('s graph_store_scheme, exn, 'x object list) prog" where
  "objects_by_logical_ids E ids =
     (if ids = [] then ret []
      else with_self (\<lambda>s.
        bnd (query E (select_vertices
               (\<lambda>r. present_in (gs_scope s) (gs_run s) r \<and> object_id r \<in> set ids) None)) (\<lambda>r.
          lift (objects_of_rows E (rows r)))))"

definition relations_by_logical_ids ::
  "('x, 'z) env_scheme \<Rightarrow> string list \<Rightarrow> ('s graph_store_scheme, exn, 'x relation list) prog" where
  "relations_by_logical_ids E ids =
     (if ids = [] then ret []
      else with_self (\<lambda>s.
        bnd (query_scan E (\<lambda>scan. select_relations_unordered scan
               (\<lambda>r. edge_of (gs_scope s) (gs_run s) r \<and> relation_id r \<in> set ids))) (\<lambda>r.
          lift (relations_of_rows E (rows r)))))"

definition neighborhood ::
  "('x, 'z) env_scheme \<Rightarrow> string \<Rightarrow> int
    \<Rightarrow> ('s graph_store_scheme, exn, 'x object list \<times> 'x relation list) prog" where
  "neighborhood E start depth =
     bnd (assert_readable E) (\<lambda>_.
     bnd (get_object E start) (\<lambda>found.
     if found = None then ret ([], [])
     else
       bnd (walk E (nat (max depth 0)) [start] [start] []) (\<lambda>(ids, rels).
       bnd (objects_by_logical_ids E ids) (\<lambda>xs.
       bnd (relations_by_logical_ids E rels) (\<lambda>ys.
         ret (xs, ys))))))"

section \<open>Patches of the projection\<close>

definition patch_content :: "patch_fields \<Rightarrow> string \<Rightarrow> string \<Rightarrow> patch_row" where
  "patch_content f sc rid =
     \<lparr>patch_id = patch_id f, patch_target = patch_target f, op = op f, value_json = value_json f,
      expected_version = expected_version f, proposed_by = proposed_by f, rationale = rationale f,
      evidence_json = evidence_json f, patch_status = patch_status f,
      rejection_reason = rejection_reason f, patch_provenance_json = patch_provenance_json f,
      patch_scope = sc, patch_run = rid\<rparr>"

definition put_patch :: "('x, 'z) env_scheme \<Rightarrow> 'x patch \<Rightarrow> ('s graph_store_scheme, exn, unit) prog" where
  "put_patch E pa =
     bnd (assert_writable E) (\<lambda>_.
     bnd need_session (\<lambda>_. with_self (\<lambda>s.
     bnd (lift (patch_to_record E pa)) (\<lambda>f.
       query E (upsert_patch (patch_key E (gs_scope s) (gs_run s) (pa_id pa))
         (patch_content f (gs_scope s) (gs_run s)))))))"

definition get_patch ::
  "('x, 'z) env_scheme \<Rightarrow> string \<Rightarrow> ('s graph_store_scheme, exn, 'x patch option) prog" where
  "get_patch E i =
     bnd (assert_readable E) (\<lambda>_. with_self (\<lambda>s.
     bnd (query E (select_patch (listed E) (patch_key E (gs_scope s) (gs_run s) i))) (\<lambda>r.
     case one r of
       None \<Rightarrow> ret None
     | Some row \<Rightarrow>
         bnd (assert_scoped_row (patch_scope row) (patch_run row) (Some (patch_id row, i))) (\<lambda>_.
         bnd (lift (patch_from_record E row)) (\<lambda>pa. ret (Some pa))))))"

definition remove_patch :: "('x, 'z) env_scheme \<Rightarrow> string \<Rightarrow> ('s graph_store_scheme, exn, unit) prog" where
  "remove_patch E i =
     bnd (assert_writable E) (\<lambda>_. with_self (\<lambda>s.
       query E (delete_patch (patch_key E (gs_scope s) (gs_run s) i))))"

definition patch_of :: "string \<Rightarrow> string \<Rightarrow> patch_row \<Rightarrow> bool" where
  "patch_of sc rid r \<longleftrightarrow> patch_scope r = sc \<and> patch_run r = rid"

definition all_patches :: "('x, 'z) env_scheme \<Rightarrow> ('s graph_store_scheme, exn, 'x patch list) prog" where
  "all_patches E =
     bnd (assert_readable E) (\<lambda>_. with_self (\<lambda>s.
     bnd (query E (select_patches (patch_of (gs_scope s) (gs_run s)))) (\<lambda>r.
       lift (traverse (patch_from_record E) (rows r)))))"

section \<open>The rebuild lifecycle\<close>

definition in_vertices :: "string \<Rightarrow> string \<Rightarrow> vertex_row \<Rightarrow> bool" where
  "in_vertices sc rid r \<longleftrightarrow> vertex_scope r = sc \<and> vertex_run r = rid"

text \<open>The loop of \<open>clear\<close> over its three tables.\<close>

definition gs_clear :: "('x, 'z) env_scheme \<Rightarrow> ('s graph_store_scheme, exn, unit) prog" where
  "gs_clear E =
     bnd gs_ensure_open (\<lambda>_. with_self (\<lambda>s.
     for_each (query E)
       [delete_relations_where (edge_of (gs_scope s) (gs_run s)),
        delete_patches_where (patch_of (gs_scope s) (gs_run s)),
        delete_vertices_where (in_vertices (gs_scope s) (gs_run s))]))"

definition begin_rebuild :: "('x, 'z) env_scheme \<Rightarrow> ('s graph_store_scheme, exn, unit) prog" where
  "begin_rebuild E =
     bnd gs_ensure_open (\<lambda>_.
     bnd (set_projection_status E ''rebuilding'' None) (\<lambda>_.
     bnd (modify (\<lambda>s. s\<lparr>rebuilding_here := True\<rparr>)) (\<lambda>_.
       gs_clear E)))"

definition mark_ready :: "('x, 'z) env_scheme \<Rightarrow> ('s graph_store_scheme, exn, unit) prog" where
  "mark_ready E =
     bnd gs_ensure_open (\<lambda>_.
     bnd (set_projection_status E ''ready'' None) (\<lambda>_.
       modify (\<lambda>s. s\<lparr>rebuilding_here := False\<rparr>)))"

datatype failure = NoDetail | OfException exn | OfText string

fun failure_detail :: "failure \<Rightarrow> string" where
  "failure_detail NoDetail = ''projection rebuild failed''"
| "failure_detail (OfException e) = exn_class e"
| "failure_detail (OfText t) = t"

definition mark_failed :: "('x, 'z) env_scheme \<Rightarrow> failure \<Rightarrow> ('s graph_store_scheme, exn, unit) prog" where
  "mark_failed E reason =
     bnd gs_ensure_open (\<lambda>_.
     bnd (set_projection_status E ''failed'' (Some (failure_detail reason))) (\<lambda>_.
       modify (\<lambda>s. s\<lparr>rebuilding_here := False\<rparr>)))"

section \<open>Weakest preconditions of the guards\<close>

lemma wp_gs_ensure_open [wp_rules]:
  "wp gs_ensure_open Q R = (\<lambda>s. if gs_closed s
     then R (ClosedStoreError ''the SurrealGraphStore is closed'') s else Q () s)"
  by (simp add: wp_def gs_ensure_open_def fun_eq_iff)

lemma wp_assert_scoped_row [wp_rules]:
  "wp (assert_scoped_row sc rid logical) Q R = (\<lambda>s.
     if sc \<noteq> gs_scope s \<or> rid \<noteq> gs_run s
     then R (SurrealProviderError ''a graph record crossed its scope/run boundary'') s
     else case logical of None \<Rightarrow> Q () s
       | Some (i, j) \<Rightarrow> if i \<noteq> j
           then R (SurrealProviderError ''an opaque graph record ID resolved incorrectly'') s else Q () s)"
  by (auto simp: wp_def assert_scoped_row_def fun_eq_iff split: option.split prod.split)

end
