(* ===== verification/Framing.thy ===== *)
theory Framing
  imports Schema
begin

text \<open>
  Two ways of leaving things alone, each found by the syntax of a program: \<open>keeps P\<close>, a property of the
  database survives the program however it ends, and \<open>untouching\<close>, the object keeps every field of its
  own (its link to the server apart). Opening a connection and installing the schema are such programs.
\<close>

named_theorems keeps_intros "programs that keep a property of the database"

section \<open>Programs that keep a property of the database\<close>

definition relies :: "('x, 'z) env_scheme \<Rightarrow> (tables \<Rightarrow> bool) \<Rightarrow> bool" where
  "relies E P \<longleftrightarrow> (\<forall>n d. P d \<longrightarrow> P (others E n d))"

definition stmt_keeps :: "(tables \<Rightarrow> bool) \<Rightarrow> 'a stmt \<Rightarrow> bool" where
  "stmt_keeps P f \<longleftrightarrow> (\<forall>e d x d' w. P d \<longrightarrow> f e d = Done x d' w \<longrightarrow> P d')"

definition keeps :: "(tables \<Rightarrow> bool) \<Rightarrow> ('s server_scheme, 'e, 'a) prog \<Rightarrow> bool" where
  "keeps P p \<longleftrightarrow> (\<forall>s. P (db s) \<longrightarrow> P (db (snd (p s))))"

lemma keeps_wp: "\<lbrakk>keeps P p; P (db s)\<rbrakk> \<Longrightarrow> wp p (\<lambda>_ t. P (db t)) (\<lambda>_ t. P (db t)) s"
  by (simp add: keeps_def wp_any)

lemma keepsI: "(\<And>s. P (db s) \<Longrightarrow> wp p (\<lambda>_ t. P (db t)) (\<lambda>_ t. P (db t)) s) \<Longrightarrow> keeps P p"
  by (simp add: keeps_def wp_any)

lemma keeps_pure: "(\<And>s. db (snd (p s)) = db s) \<Longrightarrow> keeps P p"
  by (simp add: keeps_def)

lemma keeps_basic [keeps_intros]:
  "keeps P (ret x)" "keeps P (throw e)" "keeps P (lift r)" "keeps P (get_state f)"
  by (simp_all add: keeps_def ret_def throw_def lift_def get_state_def)

lemma keeps_bnd [keeps_intros]: "\<lbrakk>keeps P p; \<And>x. keeps P (f x)\<rbrakk> \<Longrightarrow> keeps P (bnd p f)"
  by (rule keepsI) (auto simp: wp_rules intro!: wp_conseq[OF keeps_wp] keeps_wp)

lemma keeps_try_except [keeps_intros]:
  "\<lbrakk>keeps P p; \<And>e. keeps P (h e)\<rbrakk> \<Longrightarrow> keeps P (try_except p h)"
  by (rule keepsI) (auto simp: wp_rules intro!: wp_conseq[OF keeps_wp] keeps_wp)

lemma keeps_try_finally [keeps_intros]:
  "\<lbrakk>keeps P p; keeps P q\<rbrakk> \<Longrightarrow> keeps P (try_finally p q)"
  by (rule keepsI) (auto simp: wp_rules intro!: wp_conseq[OF keeps_wp] keeps_wp)

lemma keeps_suppress [keeps_intros]: "keeps P p \<Longrightarrow> keeps P (suppress p)"
  unfolding suppress_def by (intro keeps_intros)

lemma keeps_with_self [keeps_intros]: "(\<And>t. keeps P (p t)) \<Longrightarrow> keeps P (with_self p)"
  by (simp add: keeps_def with_self_def)

lemma keeps_cases [keeps_intros]:
  "\<lbrakk>b \<Longrightarrow> keeps P p; \<not> b \<Longrightarrow> keeps P q\<rbrakk> \<Longrightarrow> keeps P (if b then p else q)"
  "\<lbrakk>keeps P p; \<And>x. keeps P (f x)\<rbrakk> \<Longrightarrow> keeps P (case y of None \<Rightarrow> p | Some x \<Rightarrow> f x)"
  by simp (cases y; simp)

lemma keeps_run_if [keeps_intros]: "keeps P p \<Longrightarrow> keeps P (run_if b p)"
  unfolding run_if_def by (intro keeps_intros)

lemma keeps_for_each [keeps_intros]: "(\<And>x. x \<in> set xs \<Longrightarrow> keeps P (f x)) \<Longrightarrow> keeps P (for_each f xs)"
  by (induction xs) (auto intro!: keeps_intros)

lemma keeps_modify [keeps_intros]: "(\<And>s. db (f s) = db s) \<Longrightarrow> keeps P (modify f)"
  by (rule keeps_pure) (simp add: modify_def)

lemma keeps_request [keeps_intros]: "\<lbrakk>relies E P; stmt_keeps P f\<rbrakk> \<Longrightarrow> keeps P (request E f)"
  by (rule keepsI) (force simp: wp_request relies_def stmt_keeps_def arrived_def
      split: call_outcome.split step.split)

lemma stmt_keeps_reading [keeps_intros]: "stmt_keeps P (reading f)"
  by (simp add: stmt_keeps_def reading_def)

lemma keeps_txn_request [keeps_intros]: "relies E P \<Longrightarrow> keeps P (txn_request E f)"
  by (rule keepsI) (auto simp: wp_txn_request relies_def arrived_def
      split: option.split call_outcome.split step.split)

lemma keeps_need_session [keeps_intros]: "keeps P need_session"
  by (rule keepsI) (simp add: wp_rules)

lemma keeps_query [keeps_intros]: "\<lbrakk>relies E P; stmt_keeps P f\<rbrakk> \<Longrightarrow> keeps P (query E f)"
  unfolding query_def by (intro keeps_intros)

lemma keeps_ping [keeps_intros]: "relies E P \<Longrightarrow> keeps P (ping E)"
  unfolding ping_def by (intro keeps_intros)

lemma keeps_now [keeps_intros]: "keeps P (now E)"
  unfolding now_def by (intro keeps_intros)

lemma keeps_link_close [keeps_intros]: "relies E P \<Longrightarrow> keeps P (link_close E)"
  unfolding link_close_def by (intro keeps_intros) simp_all

lemma keeps_begin [keeps_intros]: "relies E P \<Longrightarrow> keeps P (begin_transaction E)"
  unfolding begin_transaction_def by (intro keeps_intros) simp_all

lemma keeps_cancel_safely [keeps_intros]: "relies E P \<Longrightarrow> keeps P (cancel_safely E)"
  unfolding cancel_safely_def cancel_def by (intro keeps_intros) simp_all

text \<open>A program that goes on only with the value of a result.\<close>

lemma keeps_lift_bnd: "(\<And>x. r = Inr x \<Longrightarrow> keeps P (f x)) \<Longrightarrow> keeps P (bnd (lift r) f)"
  by (rule keepsI) (auto simp: wp_rules intro!: keeps_wp split: sum.split)

lemma keeps_pair [keeps_intros]: "(\<And>a b. keeps P (f a b)) \<Longrightarrow> keeps P (case x of (a, b) \<Rightarrow> f a b)"
  by (cases x) simp

lemma keeps_into: "\<lbrakk>keeps P p; p s = (r, t); P (db s)\<rbrakk> \<Longrightarrow> P (db t)"
  by (metis keeps_def snd_conv)

text \<open>Making an object and calling another one.\<close>

lemma keeps_making:
  fixes p :: "('o server_scheme, exn, unit) prog" and fresh :: "'s server_scheme \<Rightarrow> 'o server_scheme"
  assumes p: "keeps P p" and fresh: "\<And>s. db (fresh s) = db s"
  shows "keeps P (making fresh p)"
  unfolding keeps_def
proof (intro allI impI)
  fix s :: "'s server_scheme"
  assume "P (db s)"
  then have "P (db (snd (p (fresh s))))" using p fresh by (simp add: keeps_def)
  then show "P (db (snd (making fresh p s)))"
    by (cases "p (fresh s)") (auto simp: making_def split: sum.split)
qed

lemma keeps_calling [keeps_intros]:
  fixes p :: "('o server_scheme, exn, 'a) prog"
  assumes p: "keeps P p"
  shows "keeps P (calling l p :: ('s server_scheme, exn, 'a \<times> 'o server_scheme) prog)"
  unfolding keeps_def
proof (intro allI impI)
  fix s :: "'s server_scheme"
  assume "P (db s)"
  then have "P (db (snd (p (l\<lparr>db := db s, tick := tick s\<rparr>))))" using p by (simp add: keeps_def)
  then show "P (db (snd (calling l p s)))"
    by (cases "p (l\<lparr>db := db s, tick := tick s\<rparr>)") (auto simp: calling_def split: sum.split)
qed

text \<open>Programs that write nothing keep what other sessions keep.\<close>

lemma drift_relies: "\<lbrakk>relies E P; P d\<rbrakk> \<Longrightarrow> P (drift E m n d)"
proof -
  assume r: "relies E P"
  have "P (fold (others E) ns d)" if "P d" for ns d
    using that r by (induction ns arbitrary: d) (auto simp: relies_def)
  then show "P d \<Longrightarrow> P (drift E m n d)" by (simp add: drift_def)
qed

lemma reach_relies: "\<lbrakk>relies E P; P (db s); reach E s t\<rbrakk> \<Longrightarrow> P (db t)"
  using drift_relies by (auto simp: reach_def)

lemma keeps_readonly: "\<lbrakk>relies E P; readonly E p\<rbrakk> \<Longrightarrow> keeps P p"
  unfolding keeps_def readonly_def using reach_relies by metis

lemma quiet_relies: "quiet E \<Longrightarrow> relies E P"
  by (simp add: relies_def quiet_def)

section \<open>Programs that leave the handle's own fields alone\<close>

definition masked :: "'s link_scheme \<Rightarrow> 's link_scheme" where
  "masked s = s\<lparr>db := empty_tables, tick := 0, transaction := None, link_closed := False,
     session_open := False, schema_ready := False\<rparr>"

definition untouching :: "('s link_scheme, 'e, 'a) prog \<Rightarrow> bool" where
  "untouching p \<longleftrightarrow> (\<forall>s. masked (snd (p s)) = masked s)"

named_theorems untouching_intros "programs that leave the handle's own fields alone"

lemma masked_update [simp]:
  "masked (s\<lparr>db := d\<rparr>) = masked s" "masked (s\<lparr>tick := n\<rparr>) = masked s" "masked (s\<lparr>transaction := y\<rparr>) = masked s"
  "masked (s\<lparr>tick := n, db := d\<rparr>) = masked s" "masked (s\<lparr>db := d, tick := n\<rparr>) = masked s" "masked (arrived E s) = masked s"
  "masked (s\<lparr>link_closed := b, session_open := c\<rparr>) = masked s" "masked (s\<lparr>link_closed := b\<rparr>) = masked s"
  "masked (s\<lparr>session_open := b\<rparr>) = masked s" "masked (s\<lparr>schema_ready := b\<rparr>) = masked s"
  by (simp_all add: masked_def arrived_def)

lemma untouching_basic [untouching_intros]:
  "untouching (ret x)" "untouching (throw e)" "untouching (lift r)" "untouching (get_state f)" "untouching need_session"
  by (simp_all add: untouching_def ret_def throw_def lift_def get_state_def need_session_def link_ensure_open_def bnd_def)

lemma untouching_modify [untouching_intros]: "(\<And>s. masked (f s) = masked s) \<Longrightarrow> untouching (modify f)"
  by (simp add: untouching_def modify_def)

lemma untouching_bnd [untouching_intros]: "\<lbrakk>untouching p; \<And>x. untouching (f x)\<rbrakk> \<Longrightarrow> untouching (bnd p f)"
  unfolding untouching_def bnd_def by (auto split: prod.split sum.split) (metis snd_conv)+

lemma untouching_try_except [untouching_intros]: "\<lbrakk>untouching p; \<And>e. untouching (h e)\<rbrakk> \<Longrightarrow> untouching (try_except p h)"
  unfolding untouching_def try_except_def by (auto split: prod.split sum.split) (metis snd_conv)+

lemma untouching_control [untouching_intros]:
  "(\<And>t. untouching (p t)) \<Longrightarrow> untouching (with_self p)"
  "\<lbrakk>b \<Longrightarrow> untouching q; \<not> b \<Longrightarrow> untouching r\<rbrakk> \<Longrightarrow> untouching (if b then q else r)"
  "\<lbrakk>untouching q; \<And>x. untouching (f x)\<rbrakk> \<Longrightarrow> untouching (case z of None \<Rightarrow> q | Some x \<Rightarrow> f x)"
  by (auto simp: untouching_def with_self_def split: option.split)

lemma untouching_for_each [untouching_intros]: "(\<And>x. untouching (f x)) \<Longrightarrow> untouching (for_each f xs)"
  by (induction xs) (auto intro: untouching_intros)

lemma untouching_request [untouching_intros]: "untouching (request E f)" "untouching (txn_request E f)" "untouching (commit E)"
  by (simp_all add: untouching_def request_def txn_request_def commit_def Let_def split: call_outcome.split step.split option.split)

lemma untouching_query [untouching_intros]: "untouching (query E f)"
  unfolding query_def by (intro untouching_intros)

lemma untouching_transaction [untouching_intros]: "untouching (begin_transaction E)" "untouching (cancel_safely E)"
  unfolding begin_transaction_def cancel_safely_def suppress_def cancel_def ping_def
  by (intro untouching_intros masked_update)+

section \<open>Opening a connection and installing the schema\<close>

lemma untouching_ping [untouching_intros]: "untouching (ping E)"
  unfolding ping_def by (rule untouching_request)

lemma untouching_try_finally [untouching_intros]: "\<lbrakk>untouching p; untouching q\<rbrakk> \<Longrightarrow> untouching (try_finally p q)"
  unfolding untouching_def try_finally_def by (auto split: prod.split sum.split) (metis snd_conv)+

lemma untouching_run_if [untouching_intros]: "untouching p \<Longrightarrow> untouching (run_if b p)"
  unfolding run_if_def by (intro untouching_intros)

lemma untouching_link [untouching_intros]: "untouching (connection_init E)" "untouching (link_close E)"
  unfolding connection_init_def link_close_def by (intro untouching_intros masked_update)+

lemma untouching_ensure_schema [untouching_intros]: "untouching (ensure_schema E)"
proof -
  have "untouching link_ensure_open" by (simp add: untouching_def link_ensure_open_def)
  then show ?thesis
    unfolding ensure_schema_def create_schema_record_def read_schema_def server_now_def
    by (intro untouching_intros masked_update; assumption?)+
qed

lemma keeps_connection_init [keeps_intros]: "relies E P \<Longrightarrow> keeps P (connection_init E)"
  unfolding connection_init_def by (intro keeps_intros) simp_all

text \<open>A property of the tables that the schema's own statements leave alone.\<close>

definition of_data :: "(tables \<Rightarrow> bool) \<Rightarrow> bool" where
  "of_data P \<longleftrightarrow> (\<forall>d x y. P (d\<lparr>defined := x, ag_schema := y\<rparr>) = P d)"

lemma of_dataD:
  assumes "of_data P" and "P d"
  shows "P (d\<lparr>defined := x\<rparr>)" and "P (d\<lparr>ag_schema := y\<rparr>)"
proof -
  have "d\<lparr>defined := x\<rparr> = d\<lparr>defined := x, ag_schema := ag_schema d\<rparr>"
    "d\<lparr>ag_schema := y\<rparr> = d\<lparr>defined := defined d, ag_schema := y\<rparr>" by (cases d; simp)+
  with assms show "P (d\<lparr>defined := x\<rparr>)" and "P (d\<lparr>ag_schema := y\<rparr>)"
    unfolding of_data_def by metis+
qed

lemma keeps_ensure_schema:
  assumes r: "relies E P" and P: "of_data P"
  shows "keeps P (ensure_schema E)"
proof -
  have s: "stmt_keeps P (define_statement t)" "stmt_keeps P (create_schema q)" "stmt_keeps P (update_schema_version v)"
    "stmt_keeps P select_schema" for t q v
    using of_dataD[OF P]
    by (auto simp: stmt_keeps_def define_statement_def create_schema_def update_schema_version_def select_schema_def
        split: if_splits option.splits)
  have "keeps P link_ensure_open" by (rule keeps_pure) (simp add: link_ensure_open_def)
  then show ?thesis
    unfolding ensure_schema_def create_schema_record_def read_schema_def server_now_def
    by (intro keeps_intros r s; simp)
qed

end
