(* ===== verification/Projection.thy ===== *)
theory Projection
  imports GraphStore Framing
begin

text \<open>
  The invariant of the projection tables: every row sits under the key of its own scope, run and id,
  every edge joins two vertices that exist, and every number fits the engine's integers. The locale
  \<open>keyed_table\<close> is the contract between the keys and the unique index of a table; it is interpreted
  for each table whose key is made of the fields its index compares.
\<close>

lemma set_delete_alist: "set (AList.delete k al) = {kv \<in> set al. fst kv \<noteq> k}"
  by (induction al) auto

section \<open>Tables whose rows sit under their own keys\<close>

definition keyed :: "('r \<Rightarrow> string) \<Rightarrow> 'r table \<Rightarrow> bool" where
  "keyed key t \<longleftrightarrow> distinct (map fst t) \<and> list_all (\<lambda>(k, r). k = key r) t"

lemma keyed_all: "keyed key t \<Longrightarrow> list_all (\<lambda>(k, r). P r) t \<longleftrightarrow> (\<forall>k r. map_of t k = Some r \<longrightarrow> P r)"
  by (auto simp: keyed_def list_all_iff map_of_Some_iff)

lemma keyed_iff: "keyed key t \<longleftrightarrow> distinct (map fst t) \<and> (\<forall>k r. map_of t k = Some r \<longrightarrow> k = key r)"
  unfolding keyed_def list_all_iff using map_of_Some_iff[of t] by fastforce

locale keyed_table =
  fixes key :: "'r \<Rightarrow> string" and clash :: "'r \<Rightarrow> 'r \<Rightarrow> bool"
  assumes clash_key: "clash r r' \<Longrightarrow> key r = key r'"
begin

lemma room: "keyed key t \<Longrightarrow> room_for clash (key r) r t"
  by (fastforce simp: keyed_def room_for_def list_all_iff dest: clash_key)

lemma creatable_iff: "keyed key t \<Longrightarrow> creatable clash (key r) r t \<longleftrightarrow> map_of t (key r) = None"
  by (simp add: creatable_def room)

lemma keyed_update: "keyed key t \<Longrightarrow> keyed key (AList.update (key r) r t)"
  by (auto simp: keyed_def list_all_iff distinct_update set_update_alist)

lemma keyed_delete: "keyed key t \<Longrightarrow> keyed key (AList.delete k t)"
  by (auto simp: keyed_def list_all_iff distinct_delete set_delete_alist)

lemma keyed_delete_where: "keyed key t \<Longrightarrow> keyed key (delete_where P t)"
  by (auto simp: keyed_def list_all_iff)

lemma keyed_row: "\<lbrakk>keyed key t; map_of t k = Some r\<rbrakk> \<Longrightarrow> k = key r"
  by (auto simp: keyed_def list_all_iff dest: map_of_SomeD)

lemma keyed_mem: "keyed key t \<Longrightarrow> (k, r) \<in> set t \<longleftrightarrow> map_of t k = Some r"
  by (simp add: keyed_def map_of_Some_iff)

lemma keyed_rows: "keyed key t \<Longrightarrow> r \<in> set (rows_where P t) \<longleftrightarrow> P r \<and> map_of t (key r) = Some r"
  unfolding in_rows_where by (auto simp: keyed_mem dest: keyed_row)

end

definition vertex_row_key :: "('x, 'z) env_scheme \<Rightarrow> vertex_row \<Rightarrow> string" where
  "vertex_row_key E r = vertex_key E (vertex_scope r) (vertex_run r) (object_id r)"

definition relation_row_key :: "('x, 'z) env_scheme \<Rightarrow> relation_row \<Rightarrow> string" where
  "relation_row_key E r = relation_key E (relation_scope r) (relation_run r) (relation_id r)"

definition patch_row_key :: "('x, 'z) env_scheme \<Rightarrow> patch_row \<Rightarrow> string" where
  "patch_row_key E r = patch_key E (patch_scope r) (patch_run r) (patch_id r)"

definition projection_row_key :: "('x, 'z) env_scheme \<Rightarrow> projection_row \<Rightarrow> string" where
  "projection_row_key E r = projection_key E (projection_scope r) (projection_run r)"

interpretation vertices: keyed_table "vertex_row_key E" vertex_clash for E
  by unfold_locales (simp add: vertex_row_key_def vertex_clash_def)

interpretation relations: keyed_table "relation_row_key E" relation_clash for E
  by unfold_locales (simp add: relation_row_key_def relation_clash_def)

interpretation patches: keyed_table "patch_row_key E" patch_clash for E
  by unfold_locales (simp add: patch_row_key_def patch_clash_def)

interpretation projections: keyed_table "projection_row_key E" projection_clash for E
  by unfold_locales (simp add: projection_row_key_def projection_clash_def)

section \<open>The invariant\<close>

definition edge_ok :: "('x, 'z) env_scheme \<Rightarrow> vertex_row table \<Rightarrow> relation_row \<Rightarrow> bool" where
  "edge_ok E vs r \<longleftrightarrow>
     edge_in r = vertex_key E (relation_scope r) (relation_run r) (source r)
     \<and> edge_out r = vertex_key E (relation_scope r) (relation_run r) (target r)
     \<and> map_of vs (edge_in r) \<noteq> None \<and> map_of vs (edge_out r) \<noteq> None"

text \<open>A vertex fits the engine, carries the counter of its own id, and decodes when it is an object.\<close>

definition vertex_ok :: "('x, 'z) env_scheme \<Rightarrow> vertex_row \<Rightarrow> bool" where
  "vertex_ok E r \<longleftrightarrow> vertex_fits r \<and> object_counter (object_id r) = Inr (object_seq r)
     \<and> (object_present r \<longrightarrow> (\<exists>ob. object_from_record E r = Inr ob))"

definition graph_ok :: "('x, 'z) env_scheme \<Rightarrow> tables \<Rightarrow> bool" where
  "graph_ok E d \<longleftrightarrow>
     keyed (vertex_row_key E) (ag_vertex d) \<and> keyed (relation_row_key E) (ag_relation d)
     \<and> keyed (patch_row_key E) (ag_patch d) \<and> keyed (projection_row_key E) (ag_projection d)
     \<and> list_all (\<lambda>(k, r). vertex_ok E r) (ag_vertex d)
     \<and> list_all (\<lambda>(k, r). edge_ok E (ag_vertex d) r \<and> (\<exists>rel. record_to_relation E r = Inr rel)) (ag_relation d)"

text \<open>Other sessions keep the invariant and never delete a vertex.\<close>

definition has_vertices :: "tables \<Rightarrow> tables \<Rightarrow> bool" where
  "has_vertices d d' \<longleftrightarrow> (\<forall>k. map_of (ag_vertex d) k \<noteq> None \<longrightarrow> map_of (ag_vertex d') k \<noteq> None)"

definition graph_rely :: "('x, 'z) env_scheme \<Rightarrow> bool" where
  "graph_rely E \<longleftrightarrow>
     (\<forall>n d. graph_ok E d \<longrightarrow> graph_ok E (others E n d) \<and> has_vertices d (others E n d))"

lemma quiet_rely: "quiet E \<Longrightarrow> graph_rely E"
  by (simp add: quiet_def graph_rely_def has_vertices_def)

subsection \<open>Statements keep it\<close>

lemma edge_ok_more: "\<lbrakk>edge_ok E vs r; \<And>k. map_of vs k \<noteq> None \<Longrightarrow> map_of vs' k \<noteq> None\<rbrakk> \<Longrightarrow> edge_ok E vs' r"
  unfolding edge_ok_def by blast

lemma graph_ok_vertex:
  assumes "graph_ok E d" and "vertex_ok E r" and "k = vertex_row_key E r"
  shows "graph_ok E (d\<lparr>ag_vertex := AList.update k r (ag_vertex d)\<rparr>)"
proof -
  have "list_all (\<lambda>(k, r). vertex_ok E r) (AList.update k r (ag_vertex d))"
    using assms by (auto simp: graph_ok_def keyed_def list_all_iff set_update_alist)
  moreover have "edge_ok E (AList.update k r (ag_vertex d)) e" if "edge_ok E (ag_vertex d) e" for e
    using that by (rule edge_ok_more) simp
  ultimately show ?thesis
    using assms by (auto simp: graph_ok_def list_all_iff vertices.keyed_update)
qed

lemma graph_ok_insert_relation:
  assumes "graph_ok E d" and "edge_ok E (ag_vertex d) r" and "\<exists>rel. record_to_relation E r = Inr rel"
    and "k = relation_row_key E r"
  shows "graph_ok E (d\<lparr>ag_relation := AList.update k r (ag_relation d)\<rparr>)"
  using assms
  by (auto simp: graph_ok_def list_all_iff relations.keyed_update keyed_def set_update_alist)

lemma graph_ok_delete_relation:
  "graph_ok E d \<Longrightarrow> graph_ok E (d\<lparr>ag_relation := AList.delete k (ag_relation d)\<rparr>)"
  by (auto simp: graph_ok_def list_all_iff relations.keyed_delete set_delete_alist)

lemma graph_ok_delete_relations:
  "graph_ok E d \<Longrightarrow> graph_ok E (d\<lparr>ag_relation := delete_where P (ag_relation d)\<rparr>)"
  by (auto simp: graph_ok_def list_all_iff relations.keyed_delete_where)

lemma graph_ok_patch:
  assumes "graph_ok E d" and "k = patch_row_key E r"
  shows "graph_ok E (d\<lparr>ag_patch := AList.update k r (ag_patch d)\<rparr>)"
  using assms by (auto simp: graph_ok_def list_all_iff patches.keyed_update keyed_def set_update_alist)

lemma graph_ok_delete_patch:
  "graph_ok E d \<Longrightarrow> graph_ok E (d\<lparr>ag_patch := AList.delete k (ag_patch d)\<rparr>)"
  by (auto simp: graph_ok_def list_all_iff patches.keyed_delete set_delete_alist)

lemma graph_ok_delete_patches:
  "graph_ok E d \<Longrightarrow> graph_ok E (d\<lparr>ag_patch := delete_where P (ag_patch d)\<rparr>)"
  by (auto simp: graph_ok_def list_all_iff patches.keyed_delete_where)

lemma graph_ok_projection:
  "\<lbrakk>graph_ok E d; k = projection_row_key E r\<rbrakk> \<Longrightarrow>
   graph_ok E (d\<lparr>ag_projection := AList.update k r (ag_projection d)\<rparr>)"
  by (auto simp: graph_ok_def projections.keyed_update)

lemma graph_ok_delete_vertices:
  assumes ok: "graph_ok E d" and gone: "gone = keys_where P (ag_vertex d)"
  shows "graph_ok E (d\<lparr>ag_vertex := delete_where P (ag_vertex d),
    ag_relation := delete_where (\<lambda>r. edge_in r \<in> set gone \<or> edge_out r \<in> set gone) (ag_relation d)\<rparr>)"
proof -
  have dist: "distinct (map fst (ag_vertex d))" using ok by (simp add: graph_ok_def keyed_def)
  have "map_of (delete_where P (ag_vertex d)) k \<noteq> None" if "map_of (ag_vertex d) k \<noteq> None" "k \<notin> set gone" for k
    using that dist by (auto simp: map_of_delete_where gone in_keys_where split: option.split)
  then have "edge_ok E (delete_where P (ag_vertex d)) r"
    if "edge_ok E (ag_vertex d) r" "edge_in r \<notin> set gone" "edge_out r \<notin> set gone" for r
    using that unfolding edge_ok_def by blast
  with ok show ?thesis
    by (auto simp: graph_ok_def list_all_iff vertices.keyed_delete_where relations.keyed_delete_where)
qed

section \<open>Guards and status reads keep what they are given\<close>

lemma keeps_guards [keeps_intros]:
  "keeps P gs_ensure_open" "keeps P (assert_scoped_row sc rid l)"
  by (rule keepsI, simp add: wp_rules split: option.split)+

lemma keeps_projection_row [keeps_intros]: "relies E P \<Longrightarrow> keeps P (projection_row E)"
  unfolding projection_row_def select_projection_def by (intro keeps_intros)

lemma keeps_assert [keeps_intros]:
  "relies E P \<Longrightarrow> keeps P (assert_readable E)" "relies E P \<Longrightarrow> keeps P (assert_writable E)"
  unfolding assert_writable_def assert_readable_def projection_status_def by (intro keeps_intros; assumption)+

section \<open>Every operation keeps the invariant\<close>

lemma graph_rely_relies: "graph_rely E \<Longrightarrow> relies E (graph_ok E)"
  by (simp add: graph_rely_def relies_def)

lemma stmt_keeps_upsert_vertex:
  "\<lbrakk>k = vertex_row_key E r; object_counter (object_id r) = Inr (object_seq r);
    object_present r \<Longrightarrow> \<exists>ob. object_from_record E r = Inr ob\<rbrakk> \<Longrightarrow> stmt_keeps (graph_ok E) (upsert_vertex k r)"
  by (auto simp: stmt_keeps_def upsert_vertex_def vertex_ok_def intro!: graph_ok_vertex split: if_splits)

lemma stmt_keeps_upsert_patch:
  "k = patch_row_key E r \<Longrightarrow> stmt_keeps (graph_ok E) (upsert_patch k r)"
  by (auto simp: stmt_keeps_def upsert_patch_def intro!: graph_ok_patch split: if_splits)

lemma stmt_keeps_projection:
  assumes "k = projection_row_key E r"
  shows "stmt_keeps (graph_ok E) (upsert_projection k r)" "stmt_keeps (graph_ok E) (create_projection k r)"
  using assms by (auto simp: stmt_keeps_def upsert_projection_def create_projection_def
      intro!: graph_ok_projection split: if_splits)

lemma stmt_keeps_deletes:
  "stmt_keeps (graph_ok E) (delete_relation k)" "stmt_keeps (graph_ok E) (delete_patch k)"
  "stmt_keeps (graph_ok E) (delete_relations_where P)" "stmt_keeps (graph_ok E) (delete_patches_where Q)"
  "stmt_keeps (graph_ok E) (delete_vertices_where V)"
  by (auto simp: stmt_keeps_def delete_relation_def delete_patch_def delete_relations_where_def
      delete_patches_where_def delete_vertices_where_def Let_def
      graph_ok_delete_relation graph_ok_delete_patch graph_ok_delete_relations graph_ok_delete_patches
      graph_ok_delete_vertices)

lemma placeholder_row:
  "placeholder_content sc rid i = Inr r \<Longrightarrow>
   object_counter (object_id r) = Inr (object_seq r) \<and> \<not> object_present r
   \<and> vertex_scope r = sc \<and> vertex_run r = rid \<and> object_id r = i"
  by (auto simp: placeholder_content_def)

lemma object_row:
  assumes "float_text_ok (float_text E)" and "object_to_record E obj = Inr f" and "object_counter (ob_id obj) = Inr n"
  shows "object_counter (object_id (object_content f sc rid n)) = Inr (object_seq (object_content f sc rid n))"
    and "object_from_record E (object_content f sc rid n) = norm_object E obj"
    and "vertex_row_key E (object_content f sc rid n) = vertex_key E sc rid (ob_id obj)"
    and "\<exists>ob. norm_object E obj = Inr ob"
proof -
  have f: "object_id f = ob_id obj" using assms(2) by (auto simp: object_to_record_def)
  then show "object_counter (object_id (object_content f sc rid n)) = Inr (object_seq (object_content f sc rid n))"
    and "vertex_row_key E (object_content f sc rid n) = vertex_key E sc rid (ob_id obj)"
    using assms(3) by (simp_all add: object_content_def vertex_row_key_def)
  have "object_from_record E (object_content f sc rid n) = object_from_record E f"
    by (simp add: object_from_record_def object_content_def)
  with object_codec.decode_encode[OF assms(1,2)]
  show "object_from_record E (object_content f sc rid n) = norm_object E obj" by simp
  show "\<exists>ob. norm_object E obj = Inr ob"
    using assms(1,2) by (auto simp: object_to_record_def norm_object_def norm_val_def canonical_json_Inr)
qed

lemma relation_row_facts:
  assumes "float_text_ok (float_text E)" and "relation_to_record E rel = Inr f"
  shows "record_to_relation E (relation_content f sc rid a b) = norm_relation E rel"
    and "relation_row_key E (relation_content f sc rid a b) = relation_key E sc rid (re_id rel)"
    and "source f = re_source rel" "target f = re_target rel" "relation_type f = re_type rel" "relation_id f = re_id rel"
    and "\<exists>r. norm_relation E rel = Inr r"
proof -
  show f: "source f = re_source rel" "target f = re_target rel" "relation_type f = re_type rel" "relation_id f = re_id rel"
    using assms(2) by (auto simp: relation_to_record_def)
  show "relation_row_key E (relation_content f sc rid a b) = relation_key E sc rid (re_id rel)"
    using f by (simp add: relation_content_def relation_row_key_def)
  have "record_to_relation E (relation_content f sc rid a b) = record_to_relation E f"
    by (simp add: record_to_relation_def relation_content_def)
  with relation_codec.decode_encode[OF assms]
  show "record_to_relation E (relation_content f sc rid a b) = norm_relation E rel" by simp
  show "\<exists>r. norm_relation E rel = Inr r"
    using assms by (auto simp: relation_to_record_def norm_relation_def norm_val_def canonical_json_Inr)
qed

lemma patch_row_facts:
  assumes "float_text_ok (float_text E)" and "patch_to_record E pa = Inr f"
  shows "patch_from_record E (patch_content f sc rid) = norm_patch E pa"
    and "patch_row_key E (patch_content f sc rid) = patch_key E sc rid (pa_id pa)"
    and "expected_version f = pa_expected_version pa" "patch_id f = pa_id pa"
proof -
  show f: "expected_version f = pa_expected_version pa" "patch_id f = pa_id pa"
    using assms(2) by (auto simp: patch_to_record_def)
  show "patch_row_key E (patch_content f sc rid) = patch_key E sc rid (pa_id pa)"
    using f by (simp add: patch_content_def patch_row_key_def)
  have "patch_from_record E (patch_content f sc rid) = patch_from_record E f"
    by (simp add: patch_from_record_def patch_content_def)
  with patch_codec.decode_encode[OF assms]
  show "patch_from_record E (patch_content f sc rid) = norm_patch E pa" by simp
qed

subsection \<open>Writing an edge\<close>

lemma map_of_install_table:
  "map_of (install_table ks w c) k = (if k \<in> set ks then map_of w k else map_of c k)"
  unfolding install_table_def by (induction ks arbitrary: c) (auto split: option.split)

lemma keyed_install_table:
  assumes "keyed key c" and "\<And>k r. \<lbrakk>k \<in> set ks; map_of w k = Some r\<rbrakk> \<Longrightarrow> k = key r"
  shows "keyed key (install_table ks w c)"
proof -
  have "distinct (map fst c) \<Longrightarrow> distinct (map fst (install_table ks w c))"
    unfolding install_table_def by (induction ks arbitrary: c) (auto split: option.split)
  then have "distinct (map fst (install_table ks w c))" using assms(1) by (simp add: keyed_def)
  moreover have "k = key r" if "map_of (install_table ks w c) k = Some r" for k r
    using that assms by (auto simp: map_of_install_table keyed_iff split: if_splits)
  ultimately show ?thesis by (simp add: keyed_iff)
qed

text \<open>
  What an open \<open>put_relation\<close> transaction may have written: vertices that are fit to be rows and that
  its snapshot did not have, and edges that are fit to be rows between vertices of its own view.
\<close>

definition edge_txn_ok :: "('x, 'z) env_scheme \<Rightarrow> snapshot_txn \<Rightarrow> bool" where
  "edge_txn_ok E t \<longleftrightarrow>
     t_run (written t) = [] \<and> t_event (written t) = []
     \<and> (\<forall>k\<in>set (t_vertex (written t)). \<exists>r. map_of (ag_vertex (work t)) k = Some r
          \<and> vertex_ok E r \<and> k = vertex_row_key E r)
     \<and> (\<forall>k. map_of (ag_vertex (work t)) k \<noteq> None \<longrightarrow>
          k \<in> set (t_vertex (written t)) \<or> map_of (ag_vertex (base t)) k \<noteq> None)
     \<and> (\<forall>k\<in>set (t_relation (written t)). \<forall>r. map_of (ag_relation (work t)) k = Some r \<longrightarrow>
          k = relation_row_key E r \<and> edge_ok E (ag_vertex (work t)) r
          \<and> (\<exists>rel. record_to_relation E r = Inr rel))"

lemma graph_ok_iff:
  "graph_ok E d \<longleftrightarrow>
     keyed (vertex_row_key E) (ag_vertex d) \<and> keyed (relation_row_key E) (ag_relation d)
     \<and> keyed (patch_row_key E) (ag_patch d) \<and> keyed (projection_row_key E) (ag_projection d)
     \<and> (\<forall>k r. map_of (ag_vertex d) k = Some r \<longrightarrow> vertex_ok E r)
     \<and> (\<forall>k r. map_of (ag_relation d) k = Some r \<longrightarrow>
          edge_ok E (ag_vertex d) r \<and> (\<exists>rel. record_to_relation E r = Inr rel))"
  unfolding graph_ok_def by (auto simp: keyed_all[where P = "vertex_ok E"]
    keyed_all[where P = "\<lambda>r. edge_ok E (ag_vertex d) r \<and> (\<exists>rel. record_to_relation E r = Inr rel)"])

lemma graph_ok_install:
  assumes ok: "graph_ok E d" and more: "has_vertices (base t) d" and t: "edge_txn_ok E t"
  shows "graph_ok E (install t d)"
proof -
  let ?vs = "install_table (t_vertex (written t)) (ag_vertex (work t)) (ag_vertex d)"
  let ?es = "install_table (t_relation (written t)) (ag_relation (work t)) (ag_relation d)"
  note dok = ok[unfolded graph_ok_iff] and tok = t[unfolded edge_txn_ok_def]
  have kv: "keyed (vertex_row_key E) ?vs"
    by (rule keyed_install_table) (use dok tok in auto)
  have ke: "keyed (relation_row_key E) ?es"
    by (rule keyed_install_table) (use dok tok in auto)
  have grown: "map_of ?vs k \<noteq> None" if "map_of (ag_vertex (work t)) k \<noteq> None \<or> map_of (ag_vertex d) k \<noteq> None" for k
  proof (cases "k \<in> set (t_vertex (written t))")
    case True
    then show ?thesis using tok by (auto simp: map_of_install_table)
  next
    case False
    then have "map_of (ag_vertex d) k \<noteq> None" using that tok more unfolding has_vertices_def by blast
    with False show ?thesis by (simp add: map_of_install_table)
  qed
  have "vertex_ok E r" if "map_of ?vs k = Some r" for k r
  proof (cases "k \<in> set (t_vertex (written t))")
    case True
    then show ?thesis using that tok by (force simp: map_of_install_table)
  next
    case False
    then show ?thesis using that dok by (simp add: map_of_install_table)
  qed
  moreover have "edge_ok E ?vs r \<and> (\<exists>rel. record_to_relation E r = Inr rel)" if "map_of ?es k = Some r" for k r
  proof (cases "k \<in> set (t_relation (written t))")
    case True
    then have "edge_ok E (ag_vertex (work t)) r \<and> (\<exists>rel. record_to_relation E r = Inr rel)"
      using that tok by (simp add: map_of_install_table)
    then show ?thesis using grown unfolding edge_ok_def by blast
  next
    case False
    then have "edge_ok E (ag_vertex d) r \<and> (\<exists>rel. record_to_relation E r = Inr rel)"
      using that dok by (simp add: map_of_install_table)
    then show ?thesis using grown unfolding edge_ok_def by blast
  qed
  ultimately show ?thesis
    using dok kv ke unfolding graph_ok_iff by (simp add: install_def tok)
qed

text \<open>
  While \<open>put_relation\<close> is under way, and the vertices under the keys \<open>A\<close> are in its view.
\<close>

definition edge_under_way :: "('x, 'z) env_scheme \<Rightarrow> string set \<Rightarrow> 's graph_store_scheme \<Rightarrow> bool" where
  "edge_under_way E A s \<longleftrightarrow> graph_ok E (db s) \<and> (\<exists>t. transaction s = Some t
     \<and> has_vertices (base t) (db s) \<and> edge_txn_ok E t
     \<and> (\<forall>k\<in>A. map_of (ag_vertex (work t)) k \<noteq> None))"

lemma has_vertices_trans: "\<lbrakk>has_vertices a b; has_vertices b c\<rbrakk> \<Longrightarrow> has_vertices a c"
  by (simp add: has_vertices_def)

lemma wp_edge_step:
  assumes rely: "graph_rely E" and s: "edge_under_way E A s"
    and f: "\<And>t e x d w. \<lbrakk>edge_txn_ok E t; \<forall>k\<in>A. map_of (ag_vertex (work t)) k \<noteq> None; f e (work t) = Done x d w\<rbrakk> \<Longrightarrow>
      edge_txn_ok E (t\<lparr>work := d, written := also_written (written t) w\<rparr>) \<and> (\<forall>k\<in>B x. map_of (ag_vertex d) k \<noteq> None)"
    and Q: "\<And>x u. \<lbrakk>edge_under_way E (B x) u; gs_scope u = gs_scope s; gs_run u = gs_run s\<rbrakk> \<Longrightarrow> Q x u"
    and R: "\<And>e u. graph_ok E (db u) \<Longrightarrow> R e u"
  shows "wp (txn_request E f) Q R s"
proof -
  obtain t where t: "graph_ok E (db s)" "transaction s = Some t" "has_vertices (base t) (db s)" "edge_txn_ok E t"
    "\<forall>k\<in>A. map_of (ag_vertex (work t)) k \<noteq> None"
    using s by (auto simp: edge_under_way_def)
  let ?d = "others E (tick s) (db s)"
  have d: "graph_ok E ?d" "has_vertices (base t) ?d"
    using rely t(1,3) has_vertices_trans unfolding graph_rely_def by blast+
  have "Q x ((arrived E s)\<lparr>transaction := Some (t\<lparr>work := d', written := also_written (written t) w\<rparr>)\<rparr>)"
    if "f e (work t) = Done x d' w" for e x d' w
    using f[OF t(4,5) that] d by (intro Q) (auto simp: edge_under_way_def arrived_def)
  moreover have "R e ((arrived E s)\<lparr>transaction := y\<rparr>)" "R e (arrived E s)" for e y
    using d(1) by (auto intro!: R simp: arrived_def)
  ultimately show ?thesis
    by (simp add: wp_txn_request t(2) split: call_outcome.split step.split)
qed

lemma edge_txn_ok_read: "edge_txn_ok E t \<Longrightarrow> edge_txn_ok E (t\<lparr>written := also_written (written t) nothing\<rparr>)"
  by (simp add: edge_txn_ok_def also_written_def nothing_def)

lemma edge_txn_ok_create:
  assumes t: "edge_txn_ok E t" and r: "k = vertex_row_key E r" "object_counter (object_id r) = Inr (object_seq r)" "\<not> object_present r"
    and "create_vertex k r e (work t) = Done x d w"
  shows "edge_txn_ok E (t\<lparr>work := d, written := also_written (written t) w\<rparr>)"
    and "map_of (ag_vertex d) k' \<noteq> None \<longleftrightarrow> k' = k \<or> map_of (ag_vertex (work t)) k' \<noteq> None"
proof -
  have c: "vertex_fits r" "d = (work t)\<lparr>ag_vertex := AList.update k r (ag_vertex (work t))\<rparr>" "w = nothing\<lparr>t_vertex := [k]\<rparr>"
    using assms(5) by (auto simp: create_vertex_def split: if_splits)
  have more: "edge_ok E (AList.update k'' r (ag_vertex (work t))) q" if "edge_ok E (ag_vertex (work t)) q" for q k''
    using that by (rule edge_ok_more) simp
  have ok: "vertex_ok E r" using c(1) r by (simp add: vertex_ok_def)
  show "edge_txn_ok E (t\<lparr>work := d, written := also_written (written t) w\<rparr>)"
    using t ok r(1) unfolding edge_txn_ok_def c
    by (auto simp: also_written_def nothing_def intro: more)
  show "map_of (ag_vertex d) k' \<noteq> None \<longleftrightarrow> k' = k \<or> map_of (ag_vertex (work t)) k' \<noteq> None"
    by (auto simp: c)
qed

lemma wp_ensure_placeholder:
  assumes rely: "graph_rely E" and s: "edge_under_way E A s" and k: "k = vertex_key E (gs_scope s) (gs_run s) i"
    and Q: "\<And>u. \<lbrakk>edge_under_way E (insert k A) u; gs_scope u = gs_scope s; gs_run u = gs_run s\<rbrakk> \<Longrightarrow> Q () u"
    and R: "\<And>e u. graph_ok E (db u) \<Longrightarrow> R e u"
  shows "wp (ensure_placeholder E k i) Q R s"
proof -
  let ?B = "\<lambda>r. case one r of None \<Rightarrow> A | Some (_::vertex_row) \<Rightarrow> insert k A"
  have "wp (case one r of
       None \<Rightarrow> bnd (lift (placeholder_content (gs_scope s) (gs_run s) i)) (\<lambda>content. txn_request E (create_vertex k content))
     | Some row \<Rightarrow> assert_scoped_row (vertex_scope row) (vertex_run row) (Some (object_id row, i))) Q R u"
    if u: "edge_under_way E (?B r) u" "gs_scope u = gs_scope s" "gs_run u = gs_run s" for r u
  proof (cases "one r")
    case (Some row)
    then show ?thesis using u Q R by (auto simp: wp_rules edge_under_way_def)
  next
    case None
    have "wp (txn_request E (create_vertex k content)) Q R u"
      if "placeholder_content (gs_scope s) (gs_run s) i = Inr content" for content
    proof (rule wp_edge_step[OF rely, where A = A and B = "\<lambda>_. insert k A"])
      show "edge_under_way E A u" using u(1) None by simp
      have c: "k = vertex_row_key E content" "object_counter (object_id content) = Inr (object_seq content)" "\<not> object_present content"
        using placeholder_row[OF that] by (auto simp: k vertex_row_key_def)
      show "edge_txn_ok E (t\<lparr>work := d, written := also_written (written t) w\<rparr>) \<and>
          (\<forall>k'\<in>insert k A. map_of (ag_vertex d) k' \<noteq> None)"
        if "edge_txn_ok E t" "\<forall>k\<in>A. map_of (ag_vertex (work t)) k \<noteq> None" "create_vertex k content e (work t) = Done x d w" for t e x d w
        using edge_txn_ok_create[OF that(1) c that(3)] that(2) by blast
    qed (use Q R u in auto)
    moreover have "graph_ok E (db u)" using u(1) by (simp add: edge_under_way_def)
    ultimately show ?thesis using None R by (auto simp: wp_rules split: sum.split)
  qed
  then have "wp (txn_request E (select_vertex (listed E) k)) (\<lambda>r. wp (case one r of
       None \<Rightarrow> bnd (lift (placeholder_content (gs_scope s) (gs_run s) i)) (\<lambda>content. txn_request E (create_vertex k content))
     | Some row \<Rightarrow> assert_scoped_row (vertex_scope row) (vertex_run row) (Some (object_id row, i))) Q R) R s"
    by (intro wp_edge_step[OF rely s, where B = ?B])
      (use R in \<open>auto simp: select_vertex_def reading_def edge_txn_ok_read split: option.split\<close>)
  then show ?thesis by (simp add: ensure_placeholder_def wp_rules)
qed

lemma edge_txn_ok_relI:
  "\<lbrakk>edge_txn_ok E t; ag_vertex d = ag_vertex (work t); t_run w = []; t_event w = []; t_vertex w = [];
    \<And>k r. \<lbrakk>k \<in> set (t_relation (written t)) \<union> set (t_relation w); map_of (ag_relation d) k = Some r\<rbrakk> \<Longrightarrow>
      k = relation_row_key E r \<and> edge_ok E (ag_vertex (work t)) r \<and> (\<exists>rel. record_to_relation E r = Inr rel)\<rbrakk>
   \<Longrightarrow> edge_txn_ok E (t\<lparr>work := d, written := also_written (written t) w\<rparr>)"
  by (simp add: edge_txn_ok_def also_written_def)

lemma edge_txn_ok_delete:
  assumes "edge_txn_ok E t" and "delete_relation k e (work t) = Done x d w"
  shows "edge_txn_ok E (t\<lparr>work := d, written := also_written (written t) w\<rparr>) \<and> ag_vertex d = ag_vertex (work t)"
proof -
  have c: "d = (work t)\<lparr>ag_relation := AList.delete k (ag_relation (work t))\<rparr>" "w = nothing\<lparr>t_relation := [k]\<rparr>"
    using assms(2) by (auto simp: delete_relation_def)
  have "edge_txn_ok E (t\<lparr>work := d, written := also_written (written t) w\<rparr>)"
    by (rule edge_txn_ok_relI[OF assms(1)])
      (use assms(1) in \<open>auto simp: c nothing_def edge_txn_ok_def split: if_splits\<close>)
  then show ?thesis by (simp add: c)
qed

lemma edge_txn_ok_insert:
  assumes "edge_txn_ok E t" and "insert_relation k r e (work t) = Done x d w"
    and "k = relation_row_key E r" "edge_ok E (ag_vertex (work t)) r" "\<exists>rel. record_to_relation E r = Inr rel"
  shows "edge_txn_ok E (t\<lparr>work := d, written := also_written (written t) w\<rparr>)"
proof -
  have c: "d = (work t)\<lparr>ag_relation := AList.update k r (ag_relation (work t))\<rparr>" "w = nothing\<lparr>t_relation := [k]\<rparr>"
    using assms(2) by (auto simp: insert_relation_def split: if_splits)
  show ?thesis
    by (rule edge_txn_ok_relI[OF assms(1)])
      (use assms(1,3-) in \<open>auto simp: c nothing_def edge_txn_ok_def split: if_splits\<close>)
qed

text \<open>
  The writes of one edge: the old record goes, the new one comes when its two endpoints are there, and
  the transaction is committed; whatever happens on the way, the tables stay a graph.
\<close>

lemma edge_under_way_graph: "edge_under_way E A u \<Longrightarrow> graph_ok E (db u)"
  by (simp add: edge_under_way_def)

lemma wp_commit_edge:
  assumes rely: "graph_rely E" and u: "edge_under_way E A u"
  shows "wp (commit E) (\<lambda>_ u. graph_ok E (db u)) (\<lambda>_ u. graph_ok E (db u)) u"
proof -
  obtain t where t: "graph_ok E (db u)" "transaction u = Some t" "has_vertices (base t) (db u)" "edge_txn_ok E t"
    using u by (auto simp: edge_under_way_def)
  then have "graph_ok E (others E (tick u) (db u))" "has_vertices (base t) (others E (tick u) (db u))"
    using rely has_vertices_trans unfolding graph_rely_def by blast+
  then show ?thesis
    using t(2,4) graph_ok_install by (auto simp: wp_commit arrived_def split: call_outcome.split option.split)
qed

lemma wp_insert_edge:
  assumes rely: "graph_rely E" and fr: "float_text_ok (float_text E)" and f: "relation_to_record E rel = Inr f"
    and u: "edge_under_way E {vertex_key E sc rid (re_source rel), vertex_key E sc rid (re_target rel)} u"
  shows "wp (txn_request E (insert_relation (relation_key E sc rid (re_id rel))
      (relation_content f sc rid (vertex_key E sc rid (re_source rel)) (vertex_key E sc rid (re_target rel)))))
    (\<lambda>_. wp (commit E) (\<lambda>_ u. graph_ok E (db u)) (\<lambda>_ u. graph_ok E (db u))) (\<lambda>_ u. graph_ok E (db u)) u"
proof (rule wp_edge_step[OF rely u, where B = "\<lambda>_. {}"])
  let ?a = "vertex_key E sc rid (re_source rel)" and ?b = "vertex_key E sc rid (re_target rel)"
  let ?row = "relation_content f sc rid ?a ?b"
  fix t e x d w
  assume t: "edge_txn_ok E t" "\<forall>k\<in>{?a, ?b}. map_of (ag_vertex (work t)) k \<noteq> None"
    and i: "insert_relation (relation_key E sc rid (re_id rel)) ?row e (work t) = Done x d w"
  note rf = relation_row_facts[OF fr f]
  have "edge_ok E (ag_vertex (work t)) ?row"
    using t(2) rf(3,4) by (simp add: edge_ok_def relation_content_def)
  then show "edge_txn_ok E (t\<lparr>work := d, written := also_written (written t) w\<rparr>) \<and> (\<forall>k\<in>{}. map_of (ag_vertex d) k \<noteq> None)"
    using edge_txn_ok_insert[OF t(1) i] rf(1,2,7) by simp
qed (auto intro: wp_commit_edge[OF rely])

lemma wp_replace_edge:
  assumes rely: "graph_rely E" and fr: "float_text_ok (float_text E)"
    and u: "edge_under_way E {vertex_key E sc rid (re_target rel), vertex_key E sc rid (re_source rel)} u"
  shows "wp (txn_request E (delete_relation (relation_key E sc rid (re_id rel))))
    (\<lambda>_. wp (lift (relation_to_record E rel)) (\<lambda>f. wp (txn_request E (insert_relation (relation_key E sc rid (re_id rel))
        (relation_content f sc rid (vertex_key E sc rid (re_source rel)) (vertex_key E sc rid (re_target rel)))))
      (\<lambda>_. wp (commit E) (\<lambda>_ u. graph_ok E (db u)) (\<lambda>_ u. graph_ok E (db u))) (\<lambda>_ u. graph_ok E (db u)))
      (\<lambda>_ u. graph_ok E (db u))) (\<lambda>_ u. graph_ok E (db u)) u"
proof (rule wp_edge_step[OF rely u,
    where B = "\<lambda>_. {vertex_key E sc rid (re_source rel), vertex_key E sc rid (re_target rel)}"])
  show "wp (lift (relation_to_record E rel)) (\<lambda>f. wp (txn_request E (insert_relation (relation_key E sc rid (re_id rel))
        (relation_content f sc rid (vertex_key E sc rid (re_source rel)) (vertex_key E sc rid (re_target rel)))))
      (\<lambda>_. wp (commit E) (\<lambda>_ u. graph_ok E (db u)) (\<lambda>_ u. graph_ok E (db u))) (\<lambda>_ u. graph_ok E (db u)))
      (\<lambda>_ u. graph_ok E (db u)) v"
    if "edge_under_way E {vertex_key E sc rid (re_source rel), vertex_key E sc rid (re_target rel)} v" for v
    using that wp_insert_edge[OF rely fr] by (auto simp: wp_lift dest: edge_under_way_graph split: sum.split)
qed (auto dest: edge_txn_ok_delete)

lemma put_relation_body_keeps:
  assumes rely: "graph_rely E" and fr: "float_text_ok (float_text E)" and s: "edge_under_way E {} s"
  shows "wp (put_relation_in_transaction E rel) (\<lambda>_ u. graph_ok E (db u)) (\<lambda>_ u. graph_ok E (db u)) s"
  unfolding put_relation_in_transaction_def Let_def wp_with_self wp_bnd
  by (rule wp_ensure_placeholder[OF rely s refl], rule wp_ensure_placeholder[OF rely])
    (auto intro: wp_replace_edge[OF rely fr])

lemma put_relation_keeps:
  assumes rely: "graph_rely E" and fr: "float_text_ok (float_text E)"
  shows "keeps (graph_ok E) (put_relation E rel)"
proof -
  note relies = graph_rely_relies[OF rely]
  have started: "wp (begin_transaction E) (\<lambda>_. edge_under_way E {}) (\<lambda>_ u. graph_ok E (db u)) s"
    if "graph_ok E (db s)" for s :: "'s graph_store_scheme"
    using that rely
    by (auto simp: wp_rules wp_request reading_def arrived_def edge_under_way_def graph_rely_def has_vertices_def
        edge_txn_ok_def nothing_def split: call_outcome.split)
  have cancelled: "wp (bnd (cancel_safely E) (\<lambda>_. throw e)) (\<lambda>_ u. graph_ok E (db u)) (\<lambda>_ u. graph_ok E (db u)) s"
    if "graph_ok E (db s)" for e and s :: "'s graph_store_scheme"
    by (rule keeps_wp[where P = "graph_ok E"]) (intro keeps_intros relies, rule that)
  have "keeps (graph_ok E) (bnd (begin_transaction E) (\<lambda>_. try_except (put_relation_in_transaction E rel)
      (\<lambda>e. bnd (cancel_safely E) (\<lambda>_. throw e))) :: ('s graph_store_scheme, exn, unit) prog)"
    by (rule keepsI, simp only: wp_bnd wp_try_except)
      (rule wp_conseq[OF started], assumption, rule wp_conseq[OF put_relation_body_keeps[OF rely fr]], auto intro: cancelled[unfolded wp_bnd])
  then show ?thesis
    unfolding put_relation_def by (rule keeps_bnd[OF keeps_assert(2)[OF relies]])
qed

lemma keeps_operations:
  assumes rely: "graph_rely E" and fr: "float_text_ok (float_text E)"
  shows "keeps (graph_ok E) (put_object E obj)" "keeps (graph_ok E) (remove_object E i)"
    "keeps (graph_ok E) (remove_relation E i)" "keeps (graph_ok E) (put_patch E pa)"
    "keeps (graph_ok E) (remove_patch E i)" "keeps (graph_ok E) (gs_clear E)"
    "keeps (graph_ok E) (set_projection_status E st err)"
proof -
  note r = graph_rely_relies[OF rely]
  show "keeps (graph_ok E) (put_object E obj)"
    unfolding put_object_def
    by (intro keeps_bnd[OF keeps_assert(2)] keeps_with_self keeps_lift_bnd keeps_query r stmt_keeps_upsert_vertex)
      (use object_row[OF fr] in auto)
  show "keeps (graph_ok E) (remove_object E i)"
    unfolding remove_object_def select_vertex_def
    by (intro keeps_assert keeps_guards keeps_bnd[OF keeps_assert(2)] keeps_with_self keeps_bnd[OF keeps_query] keeps_cases
        keeps_bnd[OF keeps_guards(2)] keeps_lift_bnd keeps_query r keeps_basic stmt_keeps_reading stmt_keeps_upsert_vertex)
      (auto dest!: placeholder_row simp: vertex_row_key_def)
  show "keeps (graph_ok E) (remove_relation E i)" "keeps (graph_ok E) (remove_patch E i)"
    unfolding remove_relation_def remove_patch_def by (intro keeps_intros r stmt_keeps_deletes)+
  show "keeps (graph_ok E) (put_patch E pa)"
    unfolding put_patch_def
    by (intro keeps_bnd[OF keeps_assert(2)] keeps_bnd[OF keeps_need_session] keeps_with_self keeps_lift_bnd
        keeps_query r stmt_keeps_upsert_patch) (use patch_row_facts[OF fr] in auto)
  show "keeps (graph_ok E) (gs_clear E)"
    unfolding gs_clear_def
    by (intro keeps_intros r) (auto intro: stmt_keeps_deletes)
  show "keeps (graph_ok E) (set_projection_status E st err)"
    unfolding set_projection_status_def
    by (intro keeps_intros r stmt_keeps_projection) (simp add: projection_row_key_def projection_content_def)
qed

end
