(* ===== verification/Graphs.thy ===== *)
theory Graphs
  imports Projection
begin

text \<open>
  Undisturbed runs of the graph store: what each operation returns and the tables it leaves, as
  equations, and the graph those tables stand for.
\<close>

named_theorems graph_runs "what an undisturbed operation does"

section \<open>Handles that may read and write\<close>

definition gs_open :: "'s graph_store_scheme \<Rightarrow> bool" where
  "gs_open s \<longleftrightarrow> \<not> gs_closed s \<and> \<not> link_closed s \<and> session_open s"

definition has_status :: "('x, 'z) env_scheme \<Rightarrow> string \<Rightarrow> string \<Rightarrow> tables \<Rightarrow> string \<Rightarrow> bool" where
  "has_status E sc rid d st \<longleftrightarrow> (\<exists>row. map_of (ag_projection d) (projection_key E sc rid) = Some row
     \<and> projection_scope row = sc \<and> projection_run row = rid \<and> status row = st)"

definition served :: "('x, 'z) env_scheme \<Rightarrow> 's graph_store_scheme \<Rightarrow> bool" where
  "served E s \<longleftrightarrow> gs_open s \<and> (has_status E (gs_scope s) (gs_run s) (db s) ''ready''
     \<or> has_status E (gs_scope s) (gs_run s) (db s) ''rebuilding'' \<and> rebuilding_here s)"

lemma served_open: "served E s \<Longrightarrow> gs_open s"
  by (simp add: served_def)

lemma gs_openD: "gs_open s \<Longrightarrow> \<not> gs_closed s" "gs_open s \<Longrightarrow> \<not> link_closed s" "gs_open s \<Longrightarrow> session_open s"
  by (simp_all add: gs_open_def)

lemma served_update [simp]:
  "served E (s\<lparr>tick := n\<rparr>) = served E s"
  "served E (s\<lparr>transaction := y\<rparr>) = served E s"
  "served E (s\<lparr>tick := n, transaction := y\<rparr>) = served E s"
  by (simp_all add: served_def gs_open_def)

lemma served_tables [simp]:
  "ag_projection d = ag_projection (db s) \<Longrightarrow> served E (s\<lparr>db := d\<rparr>) = served E s"
  by (simp add: served_def gs_open_def has_status_def)

lemma gs_open_update [simp]:
  "gs_open (s\<lparr>tick := n\<rparr>) = gs_open s" "gs_open (s\<lparr>db := d\<rparr>) = gs_open s"
  "gs_open (s\<lparr>transaction := y\<rparr>) = gs_open s" "gs_open (s\<lparr>rebuilding_here := b\<rparr>) = gs_open s"
  by (simp_all add: gs_open_def)

lemma wp_projection_row_calm:
  assumes "calm E" and "gs_open s" and "has_status E (gs_scope s) (gs_run s) (db s) st"
  obtains row where "status row = st"
    and "\<And>Q R. wp (projection_row E) Q R s = Q (Some row) (s\<lparr>tick := Suc (tick s)\<rparr>)"
proof -
  obtain row where row: "map_of (ag_projection (db s)) (projection_key E (gs_scope s) (gs_run s)) = Some row"
    "projection_scope row = gs_scope s" "projection_run row = gs_run s" "status row = st"
    using assms(3) by (auto simp: has_status_def)
  then have "wp (projection_row E) Q R s = Q (Some row) (s\<lparr>tick := Suc (tick s)\<rparr>)" for Q R
    by (simp add: projection_row_def wp_rules select_projection_def gs_openD[OF assms(2)] wp_reading_calm[OF assms(1)])
  with row(4) that show thesis by blast
qed

lemma wp_assert_readable_calm:
  assumes c: "calm E" and s: "served E s"
  shows "wp (assert_readable E) Q R s = Q () (s\<lparr>tick := Suc (tick s)\<rparr>)"
proof -
  have o: "gs_open s" using s by (rule served_open)
  consider "has_status E (gs_scope s) (gs_run s) (db s) ''ready''"
    | "has_status E (gs_scope s) (gs_run s) (db s) ''rebuilding''" "rebuilding_here s"
    using s unfolding served_def by blast
  then show ?thesis
  proof cases
    case 1
    from wp_projection_row_calm[OF c o 1] obtain row where "status row = ''ready''"
      "\<And>Q R. wp (projection_row E) Q R s = Q (Some row) (s\<lparr>tick := Suc (tick s)\<rparr>)" by blast
    then show ?thesis by (simp add: assert_readable_def projection_status_def wp_rules gs_openD[OF o])
  next
    case 2
    from wp_projection_row_calm[OF c o 2(1)] obtain row where "status row = ''rebuilding''"
      "\<And>Q R. wp (projection_row E) Q R s = Q (Some row) (s\<lparr>tick := Suc (tick s)\<rparr>)" by blast
    then show ?thesis by (simp add: assert_readable_def projection_status_def wp_rules gs_openD[OF o] 2)
  qed
qed

lemma wp_assert_writable_calm:
  "\<lbrakk>calm E; served E s\<rbrakk> \<Longrightarrow> wp (assert_writable E) Q R s = Q () (s\<lparr>tick := Suc (tick s)\<rparr>)"
  unfolding assert_writable_def by (rule wp_assert_readable_calm)

section \<open>Single writes\<close>

definition put_vertex :: "('x, 'z) env_scheme \<Rightarrow> vertex_row \<Rightarrow> tables \<Rightarrow> tables" where
  "put_vertex E r d = d\<lparr>ag_vertex := AList.update (vertex_row_key E r) r (ag_vertex d)\<rparr>"

lemma upsert_vertex_Done:
  "\<lbrakk>graph_ok E d; vertex_fits r; k = vertex_row_key E r\<rbrakk> \<Longrightarrow>
   upsert_vertex k r e d = Done () (put_vertex E r d) (nothing\<lparr>t_vertex := [k]\<rparr>)"
  by (simp add: upsert_vertex_def put_vertex_def graph_ok_def vertices.room)

lemma wp_put_object_calm:
  assumes c: "calm E" and s: "served E s" and ok: "graph_ok E (db s)"
    and f: "object_to_record E obj = Inr f" and n: "object_counter (ob_id obj) = Inr n"
    and fits: "vertex_fits (object_content f (gs_scope s) (gs_run s) n)"
  shows "wp (put_object E obj) Q R s =
    Q () (s\<lparr>tick := tick s + 2, db := put_vertex E (object_content f (gs_scope s) (gs_run s) n) (db s)\<rparr>)"
proof -
  have "object_id f = ob_id obj" using f by (auto simp: object_to_record_def)
  then have k: "vertex_key E (gs_scope s) (gs_run s) (ob_id obj) = vertex_row_key E (object_content f (gs_scope s) (gs_run s) n)"
    by (simp add: vertex_row_key_def object_content_def)
  show ?thesis
    by (simp add: put_object_def wp_rules wp_assert_writable_calm[OF c s] f n gs_openD[OF served_open[OF s]]
        wp_request_calm[OF c] upsert_vertex_Done[OF ok fits] k)
qed

text \<open>The row under an id's key is that id's own: no other row has been put there.\<close>

definition own_vertex :: "('x, 'z) env_scheme \<Rightarrow> string \<Rightarrow> string \<Rightarrow> string \<Rightarrow> tables \<Rightarrow> bool" where
  "own_vertex E sc rid i d \<longleftrightarrow> (\<forall>r. map_of (ag_vertex d) (vertex_key E sc rid i) = Some r \<longrightarrow>
     vertex_scope r = sc \<and> vertex_run r = rid \<and> object_id r = i)"

definition own_relation :: "('x, 'z) env_scheme \<Rightarrow> string \<Rightarrow> string \<Rightarrow> string \<Rightarrow> tables \<Rightarrow> bool" where
  "own_relation E sc rid i d \<longleftrightarrow> (\<forall>r. map_of (ag_relation d) (relation_key E sc rid i) = Some r \<longrightarrow>
     relation_scope r = sc \<and> relation_run r = rid \<and> relation_id r = i)"

definition own_patch :: "('x, 'z) env_scheme \<Rightarrow> string \<Rightarrow> string \<Rightarrow> string \<Rightarrow> tables \<Rightarrow> bool" where
  "own_patch E sc rid i d \<longleftrightarrow> (\<forall>r. map_of (ag_patch d) (patch_key E sc rid i) = Some r \<longrightarrow>
     patch_scope r = sc \<and> patch_run r = rid \<and> patch_id r = i)"

definition stub :: "string \<Rightarrow> string \<Rightarrow> string \<Rightarrow> int \<Rightarrow> vertex_row" where
  "stub sc rid i n = \<lparr>object_id = i, object_type = None, data_json = None, version = None,
     provenance_json = None, vertex_scope = sc, vertex_run = rid, object_present = False, object_seq = n\<rparr>"

lemma stub_fields [simp]:
  "object_id (stub sc rid i n) = i" "vertex_scope (stub sc rid i n) = sc" "vertex_run (stub sc rid i n) = rid"
  "\<not> object_present (stub sc rid i n)" "object_seq (stub sc rid i n) = n"
  "vertex_fits (stub sc rid i n) \<longleftrightarrow> fits_int64 n"
  "vertex_row_key E (stub sc rid i n) = vertex_key E sc rid i"
  by (simp_all add: stub_def vertex_fits_def vertex_row_key_def)

lemma placeholder_stub: "object_counter i = Inr n \<Longrightarrow> placeholder_content sc rid i = Inr (stub sc rid i n)"
  by (simp add: placeholder_content_def stub_def)

definition removed :: "('x, 'z) env_scheme \<Rightarrow> string \<Rightarrow> string \<Rightarrow> string \<Rightarrow> tables \<Rightarrow> tables" where
  "removed E sc rid i d = (case map_of (ag_vertex d) (vertex_key E sc rid i) of
     None \<Rightarrow> d | Some r \<Rightarrow> put_vertex E (stub sc rid i (object_seq r)) d)"

lemma graph_ok_vertexD: "\<lbrakk>graph_ok E d; map_of (ag_vertex d) k = Some r\<rbrakk> \<Longrightarrow> vertex_ok E r \<and> k = vertex_row_key E r"
  unfolding graph_ok_iff keyed_iff by blast

lemma wp_remove_object_calm:
  assumes c: "calm E" and s: "served E s" and ok: "graph_ok E (db s)"
    and own: "own_vertex E (gs_scope s) (gs_run s) i (db s)"
  shows "\<exists>n. \<forall>Q R. wp (remove_object E i) Q R s =
    Q () (s\<lparr>tick := n, db := removed E (gs_scope s) (gs_run s) i (db s)\<rparr>)"
proof -
  note o = served_open[OF s]
  show ?thesis
  proof (cases "map_of (ag_vertex (db s)) (vertex_key E (gs_scope s) (gs_run s) i)")
    case None
    then show ?thesis
      by (intro exI[of _ "tick s + 2"] allI)
        (simp add: remove_object_def wp_rules wp_assert_writable_calm[OF c s] gs_openD[OF o]
          select_vertex_def wp_reading_calm[OF c] removed_def)
  next
    case (Some r)
    then have r: "vertex_scope r = gs_scope s" "vertex_run r = gs_run s" "object_id r = i"
      and v: "vertex_ok E r" using own graph_ok_vertexD[OF ok] by (auto simp: own_vertex_def)
    have n: "object_counter i = Inr (object_seq r)" using r(3) v by (auto simp: vertex_ok_def)
    have "fits_int64 (object_seq r)" using v by (simp add: vertex_ok_def vertex_fits_def)
    then have f: "vertex_fits (stub (gs_scope s) (gs_run s) i (object_seq r))" by simp
    show ?thesis
      by (intro exI[of _ "tick s + 3"] allI)
        (simp add: remove_object_def wp_rules wp_assert_writable_calm[OF c s] gs_openD[OF o]
          select_vertex_def wp_reading_calm[OF c] wp_request_calm[OF c, where f = "upsert_vertex k q" for k q] removed_def Some r
          placeholder_stub[OF n] upsert_vertex_Done[OF ok f] eval_nat_numeral)
  qed
qed

definition put_edge :: "('x, 'z) env_scheme \<Rightarrow> relation_row \<Rightarrow> tables \<Rightarrow> tables" where
  "put_edge E r d = d\<lparr>ag_relation := AList.update (relation_row_key E r) r (ag_relation d)\<rparr>"

text \<open>A vertex for an endpoint: the one there is, or a placeholder.\<close>

definition stubbed :: "('x, 'z) env_scheme \<Rightarrow> string \<Rightarrow> string \<Rightarrow> string \<Rightarrow> tables \<Rightarrow> tables" where
  "stubbed E sc rid i d = (case map_of (ag_vertex d) (vertex_key E sc rid i) of
     Some r \<Rightarrow> d
   | None \<Rightarrow> (case object_counter i of Inl _ \<Rightarrow> d | Inr n \<Rightarrow> put_vertex E (stub sc rid i n) d))"

definition edge_row :: "('x, 'z) env_scheme \<Rightarrow> string \<Rightarrow> string \<Rightarrow> relation_fields \<Rightarrow> relation_row" where
  "edge_row E sc rid f = relation_content f sc rid (vertex_key E sc rid (source f)) (vertex_key E sc rid (target f))"

definition related :: "('x, 'z) env_scheme \<Rightarrow> string \<Rightarrow> string \<Rightarrow> relation_fields \<Rightarrow> tables \<Rightarrow> tables" where
  "related E sc rid f d = put_edge E (edge_row E sc rid f) (stubbed E sc rid (target f) (stubbed E sc rid (source f) d))"

text \<open>An id that may become a vertex.\<close>

definition id_ok :: "string \<Rightarrow> bool" where
  "id_ok i \<longleftrightarrow> (\<exists>n. object_counter i = Inr n \<and> fits_int64 n)"

lemma graph_ok_stubbed: "\<lbrakk>graph_ok E d; id_ok i\<rbrakk> \<Longrightarrow> graph_ok E (stubbed E sc rid i d)"
  by (auto simp: stubbed_def put_vertex_def id_ok_def vertex_ok_def intro!: graph_ok_vertex split: option.split)

definition stub_keys :: "('x, 'z) env_scheme \<Rightarrow> string \<Rightarrow> string \<Rightarrow> string \<Rightarrow> tables \<Rightarrow> string list" where
  "stub_keys E sc rid i d =
     (if map_of (ag_vertex d) (vertex_key E sc rid i) = None then [vertex_key E sc rid i] else [])"

lemma wp_ensure_placeholder_calm:
  assumes c: "calm E" and t: "transaction s = Some t" and ok: "graph_ok E (work t)" and i: "id_ok i"
    and own: "own_vertex E (gs_scope s) (gs_run s) i (work t)"
  shows "\<exists>n. \<forall>Q R. wp (ensure_placeholder E (vertex_key E (gs_scope s) (gs_run s) i) i) Q R s =
    Q () (s\<lparr>tick := n, transaction := Some (t\<lparr>work := stubbed E (gs_scope s) (gs_run s) i (work t),
      written := also_written (written t) (nothing\<lparr>t_vertex := stub_keys E (gs_scope s) (gs_run s) i (work t)\<rparr>)\<rparr>)\<rparr>)"
proof -
  let ?k = "vertex_key E (gs_scope s) (gs_run s) i"
  obtain n where n: "object_counter i = Inr n" "fits_int64 n" using i by (auto simp: id_ok_def)
  have w: "also_written (also_written a nothing) b = also_written a b" for a b
    by (simp add: also_written_def nothing_def)
  show ?thesis
  proof (cases "map_of (ag_vertex (work t)) ?k")
    case None
    have "creatable vertex_clash ?k (stub (gs_scope s) (gs_run s) i n) (ag_vertex (work t))"
      using vertices.creatable_iff[of E "ag_vertex (work t)" "stub (gs_scope s) (gs_run s) i n"] ok None
      by (simp add: graph_ok_def)
    then have create: "create_vertex ?k (stub (gs_scope s) (gs_run s) i n) e (work t) =
        Done () (stubbed E (gs_scope s) (gs_run s) i (work t)) (nothing\<lparr>t_vertex := [?k]\<rparr>)" for e
      using None n by (simp add: create_vertex_def stubbed_def put_vertex_def)
    show ?thesis
      by (intro exI[of _ "tick s + 2"] allI)
        (simp add: ensure_placeholder_def wp_rules wp_txn_request_calm[OF c] t select_vertex_def reading_def None
          placeholder_stub[OF n(1)] create stub_keys_def w)
  next
    case (Some r)
    then show ?thesis
      using own
      by (intro exI[of _ "tick s + 1"] allI)
        (simp add: ensure_placeholder_def wp_rules wp_txn_request_calm[OF c] t select_vertex_def reading_def
          own_vertex_def stubbed_def stub_keys_def nothing_def)
  qed
qed

lemma update_again [simp]: "AList.update k v (AList.update k v al) = AList.update k v al"
  by (induction al) auto

text \<open>Identifiers no two of which share a key, and under whose keys only their own rows are.\<close>

definition separate :: "('x, 'z) env_scheme \<Rightarrow> string \<Rightarrow> string \<Rightarrow> string set \<Rightarrow> tables \<Rightarrow> bool" where
  "separate E sc rid I d \<longleftrightarrow>
     inj_on (vertex_key E sc rid) I \<and> inj_on (relation_key E sc rid) I \<and> inj_on (patch_key E sc rid) I
     \<and> (\<forall>i\<in>I. own_vertex E sc rid i d \<and> own_relation E sc rid i d \<and> own_patch E sc rid i d)"

lemma separate_put_vertex:
  assumes "separate E sc rid I d" and "vertex_scope r = sc" "vertex_run r = rid" "object_id r \<in> I"
  shows "separate E sc rid I (put_vertex E r d)"
proof -
  have "own_vertex E sc rid i (put_vertex E r d)" if "i \<in> I" for i
  proof (cases "vertex_key E sc rid i = vertex_row_key E r")
    case True
    then have "i = object_id r"
      using assms that by (simp add: vertex_row_key_def separate_def inj_on_def)
    then show ?thesis using assms(2,3) True by (simp add: own_vertex_def put_vertex_def)
  next
    case False
    then show ?thesis using assms(1) that by (simp add: separate_def own_vertex_def put_vertex_def)
  qed
  then show ?thesis
    using assms(1) by (simp add: separate_def own_relation_def own_patch_def put_vertex_def)
qed

lemma separate_stubbed:
  "\<lbrakk>separate E sc rid I d; i \<in> I\<rbrakk> \<Longrightarrow> separate E sc rid I (stubbed E sc rid i d)"
  by (auto simp: stubbed_def separate_put_vertex split: option.split sum.split)

lemma separate_own: "\<lbrakk>separate E sc rid I d; i \<in> I\<rbrakk> \<Longrightarrow> own_vertex E sc rid i d"
  "\<lbrakk>separate E sc rid I d; i \<in> I\<rbrakk> \<Longrightarrow> own_relation E sc rid i d"
  "\<lbrakk>separate E sc rid I d; i \<in> I\<rbrakk> \<Longrightarrow> own_patch E sc rid i d"
  by (simp_all add: separate_def)

lemma stubbed_fields [simp]:
  "ag_relation (stubbed E sc rid i d) = ag_relation d" "ag_patch (stubbed E sc rid i d) = ag_patch d"
  "ag_projection (stubbed E sc rid i d) = ag_projection d" "ag_run (stubbed E sc rid i d) = ag_run d"
  "ag_event (stubbed E sc rid i d) = ag_event d" "ag_schema (stubbed E sc rid i d) = ag_schema d"
  "defined (stubbed E sc rid i d) = defined d"
  by (simp_all add: stubbed_def put_vertex_def split: option.split sum.split)

lemma install_stubs:
  assumes "id_ok i" "id_ok j"
  shows "install_table (stub_keys E sc rid i d @ stub_keys E sc rid j (stubbed E sc rid i d))
     (ag_vertex (stubbed E sc rid j (stubbed E sc rid i d))) (ag_vertex d)
   = ag_vertex (stubbed E sc rid j (stubbed E sc rid i d))"
proof -
  obtain m n where mn: "object_counter i = Inr m" "object_counter j = Inr n"
    using assms by (auto simp: id_ok_def)
  show ?thesis
    by (auto simp: install_table_def stub_keys_def stubbed_def put_vertex_def mn split: option.splits)
qed

lemma install_edge:
  assumes "w = \<lparr>t_run = [], t_event = [], t_vertex = stub_keys E sc rid i d @ stub_keys E sc rid j (stubbed E sc rid i d),
      t_relation = [relation_row_key E r, relation_row_key E r]\<rparr>"
    and "id_ok i" "id_ok j"
    and "u = (stubbed E sc rid j (stubbed E sc rid i d))\<lparr>ag_relation :=
      AList.update (relation_row_key E r) r (AList.delete (relation_row_key E r) (ag_relation d))\<rparr>"
  shows "install \<lparr>base = d, work = u, written = w\<rparr> d = put_edge E r (stubbed E sc rid j (stubbed E sc rid i d))"
  using install_stubs[OF assms(2,3), of E sc rid d]
  by (simp add: install_def assms(1,4) put_edge_def) (simp add: install_table_def)

lemma wp_edge_commit_calm:
  assumes c: "calm E" and t: "transaction s = Some \<lparr>base = db s, work = u, written = w\<rparr>"
    and ke: "keyed (relation_row_key E) (ag_relation u)" and k: "k = relation_row_key E r"
  shows "wp (txn_request E (delete_relation k)) (\<lambda>_. wp (txn_request E (insert_relation k r)) (\<lambda>_. wp (commit E) Q R) R) R s =
    Q () (s\<lparr>tick := tick s + 3, db := install \<lparr>base = db s,
        work = u\<lparr>ag_relation := AList.update k r (AList.delete k (ag_relation u))\<rparr>,
        written = also_written (also_written w (nothing\<lparr>t_relation := [k]\<rparr>)) (nothing\<lparr>t_relation := [k]\<rparr>)\<rparr> (db s),
      transaction := None\<rparr>)"
proof -
  have "creatable relation_clash k r (AList.delete k (ag_relation u))"
    unfolding k using relations.creatable_iff[OF relations.keyed_delete[OF ke]] by simp
  then have "insert_relation k r e (u\<lparr>ag_relation := AList.delete k (ag_relation u)\<rparr>) =
      Done () (u\<lparr>ag_relation := AList.update k r (AList.delete k (ag_relation u))\<rparr>) (nothing\<lparr>t_relation := [k]\<rparr>)" for e
    by (simp add: insert_relation_def)
  then show ?thesis
    by (simp add: wp_calm[OF c] t delete_relation_def eval_nat_numeral)
qed

lemma wp_put_relation_calm:
  assumes c: "calm E" and s: "served E s" and ok: "graph_ok E (db s)"
    and sep: "separate E (gs_scope s) (gs_run s) I (db s)" "re_source rel \<in> I" "re_target rel \<in> I"
    and ids: "id_ok (re_source rel)" "id_ok (re_target rel)"
    and f: "relation_to_record E rel = Inr f"
  shows "\<exists>n. \<forall>Q R. wp (put_relation E rel) Q R s =
    Q () (s\<lparr>tick := n, db := related E (gs_scope s) (gs_run s) f (db s), transaction := None\<rparr>)"
proof -
  let ?sc = "gs_scope s" and ?rid = "gs_run s" and ?d = "db s"
  let ?a = "re_source rel" and ?b = "re_target rel"
  let ?d1 = "stubbed E ?sc ?rid ?a ?d"
  let ?d2 = "stubbed E ?sc ?rid ?b ?d1"
  let ?r = "edge_row E ?sc ?rid f"
  let ?w1 = "also_written nothing (nothing\<lparr>t_vertex := stub_keys E ?sc ?rid ?a ?d\<rparr>)"
  let ?w2 = "also_written ?w1 (nothing\<lparr>t_vertex := stub_keys E ?sc ?rid ?b ?d1\<rparr>)"
  have ff: "source f = ?a" "target f = ?b" "relation_id f = re_id rel"
    using f by (auto simp: relation_to_record_def)
  let ?s1 = "s\<lparr>tick := tick s + 2, transaction := Some \<lparr>base = ?d, work = ?d, written = nothing\<rparr>\<rparr>"
  obtain n1 where n1: "\<And>Q R. wp (ensure_placeholder E (vertex_key E ?sc ?rid ?a) ?a) Q R ?s1 =
    Q () (s\<lparr>tick := n1, transaction := Some \<lparr>base = ?d, work = ?d1, written = ?w1\<rparr>\<rparr>)"
    using wp_ensure_placeholder_calm[OF c, of ?s1 _ ?a] ok ids(1) separate_own(1)[OF sep(1,2)] by auto
  let ?s2 = "s\<lparr>tick := n1, transaction := Some \<lparr>base = ?d, work = ?d1, written = ?w1\<rparr>\<rparr>"
  have sep1: "separate E ?sc ?rid I ?d1" by (rule separate_stubbed[OF sep(1,2)])
  obtain n2 where n2: "\<And>Q R. wp (ensure_placeholder E (vertex_key E ?sc ?rid ?b) ?b) Q R ?s2 =
    Q () (s\<lparr>tick := n2, transaction := Some \<lparr>base = ?d, work = ?d2, written = ?w2\<rparr>\<rparr>)"
    using wp_ensure_placeholder_calm[OF c, of ?s2 _ ?b] graph_ok_stubbed[OF ok ids(1)] ids(2)
      separate_own(1)[OF sep1 sep(3)] by auto
  let ?s3 = "s\<lparr>tick := n2, transaction := Some \<lparr>base = ?d, work = ?d2, written = ?w2\<rparr>\<rparr>"
  have k: "relation_key E ?sc ?rid (re_id rel) = relation_row_key E ?r"
    by (simp add: relation_row_key_def edge_row_def relation_content_def ff)
  have row: "relation_content f ?sc ?rid (vertex_key E ?sc ?rid ?a) (vertex_key E ?sc ?rid ?b) = ?r"
    by (simp add: edge_row_def ff)
  have "install \<lparr>base = ?d, work = ?d2\<lparr>ag_relation := AList.update (relation_row_key E ?r) ?r
        (AList.delete (relation_row_key E ?r) (ag_relation ?d))\<rparr>,
      written = also_written (also_written ?w2 (nothing\<lparr>t_relation := [relation_row_key E ?r]\<rparr>))
        (nothing\<lparr>t_relation := [relation_row_key E ?r]\<rparr>)\<rparr> ?d = related E ?sc ?rid f ?d"
    using install_edge[OF _ ids refl, where E = E and sc = ?sc and rid = ?rid and d = ?d and r = ?r]
    by (simp add: related_def ff also_written_def nothing_def)
  then have last: "wp (txn_request E (delete_relation (relation_row_key E ?r)))
      (\<lambda>_. wp (txn_request E (insert_relation (relation_row_key E ?r) ?r)) (\<lambda>_. wp (commit E) Q R') R') R' ?s3 =
    Q () (s\<lparr>tick := n2 + 3, db := related E ?sc ?rid f ?d, transaction := None\<rparr>)" for Q R'
    using wp_edge_commit_calm[OF c, of ?s3 ?d2 ?w2 "relation_row_key E ?r" ?r] ok by (simp add: graph_ok_def)
  have "wp (put_relation_in_transaction E rel) Q R ?s1 =
      Q () (s\<lparr>tick := n2 + 3, db := related E ?sc ?rid f ?d, transaction := None\<rparr>)" for Q R
    by (simp add: put_relation_in_transaction_def Let_def wp_rules n1[simplified] n2 f k row last)
  then show ?thesis
    by (intro exI[of _ "n2 + 3"])
      (simp add: put_relation_def wp_rules wp_assert_writable_calm[OF c s]
        gs_openD[OF served_open[OF s]] wp_reading_calm[OF c])
qed

definition put_patch_row :: "('x, 'z) env_scheme \<Rightarrow> patch_row \<Rightarrow> tables \<Rightarrow> tables" where
  "put_patch_row E r d = d\<lparr>ag_patch := AList.update (patch_row_key E r) r (ag_patch d)\<rparr>"

lemma wp_put_patch_calm:
  assumes c: "calm E" and s: "served E s" and ok: "graph_ok E (db s)" and fr: "float_text_ok (float_text E)"
    and f: "patch_to_record E pa = Inr f" and v: "fits_int64 (pa_expected_version pa)"
  shows "wp (put_patch E pa) Q R s =
    Q () (s\<lparr>tick := tick s + 2, db := put_patch_row E (patch_content f (gs_scope s) (gs_run s)) (db s)\<rparr>)"
proof -
  let ?r = "patch_content f (gs_scope s) (gs_run s)"
  note k = patch_row_facts[OF fr f]
  have "room_for patch_clash (patch_row_key E ?r) ?r (ag_patch (db s))"
    using ok by (intro patches.room) (simp add: graph_ok_def)
  then have "upsert_patch (patch_row_key E ?r) ?r e (db s) = Done () (put_patch_row E ?r (db s)) nothing" for e
    using v k(3) by (simp add: upsert_patch_def put_patch_row_def) (simp add: patch_content_def)
  then show ?thesis
    by (simp add: put_patch_def wp_rules wp_assert_writable_calm[OF c s] f k(2)[symmetric]
        gs_openD[OF served_open[OF s]] wp_request_calm[OF c])
qed

lemma wp_removes_calm:
  assumes c: "calm E" and s: "served E s"
  shows "wp (remove_relation E i) Q R s = Q () (s\<lparr>tick := tick s + 2, db := (db s)\<lparr>ag_relation :=
      AList.delete (relation_key E (gs_scope s) (gs_run s) i) (ag_relation (db s))\<rparr>\<rparr>)"
    and "wp (remove_patch E i) Q R s = Q () (s\<lparr>tick := tick s + 2, db := (db s)\<lparr>ag_patch :=
      AList.delete (patch_key E (gs_scope s) (gs_run s) i) (ag_patch (db s))\<rparr>\<rparr>)"
  by (simp_all add: remove_relation_def remove_patch_def wp_rules wp_assert_writable_calm[OF c s]
      gs_openD[OF served_open[OF s]] wp_request_calm[OF c] delete_relation_def delete_patch_def)

section \<open>The graph the tables stand for\<close>

text \<open>
  The specification: a graph is three finite maps, and a call of the client changes one entry of one
  of them. Values are as they come back from JSON.
\<close>

record 'x graph =
  g_object :: "string \<Rightarrow> 'x object option"
  g_relation :: "string \<Rightarrow> 'x relation option"
  g_patch :: "string \<Rightarrow> 'x patch option"

datatype 'x graph_op =
    PutObject "'x object" | RemoveObject string
  | PutRelation "'x relation" | RemoveRelation string
  | PutPatch "'x patch" | RemovePatch string

definition decoded :: "exn + 'a \<Rightarrow> 'a option" where
  "decoded r = (case r of Inl _ \<Rightarrow> None | Inr x \<Rightarrow> Some x)"

fun apply_op :: "('x, 'z) env_scheme \<Rightarrow> 'x graph_op \<Rightarrow> 'x graph \<Rightarrow> 'x graph" where
  "apply_op E (PutObject x) g = g\<lparr>g_object := (g_object g)(ob_id x := decoded (norm_object E x))\<rparr>"
| "apply_op E (RemoveObject i) g = g\<lparr>g_object := (g_object g)(i := None)\<rparr>"
| "apply_op E (PutRelation x) g = g\<lparr>g_relation := (g_relation g)(re_id x := decoded (norm_relation E x))\<rparr>"
| "apply_op E (RemoveRelation i) g = g\<lparr>g_relation := (g_relation g)(i := None)\<rparr>"
| "apply_op E (PutPatch x) g = g\<lparr>g_patch := (g_patch g)(pa_id x := decoded (norm_patch E x))\<rparr>"
| "apply_op E (RemovePatch i) g = g\<lparr>g_patch := (g_patch g)(i := None)\<rparr>"

text \<open>The implementation of a call, and of a sequence of calls.\<close>

fun perform :: "('x, 'z) env_scheme \<Rightarrow> 'x graph_op \<Rightarrow> ('s graph_store_scheme, exn, unit) prog" where
  "perform E (PutObject x) = put_object E x"
| "perform E (RemoveObject i) = remove_object E i"
| "perform E (PutRelation x) = put_relation E x"
| "perform E (RemoveRelation i) = remove_relation E i"
| "perform E (PutPatch x) = put_patch E x"
| "perform E (RemovePatch i) = remove_patch E i"

text \<open>The abstraction function.\<close>

definition graph_of :: "('x, 'z) env_scheme \<Rightarrow> string \<Rightarrow> string \<Rightarrow> tables \<Rightarrow> 'x graph" where
  "graph_of E sc rid d =
     \<lparr>g_object = (\<lambda>i. Option.bind (map_of (ag_vertex d) (vertex_key E sc rid i))
        (\<lambda>r. if object_present r then decoded (object_from_record E r) else None)),
      g_relation = (\<lambda>i. Option.bind (map_of (ag_relation d) (relation_key E sc rid i))
        (\<lambda>r. decoded (record_to_relation E r))),
      g_patch = (\<lambda>i. Option.bind (map_of (ag_patch d) (patch_key E sc rid i))
        (\<lambda>r. decoded (patch_from_record E r)))\<rparr>"

definition same_graph_on :: "string set \<Rightarrow> 'x graph \<Rightarrow> 'x graph \<Rightarrow> bool" where
  "same_graph_on I g h \<longleftrightarrow>
     (\<forall>i\<in>I. g_object g i = g_object h i \<and> g_relation g i = g_relation h i \<and> g_patch g i = g_patch h i)"

text \<open>Calls whose values can be stored, about the ids \<open>I\<close>.\<close>

fun op_ok :: "('x, 'z) env_scheme \<Rightarrow> string set \<Rightarrow> 'x graph_op \<Rightarrow> bool" where
  "op_ok E I (PutObject x) \<longleftrightarrow> ob_id x \<in> I \<and> id_ok (ob_id x) \<and> fits_int64 (ob_version x)
     \<and> (\<exists>f. object_to_record E x = Inr f)"
| "op_ok E I (RemoveObject i) \<longleftrightarrow> i \<in> I"
| "op_ok E I (PutRelation x) \<longleftrightarrow> re_id x \<in> I \<and> re_source x \<in> I \<and> re_target x \<in> I
     \<and> id_ok (re_source x) \<and> id_ok (re_target x) \<and> (\<exists>f. relation_to_record E x = Inr f)"
| "op_ok E I (RemoveRelation i) \<longleftrightarrow> i \<in> I"
| "op_ok E I (PutPatch x) \<longleftrightarrow> pa_id x \<in> I \<and> fits_int64 (pa_expected_version x)
     \<and> (\<exists>f. patch_to_record E x = Inr f)"
| "op_ok E I (RemovePatch i) \<longleftrightarrow> i \<in> I"

text \<open>What a call about \<open>I\<close> leaves alone.\<close>

definition only_ids :: "('x, 'z) env_scheme \<Rightarrow> string \<Rightarrow> string \<Rightarrow> string set \<Rightarrow> tables \<Rightarrow> tables \<Rightarrow> bool" where
  "only_ids E sc rid I d d' \<longleftrightarrow>
     (\<forall>k. k \<notin> vertex_key E sc rid ` I \<longrightarrow> map_of (ag_vertex d') k = map_of (ag_vertex d) k)
     \<and> (\<forall>k. k \<notin> relation_key E sc rid ` I \<longrightarrow> map_of (ag_relation d') k = map_of (ag_relation d) k)
     \<and> (\<forall>k. k \<notin> patch_key E sc rid ` I \<longrightarrow> map_of (ag_patch d') k = map_of (ag_patch d) k)
     \<and> ag_projection d' = ag_projection d \<and> ag_run d' = ag_run d \<and> ag_event d' = ag_event d
     \<and> ag_schema d' = ag_schema d \<and> defined d' = defined d"

text \<open>All that is known of the tables after a call that the specification turned \<open>g\<close> into \<open>h\<close>.\<close>

definition tracks ::
  "('x, 'z) env_scheme \<Rightarrow> string \<Rightarrow> string \<Rightarrow> string set \<Rightarrow> tables \<Rightarrow> 'x graph_op \<Rightarrow> tables \<Rightarrow> bool" where
  "tracks E sc rid I d what d' \<longleftrightarrow> graph_ok E d' \<and> separate E sc rid I d' \<and> only_ids E sc rid I d d'
     \<and> same_graph_on I (graph_of E sc rid d') (apply_op E what (graph_of E sc rid d))"

lemma graph_of_vertex:
  assumes "separate E sc rid I d" and "vertex_scope r = sc" "vertex_run r = rid" "object_id r \<in> I"
  shows "same_graph_on I (graph_of E sc rid (put_vertex E r d))
    ((graph_of E sc rid d)\<lparr>g_object := (g_object (graph_of E sc rid d))(object_id r :=
      (if object_present r then decoded (object_from_record E r) else None))\<rparr>)"
proof -
  have "vertex_key E sc rid i = vertex_row_key E r \<longleftrightarrow> i = object_id r" if "i \<in> I" for i
    using assms that by (auto simp: vertex_row_key_def separate_def inj_on_def)
  then show ?thesis by (auto simp: same_graph_on_def graph_of_def put_vertex_def)
qed

lemma only_ids_vertex:
  "\<lbrakk>vertex_scope r = sc; vertex_run r = rid; object_id r \<in> I\<rbrakk> \<Longrightarrow> only_ids E sc rid I d (put_vertex E r d)"
  by (auto simp: only_ids_def put_vertex_def vertex_row_key_def)

lemma tracks_put_object:
  assumes ok: "graph_ok E d" and sep: "separate E sc rid I d" and fr: "float_text_ok (float_text E)"
    and f: "object_to_record E x = Inr f" and n: "object_counter (ob_id x) = Inr n"
    and x: "ob_id x \<in> I" and fits: "vertex_fits (object_content f sc rid n)"
  shows "tracks E sc rid I d (PutObject x) (put_vertex E (object_content f sc rid n) d)"
proof -
  let ?r = "object_content f sc rid n"
  have r: "vertex_scope ?r = sc" "vertex_run ?r = rid" "object_id ?r = ob_id x" "object_present ?r"
    using f by (auto simp: object_content_def object_to_record_def)
  note o = object_row(1,2)[OF fr f n, of sc rid] object_row(3,4)[OF fr f n]
  have "vertex_ok E ?r" using fits o(1,2,4) by (simp add: vertex_ok_def)
  then have "graph_ok E (put_vertex E ?r d)"
    using graph_ok_vertex[OF ok _ refl] by (simp add: put_vertex_def)
  then show ?thesis
    using separate_put_vertex[OF sep r(1,2)] only_ids_vertex[OF r(1,2)] graph_of_vertex[OF sep r(1,2)] r(3,4) x o(2)
    by (simp add: tracks_def)
qed

lemma tracks_remove_object:
  assumes ok: "graph_ok E d" and sep: "separate E sc rid I d" and i: "i \<in> I"
  shows "tracks E sc rid I d (RemoveObject i) (removed E sc rid i d)"
proof (cases "map_of (ag_vertex d) (vertex_key E sc rid i)")
  case None
  then show ?thesis
    using ok sep by (auto simp: tracks_def removed_def only_ids_def same_graph_on_def graph_of_def)
next
  case (Some r)
  let ?r = "stub sc rid i (object_seq r)"
  have v: "vertex_ok E r" and "object_id r = i"
    using graph_ok_vertexD[OF ok Some] separate_own(1)[OF sep i] Some by (auto simp: own_vertex_def)
  then have "vertex_ok E ?r" by (auto simp: vertex_ok_def vertex_fits_def stub_def)
  then have "graph_ok E (put_vertex E ?r d)"
    using graph_ok_vertex[OF ok _ refl, of ?r] by (simp add: put_vertex_def)
  then show ?thesis
    using separate_put_vertex[OF sep, of ?r] only_ids_vertex[of ?r sc rid I E d] graph_of_vertex[OF sep, of ?r] i Some
    by (simp add: tracks_def removed_def)
qed

lemma same_graph_on_trans: "\<lbrakk>same_graph_on I g h; same_graph_on I h k\<rbrakk> \<Longrightarrow> same_graph_on I g k"
  by (simp add: same_graph_on_def)

lemma same_graph_on_refl [simp]: "same_graph_on I g g"
  by (simp add: same_graph_on_def)

lemma only_ids_trans: "\<lbrakk>only_ids E sc rid I d d'; only_ids E sc rid I d' d''\<rbrakk> \<Longrightarrow> only_ids E sc rid I d d''"
  by (simp add: only_ids_def)

lemma only_ids_refl [simp]: "only_ids E sc rid I d d"
  by (simp add: only_ids_def)

text \<open>A placeholder is not part of the graph.\<close>

lemma stubbed_same:
  assumes "separate E sc rid I d" and "i \<in> I"
  shows "same_graph_on I (graph_of E sc rid (stubbed E sc rid i d)) (graph_of E sc rid d)"
    and "only_ids E sc rid I d (stubbed E sc rid i d)"
proof -
  have "g_object (graph_of E sc rid d) i = None" if "map_of (ag_vertex d) (vertex_key E sc rid i) = None"
    using that by (simp add: graph_of_def)
  then show "same_graph_on I (graph_of E sc rid (stubbed E sc rid i d)) (graph_of E sc rid d)"
    using graph_of_vertex[OF assms(1), of "stub sc rid i n" for n] assms(2)
    by (auto simp: stubbed_def same_graph_on_def split: option.split sum.split)
  show "only_ids E sc rid I d (stubbed E sc rid i d)"
    using only_ids_vertex[of "stub sc rid i n" sc rid I E d for n] assms(2)
    by (auto simp: stubbed_def split: option.split sum.split)
qed

lemma stubbed_present:
  "\<lbrakk>id_ok i\<rbrakk> \<Longrightarrow> map_of (ag_vertex (stubbed E sc rid i d)) (vertex_key E sc rid i) \<noteq> None"
  "map_of (ag_vertex d) k \<noteq> None \<Longrightarrow> map_of (ag_vertex (stubbed E sc rid i d)) k \<noteq> None"
  by (auto simp: stubbed_def put_vertex_def id_ok_def split: option.split sum.split)

lemma tracks_put_relation:
  assumes ok: "graph_ok E d" and sep: "separate E sc rid I d" and fr: "float_text_ok (float_text E)"
    and f: "relation_to_record E x = Inr f"
    and x: "re_id x \<in> I" "re_source x \<in> I" "re_target x \<in> I" and ids: "id_ok (re_source x)" "id_ok (re_target x)"
  shows "tracks E sc rid I d (PutRelation x) (related E sc rid f d)"
proof -
  let ?d1 = "stubbed E sc rid (re_source x) d"
  let ?d2 = "stubbed E sc rid (re_target x) ?d1"
  let ?r = "edge_row E sc rid f"
  note k = relation_row_facts[OF fr f]
  have r: "relation_scope ?r = sc" "relation_run ?r = rid" "relation_id ?r = re_id x" "source ?r = re_source x" "target ?r = re_target x"
    "relation_row_key E ?r = relation_key E sc rid (re_id x)"
    using k by (simp_all add: edge_row_def relation_content_def relation_row_key_def)
  have dec: "record_to_relation E ?r = norm_relation E x" by (simp add: edge_row_def k(1))
  have rel: "related E sc rid f d = put_edge E ?r ?d2" by (simp add: related_def k(3,4))
  have sep1: "separate E sc rid I ?d1" by (rule separate_stubbed[OF sep x(2)])
  have sep2: "separate E sc rid I ?d2" by (rule separate_stubbed[OF sep1 x(3)])
  have ok2: "graph_ok E ?d2" by (intro graph_ok_stubbed ok ids)
  have "edge_ok E (ag_vertex ?d2) ?r"
    using stubbed_present(1)[OF ids(2), of E sc rid ?d1] stubbed_present(2)[OF stubbed_present(1)[OF ids(1), of E sc rid d]]
    by (simp add: edge_ok_def r) (simp add: edge_row_def relation_content_def k)
  then have ok3: "graph_ok E (put_edge E ?r ?d2)"
    using graph_ok_insert_relation[OF ok2, of ?r "relation_row_key E ?r"] dec k(7) by (simp add: put_edge_def)
  have inj: "relation_key E sc rid i = relation_key E sc rid (re_id x) \<longleftrightarrow> i = re_id x" if "i \<in> I" for i
    using sep x(1) that by (auto simp: separate_def inj_on_def)
  have "separate E sc rid I (put_edge E ?r ?d2)"
    using sep2 inj by (auto simp: separate_def put_edge_def own_vertex_def own_relation_def own_patch_def r)
  moreover have "only_ids E sc rid I ?d2 (put_edge E ?r ?d2)"
    using x(1) by (auto simp: only_ids_def put_edge_def r)
  then have "only_ids E sc rid I d (put_edge E ?r ?d2)"
    using only_ids_trans stubbed_same(2) sep sep1 x(2,3) by metis
  moreover have same: "same_graph_on I (graph_of E sc rid ?d2) (graph_of E sc rid d)"
    using same_graph_on_trans stubbed_same(1)[OF sep x(2)] stubbed_same(1)[OF sep1 x(3)] by blast
  have "same_graph_on I (graph_of E sc rid (put_edge E ?r ?d2)) (apply_op E (PutRelation x) (graph_of E sc rid d))"
    using same inj by (auto simp: same_graph_on_def graph_of_def put_edge_def r dec)
  ultimately show ?thesis
    using ok3 unfolding tracks_def rel by blast
qed

lemma tracks_removes:
  assumes ok: "graph_ok E d" and sep: "separate E sc rid I d" and i: "i \<in> I"
  shows "tracks E sc rid I d (RemoveRelation i) (d\<lparr>ag_relation := AList.delete (relation_key E sc rid i) (ag_relation d)\<rparr>)"
    and "tracks E sc rid I d (RemovePatch i) (d\<lparr>ag_patch := AList.delete (patch_key E sc rid i) (ag_patch d)\<rparr>)"
proof -
  have "relation_key E sc rid j = relation_key E sc rid i \<longleftrightarrow> j = i" "patch_key E sc rid j = patch_key E sc rid i \<longleftrightarrow> j = i"
    if "j \<in> I" for j
    using sep i that by (auto simp: separate_def inj_on_def)
  with assms show "tracks E sc rid I d (RemoveRelation i) (d\<lparr>ag_relation := AList.delete (relation_key E sc rid i) (ag_relation d)\<rparr>)"
    and "tracks E sc rid I d (RemovePatch i) (d\<lparr>ag_patch := AList.delete (patch_key E sc rid i) (ag_patch d)\<rparr>)"
    by (auto simp: tracks_def graph_ok_delete_relation graph_ok_delete_patch separate_def own_vertex_def own_relation_def
        own_patch_def only_ids_def same_graph_on_def graph_of_def)
qed

lemma tracks_put_patch:
  assumes ok: "graph_ok E d" and sep: "separate E sc rid I d" and fr: "float_text_ok (float_text E)"
    and f: "patch_to_record E x = Inr f" and x: "pa_id x \<in> I"
  shows "tracks E sc rid I d (PutPatch x) (put_patch_row E (patch_content f sc rid) d)"
proof -
  let ?r = "patch_content f sc rid"
  note k = patch_row_facts[OF fr f]
  have r: "patch_scope ?r = sc" "patch_run ?r = rid" "patch_id ?r = pa_id x"
    using k(4) by (simp_all add: patch_content_def)
  have "patch_key E sc rid j = patch_key E sc rid (pa_id x) \<longleftrightarrow> j = pa_id x" if "j \<in> I" for j
    using sep x that by (auto simp: separate_def inj_on_def)
  then show ?thesis
    using ok sep x graph_ok_patch[OF ok refl, of ?r]
    by (auto simp: tracks_def put_patch_row_def separate_def own_vertex_def own_relation_def
        own_patch_def only_ids_def same_graph_on_def graph_of_def k(1,2) r)
qed

section \<open>Every call does what the specification says\<close>

lemma wp_runs: "(\<And>Q R. wp p Q R s = Q x t) \<Longrightarrow> p s = (Inr x, t)"
  using wp_exact[of p x "\<lambda>u. u = t" s] by simp

lemma perform_tracks:
  assumes c: "calm E" and fr: "float_text_ok (float_text E)" and s: "served E s" and ok: "graph_ok E (db s)"
    and sep: "separate E (gs_scope s) (gs_run s) I (db s)" and what: "op_ok E I what"
  shows "\<exists>n y d'. perform E what s = (Inr (), s\<lparr>tick := n, db := d', transaction := y\<rparr>)
    \<and> tracks E (gs_scope s) (gs_run s) I (db s) what d'"
proof -
  have same: "s\<lparr>tick := n, db := d, transaction := transaction s\<rparr> = s\<lparr>tick := n, db := d\<rparr>" for n d by simp
  let ?sc = "gs_scope s" and ?rid = "gs_run s"
  show ?thesis
  proof (cases what)
    case (PutObject x)
    then obtain f n where f: "object_to_record E x = Inr f" and n: "object_counter (ob_id x) = Inr n" "fits_int64 n"
      and x: "ob_id x \<in> I" "fits_int64 (ob_version x)" using what by (auto simp: id_ok_def)
    have fits: "vertex_fits (object_content f ?sc ?rid n)"
      using f n x by (auto simp: vertex_fits_def object_content_def object_to_record_def)
    show ?thesis
      using wp_runs[OF wp_put_object_calm[OF c s ok f n(1) fits]] tracks_put_object[OF ok sep fr f n(1) x(1) fits]
      by (metis PutObject perform.simps(1) same)
  next
    case (RemoveObject i)
    then have i: "i \<in> I" using what by simp
    obtain n where "remove_object E i s = (Inr (), s\<lparr>tick := n, db := removed E ?sc ?rid i (db s)\<rparr>)"
      using wp_remove_object_calm[OF c s ok separate_own(1)[OF sep i]] wp_runs by metis
    then show ?thesis
      using tracks_remove_object[OF ok sep i] by (metis RemoveObject perform.simps(2) same)
  next
    case (PutRelation x)
    then obtain f where f: "relation_to_record E x = Inr f"
      and x: "re_id x \<in> I" "re_source x \<in> I" "re_target x \<in> I" "id_ok (re_source x)" "id_ok (re_target x)"
      using what by auto
    obtain n where "put_relation E x s = (Inr (), s\<lparr>tick := n, db := related E ?sc ?rid f (db s), transaction := None\<rparr>)"
      using wp_put_relation_calm[OF c s ok sep x(2-5) f] wp_runs by metis
    then show ?thesis
      using tracks_put_relation[OF ok sep fr f x] by (metis PutRelation perform.simps(3))
  next
    case (RemoveRelation i)
    then have i: "i \<in> I" using what by simp
    show ?thesis
      using wp_runs[OF wp_removes_calm(1)[OF c s]] tracks_removes(1)[OF ok sep i]
      by (metis RemoveRelation perform.simps(4) same)
  next
    case (PutPatch x)
    then obtain f where f: "patch_to_record E x = Inr f" and x: "pa_id x \<in> I" "fits_int64 (pa_expected_version x)"
      using what by auto
    show ?thesis
      using wp_runs[OF wp_put_patch_calm[OF c s ok fr f x(2)]] tracks_put_patch[OF ok sep fr f x(1)]
      by (metis PutPatch perform.simps(5) same)
  next
    case (RemovePatch i)
    then have i: "i \<in> I" using what by simp
    show ?thesis
      using wp_runs[OF wp_removes_calm(2)[OF c s]] tracks_removes(2)[OF ok sep i]
      by (metis RemovePatch perform.simps(6) same)
  qed
qed

lemma apply_op_same: "\<lbrakk>same_graph_on I g h\<rbrakk> \<Longrightarrow> same_graph_on I (apply_op E what g) (apply_op E what h)"
  by (cases what) (auto simp: same_graph_on_def)

lemma perform_all_tracks:
  assumes c: "calm E" and fr: "float_text_ok (float_text E)"
  shows "\<lbrakk>served E s; graph_ok E (db s); separate E (gs_scope s) (gs_run s) I (db s);
      list_all (op_ok E I) calls; same_graph_on I (graph_of E (gs_scope s) (gs_run s) (db s)) g\<rbrakk> \<Longrightarrow>
    \<exists>n y d'. for_each (perform E) calls s = (Inr (), s\<lparr>tick := n, db := d', transaction := y\<rparr>)
      \<and> graph_ok E d' \<and> separate E (gs_scope s) (gs_run s) I d' \<and> only_ids E (gs_scope s) (gs_run s) I (db s) d'
      \<and> same_graph_on I (graph_of E (gs_scope s) (gs_run s) d') (fold (apply_op E) calls g)"
proof (induction calls arbitrary: s g)
  case Nil
  then show ?case
    by (intro exI[of _ "tick s"] exI[of _ "transaction s"] exI[of _ "db s"]) (simp add: ret_def)
next
  case (Cons what calls)
  obtain n y d where step: "perform E what s = (Inr (), s\<lparr>tick := n, db := d, transaction := y\<rparr>)"
    and t: "tracks E (gs_scope s) (gs_run s) I (db s) what d"
    using perform_tracks[OF c fr Cons.prems(1-3)] Cons.prems(4) by fastforce
  let ?t = "s\<lparr>tick := n, db := d, transaction := y\<rparr>"
  have "served E ?t"
    using Cons.prems(1) t by (simp add: tracks_def only_ids_def served_def gs_open_def has_status_def)
  moreover have "same_graph_on I (graph_of E (gs_scope s) (gs_run s) d) (apply_op E what g)"
    using t apply_op_same[OF Cons.prems(5)] same_graph_on_trans unfolding tracks_def by blast
  ultimately obtain n' y' d' where "for_each (perform E) calls ?t = (Inr (), ?t\<lparr>tick := n', db := d', transaction := y'\<rparr>)"
    and d': "graph_ok E d'" "separate E (gs_scope s) (gs_run s) I d'" "only_ids E (gs_scope s) (gs_run s) I d d'"
      "same_graph_on I (graph_of E (gs_scope s) (gs_run s) d') (fold (apply_op E) calls (apply_op E what g))"
    using Cons.IH[of ?t "apply_op E what g"] Cons.prems(4) t by (auto simp: tracks_def)
  then have "for_each (perform E) (what # calls) s = (Inr (), s\<lparr>tick := n', db := d', transaction := y'\<rparr>)"
    by (simp add: bnd_def step)
  moreover have "only_ids E (gs_scope s) (gs_run s) I (db s) d'"
    using t d'(3) only_ids_trans unfolding tracks_def by blast
  ultimately show ?case using d' by auto
qed

end
