(* ===== verification/Reads.thy ===== *)
theory Reads
  imports Graphs
begin

text \<open>
  Undisturbed reads of the projection: the listings, the queries as filters of the listings, and the
  neighborhood walk as a ball of the undirected graph.
\<close>

section \<open>Listings\<close>

definition object_of :: "('x, 'z) env_scheme \<Rightarrow> vertex_row \<Rightarrow> 'x object" where
  "object_of E r = projr (object_from_record E r)"

definition relation_of :: "('x, 'z) env_scheme \<Rightarrow> relation_row \<Rightarrow> 'x relation" where
  "relation_of E r = projr (record_to_relation E r)"

definition vertex_rows :: "string \<Rightarrow> string \<Rightarrow> tables \<Rightarrow> vertex_row list" where
  "vertex_rows sc rid d = ordered_vertices (present_in sc rid) d"

definition edge_rows :: "string \<Rightarrow> string \<Rightarrow> tables \<Rightarrow> relation_row list" where
  "edge_rows sc rid d = ordered_relations (edge_of sc rid) d"

lemma object_of_decodes:
  assumes "graph_ok E d" and "present_in sc rid r" and "r \<in> set (rows_where P (ag_vertex d))"
  shows "object_from_record E r = Inr (object_of E r)" and "vertex_ok E r"
    and "map_of (ag_vertex d) (vertex_row_key E r) = Some r"
proof -
  show m: "map_of (ag_vertex d) (vertex_row_key E r) = Some r"
    using assms(1,3) vertices.keyed_rows by (auto simp: graph_ok_def)
  then show v: "vertex_ok E r" using graph_ok_vertexD[OF assms(1)] by blast
  then obtain ob where "object_from_record E r = Inr ob"
    using assms(2) by (auto simp: vertex_ok_def present_in_def)
  then show "object_from_record E r = Inr (object_of E r)" by (simp add: object_of_def)
qed

lemma object_of_fields:
  assumes "object_from_record E r = Inr x"
  shows "ob_id x = object_id r" and "object_type r = Some (ob_type x)"
  using assms by (auto simp: object_from_record_def required_def split: option.splits)

lemma relation_of_decodes:
  assumes "graph_ok E d" and "r \<in> set (rows_where P (ag_relation d))"
  shows "record_to_relation E r = Inr (relation_of E r)" and "map_of (ag_relation d) (relation_row_key E r) = Some r"
proof -
  show m: "map_of (ag_relation d) (relation_row_key E r) = Some r"
    using assms relations.keyed_rows by (auto simp: graph_ok_def)
  then obtain x where "record_to_relation E r = Inr x" using assms(1) unfolding graph_ok_iff by blast
  then show "record_to_relation E r = Inr (relation_of E r)" by (simp add: relation_of_def)
qed

lemma relation_of_fields:
  assumes "record_to_relation E r = Inr x"
  shows "re_id x = relation_id r" "re_source x = source r" "re_target x = target r" "re_type x = relation_type r"
  using assms by (auto simp: record_to_relation_def)

lemma rows_where_and: "rows_where (\<lambda>r. P r \<and> Q r) t = filter Q (rows_where P t)"
  by (simp add: rows_where_def conj_commute)

lemma ordered_vertices_and: "ordered_vertices (\<lambda>r. P r \<and> Q r) d = filter Q (ordered_vertices P d)"
  by (simp add: ordered_vertices_def rows_where_and filter_sort)

lemma ordered_relations_and: "ordered_relations (\<lambda>r. P r \<and> Q r) d = filter Q (ordered_relations P d)"
  by (simp add: ordered_relations_def rows_where_and filter_sort)

lemma set_ordered [simp]:
  "set (ordered_vertices P d) = set (rows_where P (ag_vertex d))"
  "set (ordered_relations Q d) = set (rows_where Q (ag_relation d))"
  by (simp_all add: ordered_vertices_def ordered_relations_def)

lemma objects_of_rows_ok:
  assumes "graph_ok E d" and "set rs \<subseteq> set (vertex_rows sc rid d)"
  shows "objects_of_rows E rs = Inr (map (object_of E) rs)"
  unfolding objects_of_rows_def
proof (rule traverse_Inr_map)
  fix r assume "r \<in> set rs"
  then have "r \<in> set (rows_where (present_in sc rid) (ag_vertex d))" "present_in sc rid r"
    using assms(2) by (auto simp: vertex_rows_def in_rows_where)
  then show "object_from_record E r = Inr (object_of E r)" using object_of_decodes(1)[OF assms(1)] by blast
qed

lemma relations_of_rows_ok:
  assumes "graph_ok E d" and "set rs \<subseteq> set (rows_where P (ag_relation d))"
  shows "relations_of_rows E rs = Inr (map (relation_of E) rs)"
  unfolding relations_of_rows_def
  by (rule traverse_Inr_map) (use relation_of_decodes(1)[OF assms(1)] assms(2) in blast)

section \<open>The queries, run\<close>

lemma wp_select_vertices_calm:
  assumes c: "calm E" and s: "gs_open s" and n: "case limit of None \<Rightarrow> True | Some n \<Rightarrow> 0 \<le> n"
  shows "wp (query E (select_vertices P limit)) Q R s =
    Q (many_reply (case limit of None \<Rightarrow> ordered_vertices P (db s) | Some n \<Rightarrow> take (nat n) (ordered_vertices P (db s))))
      (s\<lparr>tick := Suc (tick s)\<rparr>)"
proof -
  have "s\<lparr>tick := Suc (tick s), db := db s\<rparr> = s\<lparr>tick := Suc (tick s)\<rparr>" by simp
  then show ?thesis
    using n by (auto simp: wp_rules gs_openD[OF s] wp_request_calm[OF c] select_vertices_def split: option.split)
qed

lemma wp_select_relations_calm:
  assumes c: "calm E" and s: "gs_open s"
  shows "wp (query E (select_relations P)) Q R s = Q (many_reply (ordered_relations P (db s))) (s\<lparr>tick := Suc (tick s)\<rparr>)"
  by (simp add: wp_rules gs_openD[OF s] wp_reading_calm[OF c] select_relations_def)

text \<open>The engine visits every record once, in an order of its own.\<close>

definition scans_all :: "('x, 'z) env_scheme \<Rightarrow> bool" where
  "scans_all E \<longleftrightarrow> (\<forall>n ks. mset (scan E n ks) = mset ks)"

lemma mset_scanned:
  assumes "scans_all E" and "distinct (map fst t)"
  shows "mset (scanned (scan E n) t) = mset (map snd t)"
proof -
  have "mset (scanned (scan E n) t) = {# the (map_of t k). k \<in># mset (scan E n (map fst t)) #}"
  proof -
    have "List.map_filter (map_of t) ks = map (\<lambda>k. the (map_of t k)) ks" if "set ks \<subseteq> fst ` set t" for ks
      using that by (induction ks) (auto simp: map_filter_simps(1) dest!: weak_map_of_SomeI split: option.split)
    moreover have "set (scan E n (map fst t)) \<subseteq> fst ` set t"
      using assms(1) unfolding scans_all_def by (metis list.set_map mset_eq_setD order_refl)
    ultimately show ?thesis by (simp add: scanned_def)
  qed
  also have "\<dots> = {# the (map_of t k). k \<in># mset (map fst t) #}"
    using assms(1) by (simp add: scans_all_def)
  also have "\<dots> = mset (map (\<lambda>kr. the (map_of t (fst kr))) t)" by (simp add: image_mset.compositionality comp_def)
  also have "map (\<lambda>kr. the (map_of t (fst kr))) t = map snd t"
    using assms(2) by (auto simp: map_of_Some_iff intro!: map_cong)
  finally show ?thesis .
qed

lemma mset_scan_filter:
  "\<lbrakk>scans_all E; distinct (map fst t)\<rbrakk> \<Longrightarrow> mset (filter P (scanned (scan E n) t)) = mset (rows_where P t)"
  by (simp add: mset_filter mset_scanned rows_where_def)

text \<open>All objects of the projection, and all its relations.\<close>

definition listed_objects :: "('x, 'z) env_scheme \<Rightarrow> string \<Rightarrow> string \<Rightarrow> tables \<Rightarrow> 'x object list" where
  "listed_objects E sc rid d = map (object_of E) (vertex_rows sc rid d)"

definition listed_relations :: "('x, 'z) env_scheme \<Rightarrow> string \<Rightarrow> string \<Rightarrow> tables \<Rightarrow> 'x relation list" where
  "listed_relations E sc rid d = map (relation_of E) (edge_rows sc rid d)"

lemma vertex_rows_decode:
  assumes "graph_ok E d" and "r \<in> set (vertex_rows sc rid d)"
  shows "ob_id (object_of E r) = object_id r" "object_type r = Some (ob_type (object_of E r))"
proof -
  have "r \<in> set (rows_where (present_in sc rid) (ag_vertex d))" "present_in sc rid r"
    using assms(2) by (auto simp: vertex_rows_def in_rows_where)
  then have "object_from_record E r = Inr (object_of E r)"
    using object_of_decodes(1)[OF assms(1)] by blast
  then show "ob_id (object_of E r) = object_id r" "object_type r = Some (ob_type (object_of E r))"
    using object_of_fields by blast+
qed

lemma edge_rows_decode:
  assumes "graph_ok E d" and "r \<in> set (edge_rows sc rid d)"
  shows "re_id (relation_of E r) = relation_id r" "re_source (relation_of E r) = source r"
    "re_target (relation_of E r) = target r" "re_type (relation_of E r) = relation_type r"
proof -
  have "record_to_relation E r = Inr (relation_of E r)"
    using relation_of_decodes(1)[OF assms(1)] assms(2) by (auto simp: edge_rows_def)
  then show "re_id (relation_of E r) = relation_id r" "re_source (relation_of E r) = source r"
    "re_target (relation_of E r) = target r" "re_type (relation_of E r) = relation_type r"
    using relation_of_fields by blast+
qed

lemma vertex_query_ok:
  assumes ok: "graph_ok E d" and P: "\<And>r. r \<in> set (vertex_rows sc rid d) \<Longrightarrow> P r \<longleftrightarrow> Q (object_of E r)"
  shows "objects_of_rows E (ordered_vertices (\<lambda>r. present_in sc rid r \<and> P r) d) = Inr (filter Q (listed_objects E sc rid d))"
proof -
  have "objects_of_rows E (filter P (vertex_rows sc rid d)) = Inr (map (object_of E) (filter P (vertex_rows sc rid d)))"
    by (rule objects_of_rows_ok[OF ok]) auto
  moreover have "filter P (vertex_rows sc rid d) = filter (Q \<circ> object_of E) (vertex_rows sc rid d)"
    by (rule filter_cong) (use P in auto)
  ultimately show ?thesis
    by (simp add: ordered_vertices_and vertex_rows_def[symmetric] listed_objects_def filter_map)
qed

lemma edge_query_ok:
  assumes ok: "graph_ok E d" and P: "\<And>r. r \<in> set (edge_rows sc rid d) \<Longrightarrow> P r \<longleftrightarrow> Q (relation_of E r)"
  shows "relations_of_rows E (ordered_relations (\<lambda>r. edge_of sc rid r \<and> P r) d) = Inr (filter Q (listed_relations E sc rid d))"
proof -
  have "relations_of_rows E (filter P (edge_rows sc rid d)) = Inr (map (relation_of E) (filter P (edge_rows sc rid d)))"
    by (rule relations_of_rows_ok[OF ok, where P = "edge_of sc rid"]) (auto simp: edge_rows_def)
  moreover have "filter P (edge_rows sc rid d) = filter (Q \<circ> relation_of E) (edge_rows sc rid d)"
    by (rule filter_cong) (use P in auto)
  ultimately show ?thesis
    by (simp add: ordered_relations_and edge_rows_def[symmetric] listed_relations_def filter_map)
qed

lemma wp_all_objects_calm:
  assumes c: "calm E" and s: "served E s" and ok: "graph_ok E (db s)"
  shows "wp (all_objects E) Q R s = Q (listed_objects E (gs_scope s) (gs_run s) (db s)) (s\<lparr>tick := tick s + 2\<rparr>)"
proof -
  have "objects_of_rows E (ordered_vertices (present_in (gs_scope s) (gs_run s)) (db s)) =
      Inr (listed_objects E (gs_scope s) (gs_run s) (db s))"
    using objects_of_rows_ok[OF ok order_refl, of "gs_scope s" "gs_run s"]
    by (simp add: listed_objects_def vertex_rows_def)
  then show ?thesis
    by (simp add: all_objects_def wp_bnd wp_with_self wp_lift wp_assert_readable_calm[OF c s]
        wp_select_vertices_calm[OF c] served_open[OF s])
qed

lemma wp_all_relations_calm:
  assumes c: "calm E" and s: "served E s" and ok: "graph_ok E (db s)"
  shows "wp (all_relations E) Q R s = Q (listed_relations E (gs_scope s) (gs_run s) (db s)) (s\<lparr>tick := tick s + 2\<rparr>)"
proof -
  have "relations_of_rows E (ordered_relations (edge_of (gs_scope s) (gs_run s)) (db s)) =
      Inr (listed_relations E (gs_scope s) (gs_run s) (db s))"
    using relations_of_rows_ok[OF ok, of "edge_rows (gs_scope s) (gs_run s) (db s)" "edge_of (gs_scope s) (gs_run s)"]
    by (simp add: listed_relations_def edge_rows_def)
  then show ?thesis
    by (simp add: all_relations_def wp_bnd wp_with_self wp_lift wp_assert_readable_calm[OF c s]
        wp_select_relations_calm[OF c] served_open[OF s])
qed

lemma of_type_wanted:
  "\<lbrakk>graph_ok E d; r \<in> set (vertex_rows sc rid d)\<rbrakk> \<Longrightarrow> of_type ty r \<longleftrightarrow> wanted ty (ob_type (object_of E r))"
  using vertex_rows_decode(2) by (fastforce simp: of_type_def wanted_def split: option.split)

lemma traverse_take: "traverse f xs = Inr ys \<Longrightarrow> traverse f (take m xs) = Inr (take m ys)"
proof (induction xs arbitrary: m ys)
  case Nil
  then show ?case by simp
next
  case (Cons x xs)
  then show ?case by (cases m) auto
qed

lemma wp_select_objects_calm:
  assumes c: "calm E" and s: "gs_open s" and ok: "graph_ok E (db s)" and n: "case limit of None \<Rightarrow> True | Some n \<Rightarrow> 0 \<le> n"
    and xs: "xs = filter (\<lambda>x. wanted ty (ob_type x)) (listed_objects E (gs_scope s) (gs_run s) (db s))"
  shows "wp (select_objects E ty limit) Q R s =
    Q (case limit of None \<Rightarrow> xs | Some n \<Rightarrow> take (nat n) xs) (s\<lparr>tick := Suc (tick s)\<rparr>)"
proof -
  let ?rs = "ordered_vertices (\<lambda>r. present_in (gs_scope s) (gs_run s) r \<and> of_type ty r) (db s)"
  have all: "objects_of_rows E ?rs = Inr xs"
    unfolding xs by (rule vertex_query_ok[OF ok]) (rule of_type_wanted[OF ok])
  then have "objects_of_rows E (take m ?rs) = Inr (take m xs)" for m
    by (simp add: objects_of_rows_def traverse_take)
  with all show ?thesis
    by (simp add: select_objects_def wp_bnd wp_with_self wp_lift wp_select_vertices_calm[OF c s n] split: option.split)
qed

lemma wp_find_objects_calm:
  assumes c: "calm E" and s: "served E s" and ok: "graph_ok E (db s)"
  shows "wp (find_objects E ty) Q R s =
    Q (filter (\<lambda>x. wanted ty (ob_type x)) (listed_objects E (gs_scope s) (gs_run s) (db s))) (s\<lparr>tick := tick s + 2\<rparr>)"
  by (simp add: find_objects_def wp_bnd wp_assert_readable_calm[OF c s] wp_select_objects_calm[OF c _ _ _ refl] ok served_open[OF s])

lemma wp_find_objects_in_types_calm:
  assumes c: "calm E" and s: "served E s" and ok: "graph_ok E (db s)" and ne: "types \<noteq> []"
  shows "wp (find_objects_in_types E types) Q R s =
    Q (filter (\<lambda>x. ob_type x \<in> set types) (listed_objects E (gs_scope s) (gs_run s) (db s))) (s\<lparr>tick := tick s + 2\<rparr>)"
proof -
  have "objects_of_rows E (ordered_vertices (\<lambda>r. present_in (gs_scope s) (gs_run s) r \<and> object_type r \<in> Some ` set types) (db s)) =
      Inr (filter (\<lambda>x. ob_type x \<in> set types) (listed_objects E (gs_scope s) (gs_run s) (db s)))"
    by (rule vertex_query_ok[OF ok]) (use vertex_rows_decode(2)[OF ok] in fastforce)
  then show ?thesis
    using ne by (simp add: find_objects_in_types_def wp_bnd wp_with_self wp_lift wp_assert_readable_calm[OF c s]
        wp_select_vertices_calm[OF c] served_open[OF s])
qed

lemma wp_find_relations_calm:
  assumes c: "calm E" and s: "served E s" and ok: "graph_ok E (db s)"
  shows "wp (find_relations E src tgt ty) Q R s =
    Q (filter (\<lambda>x. wanted src (re_source x) \<and> wanted tgt (re_target x) \<and> wanted ty (re_type x))
        (listed_relations E (gs_scope s) (gs_run s) (db s))) (s\<lparr>tick := tick s + 2\<rparr>)"
proof -
  have "relations_of_rows E (ordered_relations (\<lambda>r. edge_of (gs_scope s) (gs_run s) r
        \<and> (wanted src (source r) \<and> wanted tgt (target r) \<and> wanted ty (relation_type r))) (db s)) =
      Inr (filter (\<lambda>x. wanted src (re_source x) \<and> wanted tgt (re_target x) \<and> wanted ty (re_type x))
        (listed_relations E (gs_scope s) (gs_run s) (db s)))"
    by (rule edge_query_ok[OF ok]) (use edge_rows_decode[OF ok] in auto)
  then show ?thesis
    by (simp add: find_relations_def wp_bnd wp_with_self wp_lift wp_assert_readable_calm[OF c s]
        wp_select_relations_calm[OF c] served_open[OF s])
qed

lemma wp_object_exists_calm:
  assumes c: "calm E" and s: "gs_open s" and ok: "graph_ok E (db s)" and sc: "scans_all E"
  shows "wp (object_exists E ty) Q R s =
    Q (\<exists>x\<in>set (listed_objects E (gs_scope s) (gs_run s) (db s)). wanted ty (ob_type x)) (s\<lparr>tick := Suc (tick s)\<rparr>)"
proof -
  let ?P = "\<lambda>r. present_in (gs_scope s) (gs_run s) r \<and> of_type ty r"
  have "distinct (map fst (ag_vertex (db s)))" using ok by (simp add: graph_ok_def keyed_def)
  then have "mset (filter ?P (scanned (scan E (tick s)) (ag_vertex (db s)))) = mset (rows_where ?P (ag_vertex (db s)))"
    by (rule mset_scan_filter[OF sc])
  then have "filter ?P (scanned (scan E (tick s)) (ag_vertex (db s))) = [] \<longleftrightarrow> rows_where ?P (ag_vertex (db s)) = []"
    by (metis mset_zero_iff)
  also have "rows_where ?P (ag_vertex (db s)) = [] \<longleftrightarrow> filter (of_type ty) (vertex_rows (gs_scope s) (gs_run s) (db s)) = []"
    by (simp add: rows_where_and vertex_rows_def filter_empty_conv)
  also have "\<dots> \<longleftrightarrow> \<not> (\<exists>x\<in>set (listed_objects E (gs_scope s) (gs_run s) (db s)). wanted ty (ob_type x))"
    using of_type_wanted[OF ok] by (auto simp: filter_empty_conv listed_objects_def)
  finally show ?thesis
    by (simp add: object_exists_def wp_rules gs_openD[OF s] select_one_vertex_def wp_reading_calm[OF c])
qed

section \<open>The neighborhood walk\<close>

text \<open>The undirected graph of a list of relations, and the ids at distance at most \<open>n\<close> from one.\<close>

definition linked :: "'x relation list \<Rightarrow> (string \<times> string) set" where
  "linked rels = {(a, b). \<exists>x\<in>set rels. re_source x = a \<and> re_target x = b \<or> re_source x = b \<and> re_target x = a}"

definition within :: "'x relation list \<Rightarrow> nat \<Rightarrow> string \<Rightarrow> string set" where
  "within rels n i = {j. \<exists>m\<le>n. (i, j) \<in> linked rels ^^ m}"

lemma within_0 [simp]: "within rels 0 i = {i}"
  by (auto simp: within_def)

lemma within_Suc: "within rels (Suc n) i = within rels n i \<union> linked rels `` within rels n i"
proof -
  have "j \<in> within rels (Suc n) i \<longleftrightarrow> j \<in> within rels n i \<union> linked rels `` within rels n i" for j
  proof
    assume "j \<in> within rels (Suc n) i"
    then obtain m where m: "m \<le> Suc n" "(i, j) \<in> linked rels ^^ m" by (auto simp: within_def)
    show "j \<in> within rels n i \<union> linked rels `` within rels n i"
    proof (cases m)
      case 0
      then show ?thesis using m(2) by (auto simp: within_def)
    next
      case (Suc k)
      then obtain l where "(i, l) \<in> linked rels ^^ k" "(l, j) \<in> linked rels" using m(2) by auto
      then show ?thesis using m(1) Suc by (auto simp: within_def)
    qed
  next
    assume "j \<in> within rels n i \<union> linked rels `` within rels n i"
    then consider m where "m \<le> n" "(i, j) \<in> linked rels ^^ m"
      | m k where "m \<le> n" "(i, k) \<in> linked rels ^^ m" "(k, j) \<in> linked rels"
      by (auto simp: within_def)
    then show "j \<in> within rels (Suc n) i"
    proof cases
      case 1
      then show ?thesis unfolding within_def using le_SucI by blast
    next
      case 2
      then have "(i, j) \<in> linked rels ^^ Suc m" by auto
      then show ?thesis unfolding within_def using 2(1) Suc_le_mono by blast
    qed
  qed
  then show ?thesis by blast
qed

definition links :: "relation_row list \<Rightarrow> (string \<times> string) set" where
  "links rs = {(a, b). \<exists>r\<in>set rs. source r = a \<and> target r = b \<or> source r = b \<and> target r = a}"

lemma linked_rows: "graph_ok E d \<Longrightarrow> linked (listed_relations E sc rid d) = links (edge_rows sc rid d)"
  unfolding linked_def links_def listed_relations_def by (auto simp: edge_rows_decode)

definition touching :: "relation_row list \<Rightarrow> string set \<Rightarrow> string set" where
  "touching rs X = relation_id ` {r \<in> set rs. source r \<in> X \<or> target r \<in> X}"

definition grown :: "(string \<times> string) set \<Rightarrow> nat \<Rightarrow> string set \<Rightarrow> string set" where
  "grown D n X = ((\<lambda>X. X \<union> D `` X) ^^ n) X"

lemma grown_simps: "grown D 0 X = X" "grown D (Suc n) X = grown D n (X \<union> D `` X)"
  by (simp add: grown_def, simp only: grown_def funpow_Suc_right comp_apply)

lemma grown_stable: "D `` X \<subseteq> X \<Longrightarrow> grown D n X = X"
  by (induction n) (auto simp: grown_simps Un_absorb2)

lemma within_grown: "within rels n i = grown (linked rels) n {i}"
  by (induction n) (simp_all add: within_Suc grown_def)

text \<open>
  One level: from the expanded ids \<open>P\<close> and the seen ids \<open>S\<close>, of which \<open>S - P\<close> is the frontier, to the
  expanded ids \<open>S\<close> and the seen ids \<open>S\<close> with all their neighbors.
\<close>

lemma new_endpoints_level:
  assumes "P \<subseteq> set seen" and "links rs `` P \<subseteq> set seen"
    and level: "set level = {r \<in> set rs. source r \<in> set seen - P \<or> target r \<in> set seen - P}"
  shows "set (new_endpoints seen level) = links rs `` set seen - set seen"
    and "relation_id ` set level \<union> touching rs P = touching rs (set seen)"
proof -
  have "set (new_endpoints seen level) = links rs `` (set seen - P) - set seen"
    by (auto simp: new_endpoints_def level links_def)
  then show "set (new_endpoints seen level) = links rs `` set seen - set seen"
    using assms(1,2) unfolding Image_def by blast
  show "relation_id ` set level \<union> touching rs P = touching rs (set seen)"
    using assms(1) unfolding touching_def level by auto
qed

lemma wp_walk_calm:
  assumes c: "calm E" and s: "gs_open s" and rs: "rs = edge_rows (gs_scope s) (gs_run s) (db s)"
  shows "\<lbrakk>P \<subseteq> set seen; links rs `` P \<subseteq> set seen; set frontier = set seen - P; set ids = touching rs P\<rbrakk> \<Longrightarrow>
    \<exists>t seen' ids'. (\<forall>Q R. wp (walk E n seen frontier ids) Q R (s\<lparr>tick := t0\<rparr>) = Q (seen', ids') (s\<lparr>tick := t\<rparr>))
      \<and> set seen' = grown (links rs) n (set seen)
      \<and> set ids' = touching rs (if n = 0 then P else grown (links rs) (n - 1) (set seen))"
proof (induction n arbitrary: P seen frontier ids t0)
  case 0
  then show ?case by (auto simp: wp_rules grown_simps)
next
  case (Suc n)
  show ?case
  proof (cases "frontier = []")
    case True
    then have "P = set seen" using Suc.prems(1,3) by auto
    with Suc.prems(2,4) True show ?thesis
      by (intro exI[of _ t0] exI[of _ seen] exI[of _ ids]) (simp add: wp_rules grown_stable)
  next
    case False
    let ?level = "ordered_relations (\<lambda>r. edge_of (gs_scope s) (gs_run s) r
        \<and> (source r \<in> set frontier \<or> target r \<in> set frontier)) (db s)"
    let ?next = "new_endpoints seen ?level"
    have level: "set ?level = {r \<in> set rs. source r \<in> set seen - P \<or> target r \<in> set seen - P}"
      by (auto simp: ordered_relations_and rs edge_rows_def Suc.prems(3) in_rows_where)
    note next_ids = new_endpoints_level[OF Suc.prems(1,2) level]
    let ?S = "set seen \<union> links rs `` set seen"
    have S: "set (seen @ ?next) = ?S" using next_ids(1) by auto
    have "\<exists>t seen' ids'. (\<forall>Q R. wp (walk E n (seen @ ?next) ?next (remdups (ids @ map relation_id ?level))) Q R (s\<lparr>tick := Suc t0\<rparr>) =
          Q (seen', ids') (s\<lparr>tick := t\<rparr>))
        \<and> set seen' = grown (links rs) n ?S
        \<and> set ids' = touching rs (if n = 0 then set seen else grown (links rs) (n - 1) ?S)"
      unfolding S[symmetric]
      by (rule Suc.IH) (use next_ids Suc.prems(4) in auto)
    then obtain t seen' ids' where *: "\<And>Q R. wp (walk E n (seen @ ?next) ?next (remdups (ids @ map relation_id ?level))) Q R (s\<lparr>tick := Suc t0\<rparr>) =
          Q (seen', ids') (s\<lparr>tick := t\<rparr>)"
        "set seen' = grown (links rs) n ?S"
        "set ids' = touching rs (if n = 0 then set seen else grown (links rs) (n - 1) ?S)"
      by blast
    have "wp (walk E (Suc n) seen frontier ids) Q R (s\<lparr>tick := t0\<rparr>) = Q (seen', ids') (s\<lparr>tick := t\<rparr>)" for Q R
      using False s *(1) by (simp add: wp_bnd wp_with_self wp_select_relations_calm[OF c] Let_def)
    moreover have "(if n = 0 then set seen else grown (links rs) (n - 1) ?S) = grown (links rs) n (set seen)"
      by (cases n) (simp_all add: grown_simps)
    ultimately show ?thesis
      using *(2,3) by (intro exI[of _ t] exI[of _ seen'] exI[of _ ids']) (simp add: grown_simps)
  qed
qed

section \<open>Single reads\<close>

lemma graph_vertex_decodes:
  "\<lbrakk>graph_ok E d; map_of (ag_vertex d) k = Some r; object_present r\<rbrakk> \<Longrightarrow> \<exists>x. object_from_record E r = Inr x"
  by (drule (1) graph_ok_vertexD) (simp add: vertex_ok_def)

lemma wp_get_object_calm:
  assumes c: "calm E" and s: "served E s" and ok: "graph_ok E (db s)"
    and own: "own_vertex E (gs_scope s) (gs_run s) i (db s)"
  shows "wp (get_object E i) Q R s = Q (g_object (graph_of E (gs_scope s) (gs_run s) (db s)) i) (s\<lparr>tick := tick s + 2\<rparr>)"
proof (cases "map_of (ag_vertex (db s)) (vertex_key E (gs_scope s) (gs_run s) i)")
  case None
  then show ?thesis
    by (simp add: get_object_def wp_rules wp_assert_readable_calm[OF c s] gs_openD[OF served_open[OF s]]
        select_vertex_def wp_reading_calm[OF c] graph_of_def)
next
  case (Some r)
  then show ?thesis
    using own graph_vertex_decodes[OF ok Some]
    by (auto simp add: get_object_def wp_rules wp_assert_readable_calm[OF c s] gs_openD[OF served_open[OF s]]
        select_vertex_def wp_reading_calm[OF c] graph_of_def own_vertex_def decoded_def)
qed

lemma wp_get_relation_calm:
  assumes c: "calm E" and s: "served E s" and ok: "graph_ok E (db s)"
    and own: "own_relation E (gs_scope s) (gs_run s) i (db s)"
  shows "wp (get_relation E i) Q R s = Q (g_relation (graph_of E (gs_scope s) (gs_run s) (db s)) i) (s\<lparr>tick := tick s + 2\<rparr>)"
proof (cases "map_of (ag_relation (db s)) (relation_key E (gs_scope s) (gs_run s) i)")
  case None
  then show ?thesis
    by (simp add: get_relation_def wp_rules wp_assert_readable_calm[OF c s] gs_openD[OF served_open[OF s]]
        select_relation_def wp_reading_calm[OF c] graph_of_def)
next
  case (Some r)
  then obtain x where "record_to_relation E r = Inr x" using ok unfolding graph_ok_iff by blast
  with Some show ?thesis
    using own
    by (auto simp add: get_relation_def wp_rules wp_assert_readable_calm[OF c s] gs_openD[OF served_open[OF s]]
        select_relation_def wp_reading_calm[OF c] graph_of_def own_relation_def decoded_def)
qed

section \<open>The neighborhood\<close>

lemma edge_rows_unique:
  assumes "graph_ok E d" and "r \<in> set (edge_rows sc rid d)" "q \<in> set (edge_rows sc rid d)" "relation_id r = relation_id q"
  shows "r = q"
proof -
  have "relation_row_key E r = relation_row_key E q"
    using assms(2-4) by (auto simp: edge_rows_def in_rows_where edge_of_def relation_row_key_def)
  moreover have "map_of (ag_relation d) (relation_row_key E r) = Some r" "map_of (ag_relation d) (relation_row_key E q) = Some q"
    using relation_of_decodes(2)[OF assms(1)] assms(2,3) by (auto simp: edge_rows_def)
  ultimately show ?thesis by (metis option.inject)
qed

lemma in_touching:
  "\<lbrakk>graph_ok E d; rs = edge_rows sc rid d; r \<in> set rs\<rbrakk> \<Longrightarrow>
   relation_id r \<in> touching rs X \<longleftrightarrow> source r \<in> X \<or> target r \<in> X"
proof -
  assume ok: "graph_ok E d" and rs: "rs = edge_rows sc rid d" and r: "r \<in> set rs"
  have "q = r" if "q \<in> set rs" "relation_id r = relation_id q" for q
    using edge_rows_unique[OF ok, of q sc rid r] that r by (simp add: rs)
  then show ?thesis using r unfolding touching_def by auto
qed

lemma wp_objects_by_ids_calm:
  assumes c: "calm E" and s: "gs_open s" and ok: "graph_ok E (db s)"
  shows "wp (objects_by_logical_ids E ids) Q R s =
    Q (filter (\<lambda>x. ob_id x \<in> set ids) (listed_objects E (gs_scope s) (gs_run s) (db s)))
      (s\<lparr>tick := (if ids = [] then tick s else Suc (tick s))\<rparr>)"
proof (cases "ids = []")
  case True
  then show ?thesis by (simp add: objects_by_logical_ids_def wp_rules)
next
  case False
  have "objects_of_rows E (ordered_vertices (\<lambda>r. present_in (gs_scope s) (gs_run s) r \<and> object_id r \<in> set ids) (db s)) =
      Inr (filter (\<lambda>x. ob_id x \<in> set ids) (listed_objects E (gs_scope s) (gs_run s) (db s)))"
    by (rule vertex_query_ok[OF ok]) (use vertex_rows_decode(1)[OF ok] in auto)
  with False show ?thesis
    by (simp add: objects_by_logical_ids_def wp_bnd wp_with_self wp_lift wp_select_vertices_calm[OF c s])
qed

lemma wp_relations_by_ids_calm:
  assumes c: "calm E" and s: "gs_open s" and ok: "graph_ok E (db s)" and sc: "scans_all E"
    and ids: "set ids = touching (edge_rows (gs_scope s) (gs_run s) (db s)) X"
  shows "\<exists>t ys. (\<forall>Q R. wp (relations_by_logical_ids E ids) Q R s = Q ys (s\<lparr>tick := t\<rparr>))
    \<and> mset ys = mset (filter (\<lambda>x. re_source x \<in> X \<or> re_target x \<in> X) (listed_relations E (gs_scope s) (gs_run s) (db s)))"
proof -
  let ?L = "edge_rows (gs_scope s) (gs_run s) (db s)"
  let ?P = "\<lambda>r. edge_of (gs_scope s) (gs_run s) r \<and> relation_id r \<in> set ids"
  let ?F = "\<lambda>x. re_source x \<in> X \<or> re_target x \<in> X"
  have hit: "filter (\<lambda>r. relation_id r \<in> set ids) ?L = filter (?F \<circ> relation_of E) ?L"
    by (rule filter_cong) (use in_touching[OF ok refl] edge_rows_decode[OF ok] ids in auto)
  show ?thesis
  proof (cases "ids = []")
    case True
    then have "filter ?F (listed_relations E (gs_scope s) (gs_run s) (db s)) = []"
      using hit by (simp add: listed_relations_def filter_map)
    then show ?thesis using True
      by (intro exI[of _ "tick s"] exI[of _ "[]"]) (simp add: relations_by_logical_ids_def wp_rules)
  next
    case False
    let ?rows = "filter ?P (scanned (scan E (tick s)) (ag_relation (db s)))"
    have "distinct (map fst (ag_relation (db s)))" using ok by (simp add: graph_ok_def keyed_def)
    then have m: "mset ?rows = mset (rows_where ?P (ag_relation (db s)))"
      by (rule mset_scan_filter[OF sc])
    also have "rows_where ?P (ag_relation (db s)) = filter (\<lambda>r. relation_id r \<in> set ids) (rows_where (edge_of (gs_scope s) (gs_run s)) (ag_relation (db s)))"
      by (rule rows_where_and)
    also have "mset \<dots> = mset (filter (\<lambda>r. relation_id r \<in> set ids) ?L)"
      by (simp add: edge_rows_def ordered_relations_def mset_filter)
    finally have rows: "mset ?rows = mset (filter (?F \<circ> relation_of E) ?L)" by (simp add: hit)
    have "relations_of_rows E ?rows = Inr (map (relation_of E) ?rows)"
      by (rule relations_of_rows_ok[OF ok]) (use mset_eq_setD[OF m] in auto)
    then have "wp (relations_by_logical_ids E ids) Q R s = Q (map (relation_of E) ?rows) (s\<lparr>tick := Suc (tick s)\<rparr>)" for Q R
      using False by (simp add: relations_by_logical_ids_def wp_rules gs_openD[OF s] select_relations_unordered_def wp_reading_calm[OF c])
    moreover have "mset (map (relation_of E) ?rows) = mset (filter ?F (listed_relations E (gs_scope s) (gs_run s) (db s)))"
      using rows by (simp add: listed_relations_def filter_map del: mset_filter)
    ultimately show ?thesis by blast
  qed
qed

lemma wp_relations_by_ids_at:
  assumes c: "calm E" and s: "gs_open s" and ok: "graph_ok E (db s)" and sc: "scans_all E"
    and ids: "set ids = touching (edge_rows (gs_scope s) (gs_run s) (db s)) X"
  shows "\<exists>t ys. (\<forall>Q R. wp (relations_by_logical_ids E ids) Q R (s\<lparr>tick := t0\<rparr>) = Q ys (s\<lparr>tick := t\<rparr>))
    \<and> mset ys = mset (filter (\<lambda>x. re_source x \<in> X \<or> re_target x \<in> X) (listed_relations E (gs_scope s) (gs_run s) (db s)))"
  using wp_relations_by_ids_calm[of E "s\<lparr>tick := t0\<rparr>" ids X] assms by simp

lemma wp_prod: "wp (case x of (a, b) \<Rightarrow> p a b) Q R s = (case x of (a, b) \<Rightarrow> wp (p a b) Q R s)"
  by (cases x) simp

lemma wp_neighborhood_calm:
  assumes c: "calm E" and s: "served E s" and ok: "graph_ok E (db s)" and sc: "scans_all E"
    and own: "own_vertex E (gs_scope s) (gs_run s) i (db s)"
  defines "rels \<equiv> listed_relations E (gs_scope s) (gs_run s) (db s)"
    and "near \<equiv> \<lambda>n. within (listed_relations E (gs_scope s) (gs_run s) (db s)) n i"
  shows "\<exists>t ys. (\<forall>Q R. wp (neighborhood E i depth) Q R s = Q
      (if g_object (graph_of E (gs_scope s) (gs_run s) (db s)) i = None then [] else
         filter (\<lambda>x. ob_id x \<in> near (nat depth)) (listed_objects E (gs_scope s) (gs_run s) (db s)), ys) (s\<lparr>tick := t\<rparr>))
    \<and> mset ys = (if g_object (graph_of E (gs_scope s) (gs_run s) (db s)) i = None \<or> depth \<le> 0 then {#} else
        mset (filter (\<lambda>x. re_source x \<in> near (nat depth - 1) \<or> re_target x \<in> near (nat depth - 1)) rels))"
proof (cases "g_object (graph_of E (gs_scope s) (gs_run s) (db s)) i")
  case None
  then show ?thesis
    by (intro exI[of _ "tick s + 3"] exI[of _ "[]"])
      (simp add: neighborhood_def wp_rules wp_assert_readable_calm[OF c s] wp_get_object_calm[OF c] s ok own eval_nat_numeral)
next
  case (Some x)
  let ?sc = "gs_scope s" and ?rid = "gs_run s"
  let ?L = "edge_rows ?sc ?rid (db s)"
  have l: "linked rels = links ?L" unfolding rels_def by (rule linked_rows[OF ok])
  have near: "near n = grown (links ?L) n {i}" for n
    unfolding near_def within_grown l[unfolded rels_def] ..
  obtain t seen ids where walk: "\<And>Q R. wp (walk E (nat depth) [i] [i] []) Q R (s\<lparr>tick := tick s + 3\<rparr>) = Q (seen, ids) (s\<lparr>tick := t\<rparr>)"
    and seen: "set seen = near (nat depth)"
    and ids: "set ids = touching ?L (if nat depth = 0 then {} else near (nat depth - 1))"
  proof -
    have "\<exists>t seen' ids'. (\<forall>Q R. wp (walk E (nat depth) [i] [i] []) Q R (s\<lparr>tick := tick s + 3\<rparr>) = Q (seen', ids') (s\<lparr>tick := t\<rparr>))
        \<and> set seen' = grown (links ?L) (nat depth) (set [i])
        \<and> set ids' = touching ?L (if nat depth = 0 then {} else grown (links ?L) (nat depth - 1) (set [i]))"
      by (rule wp_walk_calm[OF c served_open[OF s] refl]) (simp_all add: touching_def)
    then show thesis using that unfolding near by (metis list.set(1) list.set(2))
  qed
  have o: "gs_open s" by (rule served_open[OF s])
  have "i \<in> near n" for n by (auto simp: near_def within_def intro!: exI[of _ "0::nat"])
  with seen have ne: "seen \<noteq> []" by (metis empty_iff list.set(1))
  have depth: "nat (max depth 0) = nat depth" by simp
  let ?u = "s\<lparr>tick := Suc t\<rparr>"
  let ?X = "if nat depth = 0 then {} else near (nat depth - 1)"
  have "set ids = touching ?L ?X" using ids by simp
  from wp_relations_by_ids_at[OF c o ok sc this, of "Suc t"]
  obtain t' ys where rel: "\<And>Q R. wp (relations_by_logical_ids E ids) Q R ?u = Q ys (s\<lparr>tick := t'\<rparr>)"
    and ys: "mset ys = mset (filter (\<lambda>x. re_source x \<in> ?X \<or> re_target x \<in> ?X) rels)"
    unfolding rels_def by blast
  have "wp (neighborhood E i depth) Q R s =
      Q (filter (\<lambda>x. ob_id x \<in> near (nat depth)) (listed_objects E ?sc ?rid (db s)), ys) (s\<lparr>tick := t'\<rparr>)" for Q R
  proof -
    let ?xs = "filter (\<lambda>x. ob_id x \<in> near (nat depth)) (listed_objects E ?sc ?rid (db s))"
    have "wp (objects_by_logical_ids E seen) Q R (s\<lparr>tick := t\<rparr>) = Q ?xs ?u" for Q R
      using wp_objects_by_ids_calm[OF c, of "s\<lparr>tick := t\<rparr>" seen] o ok ne by (simp add: seen)
    note objs = this
    let ?s1 = "s\<lparr>tick := Suc (tick s)\<rparr>"
    have get: "wp (get_object E i) Q R ?s1 = Q (Some x) (s\<lparr>tick := tick s + 3\<rparr>)" for Q R
      using wp_get_object_calm[OF c, of ?s1 i Q R] s ok own Some by (simp add: eval_nat_numeral)
    have walk': "wp (walk E (nat (max depth 0)) [i] [i] []) Q R (s\<lparr>tick := tick s + 3\<rparr>) = Q (seen, ids) (s\<lparr>tick := t\<rparr>)" for Q R
      unfolding depth by (rule walk)
    show ?thesis
      by (simp only: neighborhood_def wp_bnd wp_assert_readable_calm[OF c s] get wp_if option.distinct if_False
          walk' prod.case objs rel wp_ret)
  qed
  with Some ys show ?thesis
    by (intro exI[of _ t'] exI[of _ ys]) auto
qed

end
