(* ===== verification/Lifecycle.thy ===== *)
theory Lifecycle
  imports Reads Opening
begin

text \<open>
  The lifecycle of a projection: opening a store, clearing, rebuilding, and the marks that let it be
  read again. First the undisturbed runs, then what holds however requests fail.
\<close>

section \<open>Undisturbed\<close>

definition cleared :: "string \<Rightarrow> string \<Rightarrow> tables \<Rightarrow> tables" where
  "cleared sc rid d =
     (let gone = keys_where (in_vertices sc rid) (ag_vertex d) in
      d\<lparr>ag_patch := delete_where (patch_of sc rid) (ag_patch d),
        ag_vertex := delete_where (in_vertices sc rid) (ag_vertex d),
        ag_relation := delete_where (\<lambda>r. edge_in r \<in> set gone \<or> edge_out r \<in> set gone)
          (delete_where (edge_of sc rid) (ag_relation d))\<rparr>)"

lemma cleared_same [simp]:
  "ag_projection (cleared sc rid d) = ag_projection d" "ag_run (cleared sc rid d) = ag_run d"
  "ag_event (cleared sc rid d) = ag_event d" "ag_schema (cleared sc rid d) = ag_schema d"
  "defined (cleared sc rid d) = defined d"
  by (simp_all add: cleared_def Let_def)

lemma wp_clear_calm:
  assumes c: "calm E" and s: "gs_open s"
  shows "wp (gs_clear E) Q R s = Q () (s\<lparr>tick := tick s + 3, db := cleared (gs_scope s) (gs_run s) (db s)\<rparr>)"
  by (simp add: gs_clear_def wp_rules gs_openD[OF s] wp_request_calm[OF c] delete_relations_where_def
      delete_patches_where_def delete_vertices_where_def cleared_def Let_def eval_nat_numeral)

definition with_status :: "('x, 'z) env_scheme \<Rightarrow> string \<Rightarrow> string \<Rightarrow> string \<Rightarrow> string option \<Rightarrow> string \<Rightarrow> tables \<Rightarrow> tables" where
  "with_status E sc rid st err at d =
     d\<lparr>ag_projection := AList.update (projection_key E sc rid) (projection_content sc rid st err at) (ag_projection d)\<rparr>"

lemma with_status_same [simp]:
  "ag_vertex (with_status E sc rid st err at d) = ag_vertex d" "ag_relation (with_status E sc rid st err at d) = ag_relation d"
  "ag_patch (with_status E sc rid st err at d) = ag_patch d" "ag_run (with_status E sc rid st err at d) = ag_run d"
  "ag_event (with_status E sc rid st err at d) = ag_event d"
  by (simp_all add: with_status_def)

lemma has_status_with_status [simp]: "has_status E sc rid (with_status E sc rid st err at d) st' \<longleftrightarrow> st' = st"
  by (auto simp: has_status_def with_status_def projection_content_def)

lemma has_status_cleared [simp]: "has_status E sc rid (cleared sc' rid' d) st = has_status E sc rid d st"
  by (simp add: has_status_def)

lemma graph_ok_with_status: "graph_ok E d \<Longrightarrow> graph_ok E (with_status E sc rid st err at d)"
  unfolding with_status_def by (rule graph_ok_projection) (simp_all add: projection_row_key_def projection_content_def)

lemma graph_ok_cleared:
  assumes "graph_ok E d"
  shows "graph_ok E (cleared sc rid d)"
proof -
  let ?d = "(d\<lparr>ag_relation := delete_where (edge_of sc rid) (ag_relation d)\<rparr>)
    \<lparr>ag_patch := delete_where (patch_of sc rid) (ag_patch d)\<rparr>"
  have "graph_ok E ?d"
    using graph_ok_delete_patches[OF graph_ok_delete_relations[OF assms]] by simp
  then show ?thesis
    using graph_ok_delete_vertices[of E ?d _ "in_vertices sc rid"] by (simp add: cleared_def Let_def)
qed

lemma wp_set_status_calm:
  assumes c: "calm E" and s: "gs_open s" and k: "keyed (projection_row_key E) (ag_projection (db s))"
  shows "wp (set_projection_status E st err) Q R s = Q () (s\<lparr>tick := tick s + 1,
    db := with_status E (gs_scope s) (gs_run s) st err (clock E (tick s)) (db s)\<rparr>)"
proof -
  have "room_for projection_clash (projection_key E (gs_scope s) (gs_run s))
      (projection_content (gs_scope s) (gs_run s) st err (clock E (tick s))) (ag_projection (db s))"
    using projections.room[OF k, of "projection_content (gs_scope s) (gs_run s) st err (clock E (tick s))"]
    by (simp add: projection_row_key_def projection_content_def)
  then show ?thesis
    by (simp add: set_projection_status_def wp_rules gs_openD[OF s] wp_request_calm[OF c] upsert_projection_def with_status_def)
qed

lemma wp_begin_rebuild_calm:
  assumes c: "calm E" and s: "gs_open s" and k: "keyed (projection_row_key E) (ag_projection (db s))"
  shows "wp (begin_rebuild E) Q R s = Q () (s\<lparr>rebuilding_here := True, tick := tick s + 4,
    db := cleared (gs_scope s) (gs_run s) (with_status E (gs_scope s) (gs_run s) ''rebuilding'' None (clock E (tick s)) (db s))\<rparr>)"
  by (simp add: begin_rebuild_def wp_rules gs_openD[OF s] wp_set_status_calm[OF c s k] wp_clear_calm[OF c] s eval_nat_numeral)

lemma wp_marks_calm:
  assumes c: "calm E" and s: "gs_open s" and k: "keyed (projection_row_key E) (ag_projection (db s))"
  shows "wp (mark_ready E) Q R s = Q () (s\<lparr>tick := tick s + 1,
      db := with_status E (gs_scope s) (gs_run s) ''ready'' None (clock E (tick s)) (db s), rebuilding_here := False\<rparr>)"
    and "wp (mark_failed E why) Q R s = Q () (s\<lparr>tick := tick s + 1,
      db := with_status E (gs_scope s) (gs_run s) ''failed'' (Some (failure_detail why)) (clock E (tick s)) (db s), rebuilding_here := False\<rparr>)"
  by (simp_all add: mark_ready_def mark_failed_def wp_rules gs_openD[OF s] wp_set_status_calm[OF c s k])

text \<open>A cleared projection stands for the empty graph, up to rows of others under its keys.\<close>

definition empty_graph :: "'x graph" where
  "empty_graph = \<lparr>g_object = (\<lambda>_. None), g_relation = (\<lambda>_. None), g_patch = (\<lambda>_. None)\<rparr>"

lemma cleared_empty:
  assumes ok: "graph_ok E d" and sep: "separate E sc rid I d"
  shows "same_graph_on I (graph_of E sc rid (cleared sc rid d)) empty_graph"
    and "separate E sc rid I (cleared sc rid d)"
proof -
  have dist: "distinct (map fst (ag_vertex d))" "distinct (map fst (ag_relation d))" "distinct (map fst (ag_patch d))"
    using ok by (simp_all add: graph_ok_def keyed_def)
  let ?d = "cleared sc rid d"
  have v: "map_of (ag_vertex ?d) k = Some r \<Longrightarrow> map_of (ag_vertex d) k = Some r \<and> \<not> in_vertices sc rid r" for k r
    by (simp add: cleared_def Let_def map_of_delete_where[OF dist(1)] split: option.splits if_splits)
  have e: "map_of (ag_relation ?d) k = Some r \<Longrightarrow> map_of (ag_relation d) k = Some r \<and> \<not> edge_of sc rid r" for k r
    using dist(2) by (simp add: cleared_def Let_def map_of_delete_where split: option.splits if_splits)
  have p: "map_of (ag_patch ?d) k = Some r \<Longrightarrow> map_of (ag_patch d) k = Some r \<and> \<not> patch_of sc rid r" for k r
    by (simp add: cleared_def Let_def map_of_delete_where[OF dist(3)] split: option.splits if_splits)
  have none: "map_of (ag_vertex ?d) (vertex_key E sc rid i) = None" "map_of (ag_relation ?d) (relation_key E sc rid i) = None"
    "map_of (ag_patch ?d) (patch_key E sc rid i) = None" if "i \<in> I" for i
    using separate_own[OF sep that] v[of "vertex_key E sc rid i"] e[of "relation_key E sc rid i"] p[of "patch_key E sc rid i"]
    unfolding own_vertex_def own_relation_def own_patch_def in_vertices_def edge_of_def patch_of_def
    by (metis not_None_eq)+
  then show "same_graph_on I (graph_of E sc rid ?d) empty_graph"
    by (simp add: same_graph_on_def graph_of_def empty_graph_def)
  show "separate E sc rid I ?d"
    using sep none by (simp add: separate_def own_vertex_def own_relation_def own_patch_def)
qed

text \<open>The rows of another run are untouched when its edges join its own vertices.\<close>

definition edges_at_home :: "string \<Rightarrow> string \<Rightarrow> tables \<Rightarrow> bool" where
  "edges_at_home sc rid d \<longleftrightarrow> (\<forall>r\<in>set (rows_where (edge_of sc rid) (ag_relation d)).
     \<forall>v. map_of (ag_vertex d) (edge_in r) = Some v \<or> map_of (ag_vertex d) (edge_out r) = Some v \<longrightarrow> in_vertices sc rid v)"

lemma rows_where_cong: "(\<And>r. r \<in> snd ` set t \<Longrightarrow> P r \<longleftrightarrow> Q r) \<Longrightarrow> rows_where P t = rows_where Q t"
  unfolding rows_where_def by (rule filter_cong) auto

lemma cleared_others:
  assumes ok: "graph_ok E d" and home: "edges_at_home sc' rid' d" and other: "sc' \<noteq> sc \<or> rid' \<noteq> rid"
  shows "rows_where (in_vertices sc' rid') (ag_vertex (cleared sc rid d)) = rows_where (in_vertices sc' rid') (ag_vertex d)"
    and "rows_where (edge_of sc' rid') (ag_relation (cleared sc rid d)) = rows_where (edge_of sc' rid') (ag_relation d)"
    and "rows_where (patch_of sc' rid') (ag_patch (cleared sc rid d)) = rows_where (patch_of sc' rid') (ag_patch d)"
proof -
  have dist: "distinct (map fst (ag_vertex d))" using ok by (simp add: graph_ok_def keyed_def)
  show "rows_where (in_vertices sc' rid') (ag_vertex (cleared sc rid d)) = rows_where (in_vertices sc' rid') (ag_vertex d)"
    "rows_where (patch_of sc' rid') (ag_patch (cleared sc rid d)) = rows_where (patch_of sc' rid') (ag_patch d)"
    using other by (auto simp: cleared_def Let_def in_vertices_def patch_of_def intro!: rows_where_cong)
  let ?gone = "set (keys_where (in_vertices sc rid) (ag_vertex d))"
  have "edge_of sc' rid' r \<and> \<not> (edge_in r \<in> ?gone \<or> edge_out r \<in> ?gone) \<and> \<not> edge_of sc rid r \<longleftrightarrow> edge_of sc' rid' r"
    if "r \<in> snd ` set (ag_relation d)" for r
  proof (cases "edge_of sc' rid' r")
    case True
    then have "r \<in> set (rows_where (edge_of sc' rid') (ag_relation d))" using that by (auto simp: in_rows_where)
    then have "edge_in r \<notin> ?gone" "edge_out r \<notin> ?gone"
      using home other by (auto simp: edges_at_home_def in_keys_where[OF dist] in_vertices_def)
    then show ?thesis using True other by (auto simp: edge_of_def)
  qed simp
  then have "rows_where (\<lambda>r. edge_of sc' rid' r \<and> \<not> (edge_in r \<in> ?gone \<or> edge_out r \<in> ?gone) \<and> \<not> edge_of sc rid r) (ag_relation d)
      = rows_where (edge_of sc' rid') (ag_relation d)"
    by (rule rows_where_cong)
  then show "rows_where (edge_of sc' rid') (ag_relation (cleared sc rid d)) = rows_where (edge_of sc' rid') (ag_relation d)"
    by (simp add: cleared_def Let_def conj_ac)
qed

section \<open>Opening a store\<close>

text \<open>A database whose projection record of the run, if any, is the run's own.\<close>

definition projection_own :: "('x, 'z) env_scheme \<Rightarrow> string \<Rightarrow> string \<Rightarrow> tables \<Rightarrow> bool" where
  "projection_own E sc rid d \<longleftrightarrow> keyed (projection_row_key E) (ag_projection d)
     \<and> (\<forall>row. map_of (ag_projection d) (projection_key E sc rid) = Some row \<longrightarrow>
          projection_scope row = sc \<and> projection_run row = rid)"

definition with_projection :: "('x, 'z) env_scheme \<Rightarrow> string \<Rightarrow> string \<Rightarrow> string \<Rightarrow> tables \<Rightarrow> tables" where
  "with_projection E sc rid at d =
     (if map_of (ag_projection d) (projection_key E sc rid) = None then with_status E sc rid ''ready'' None at d else d)"

lemma wp_ensure_projection_calm:
  assumes c: "calm E" and s: "gs_open s" and own: "projection_own E (gs_scope s) (gs_run s) (db s)"
  shows "\<exists>n at. \<forall>Q R. wp (ensure_projection_record E) Q R s =
    Q () (s\<lparr>tick := n, db := with_projection E (gs_scope s) (gs_run s) at (db s)\<rparr>)"
proof (cases "map_of (ag_projection (db s)) (projection_key E (gs_scope s) (gs_run s))")
  case None
  have k: "keyed (projection_row_key E) (ag_projection (db s))" using own by (simp add: projection_own_def)
  have "creatable projection_clash (projection_key E (gs_scope s) (gs_run s))
      (projection_content (gs_scope s) (gs_run s) ''ready'' None at) (ag_projection (db s))" for at
    using projections.creatable_iff[OF k, of "projection_content (gs_scope s) (gs_run s) ''ready'' None at"] None
    by (simp add: projection_row_key_def projection_content_def)
  then have create: "create_projection (projection_key E (gs_scope s) (gs_run s))
      (projection_content (gs_scope s) (gs_run s) ''ready'' None at) e (db s) =
      Done () (with_projection E (gs_scope s) (gs_run s) at (db s)) nothing" for at e
    by (simp add: create_projection_def with_projection_def with_status_def None)
  show ?thesis
    by (intro exI[of _ "tick s + 2"] exI[of _ "clock E (Suc (tick s))"])
      (simp add: ensure_projection_record_def projection_row_def wp_rules gs_openD[OF s] select_projection_def
        wp_reading_calm[OF c] None wp_request_calm[OF c, where f = "create_projection k r" for k r] create)
next
  case (Some row)
  then show ?thesis
    using own
    by (intro exI[of _ "tick s + 1"])
      (simp add: ensure_projection_record_def projection_row_def wp_rules gs_openD[OF s] select_projection_def
        wp_reading_calm[OF c] projection_own_def with_projection_def)
qed

lemma fresh_graph_fields [simp]:
  "gs_scope (fresh_graph_store cfg rid sc s) = sc" "gs_run (fresh_graph_store cfg rid sc s) = rid"
  by (simp_all add: fresh_graph_store_def)

lemma new_graph_store_calm:
  assumes c: "calm E" and names: "rid \<noteq> []" "sc \<noteq> []" and o: "openable E cfg (db s)"
    and own: "projection_own E sc rid (db s)"
  shows "\<exists>g n at at'. new_graph_store E cfg rid sc s =
      (Inr g, s\<lparr>db := with_projection E sc rid at' (installed E at (db s)), tick := n\<rparr>)
    \<and> db g = with_projection E sc rid at' (installed E at (db s)) \<and> gs_scope g = sc \<and> gs_run g = rid
    \<and> gs_open g \<and> \<not> rebuilding_here g"
proof -
  let ?g = "fresh_graph_store cfg rid sc s"
  let ?g1 = "?g\<lparr>tick := tick s + 6, session_open := True\<rparr>"
  have ws: "blocking_websocket E (endpoint cfg)" and sane: "schema_sane E (db s)"
    and v: "case found_schema (db s) of None \<Rightarrow> True | Some row \<Rightarrow> version_ok row"
    using o by (auto simp: openable_def)
  have "wp (connection_init E) Q R ?g = Q () ?g1" for Q R
    using wp_connection_init_calm[OF c, of ?g] ws by (simp add: fresh_graph_store_def)
  moreover obtain n1 at where e: "ensure_schema E ?g1 = (Inr SCHEMA_VERSION,
      ?g1\<lparr>tick := n1, db := installed E at (db s), schema_ready := True\<rparr>)"
    using ensure_schema_calm[OF c, of ?g1] sane v by (auto simp: fresh_graph_store_def)
  let ?g2 = "?g1\<lparr>tick := n1, db := installed E at (db s), schema_ready := True\<rparr>"
  have g2: "gs_open ?g2" "gs_scope ?g2 = sc" "gs_run ?g2 = rid" "db ?g2 = installed E at (db s)"
    by (simp_all add: gs_open_def fresh_graph_store_def)
  moreover have "projection_own E (gs_scope ?g2) (gs_run ?g2) (db ?g2)"
    using own by (simp add: g2 projection_own_def)
  from wp_ensure_projection_calm[OF c g2(1) this]
  obtain n2 at' where "\<And>Q R. wp (ensure_projection_record E) Q R ?g2 =
      Q () (?g2\<lparr>tick := n2, db := with_projection E sc rid at' (installed E at (db s))\<rparr>)"
    unfolding g2 by blast
  ultimately have "wp (graph_store_init E) Q R ?g =
      Q () (?g2\<lparr>tick := n2, db := with_projection E sc rid at' (installed E at (db s))\<rparr>)" for Q R
    using names by (simp add: graph_store_init_def wp_rules wp_of_Inr[where p = "ensure_schema E", OF e])
  from wp_runs[OF this]
  have "new_graph_store E cfg rid sc s = (Inr (?g2\<lparr>tick := n2, db := with_projection E sc rid at' (installed E at (db s))\<rparr>),
      s\<lparr>db := with_projection E sc rid at' (installed E at (db s)), tick := n2\<rparr>)"
    by (simp add: new_graph_store_def making_def)
  then show ?thesis
    by (intro exI conjI, assumption) (simp_all add: gs_open_def fresh_graph_store_def)
qed

end
