(* ===== verification/GraphSample.thy ===== *)
theory GraphSample
  imports Sample Lifecycle
begin

text \<open>
  A projection for the witnesses: a database with the ready, empty projection of run \<open>r\<close> of scope \<open>s\<close>,
  a graph store on it, and the same after two objects, a relation and a patch were put.
\<close>

definition sample_projection :: tables where
  "sample_projection = empty_tables\<lparr>ag_projection :=
     [(projection_key sample_env ''s'' ''r'', projection_content ''s'' ''r'' ''ready'' None ''t'')]\<rparr>"

definition sample_graph :: graph_store where
  "sample_graph =
     \<lparr>db = sample_projection, tick = 0, settings = sample_config, link_closed = False, session_open = True,
      schema_ready = True, transaction = None, gs_scope = ''s'', gs_run = ''r'', gs_closed = False,
      rebuilding_here = False\<rparr>"

lemma sample_graph_fields [simp]:
  "db sample_graph = sample_projection" "tick sample_graph = 0" "gs_scope sample_graph = ''s''"
  "gs_run sample_graph = ''r''" "\<not> gs_closed sample_graph" "\<not> rebuilding_here sample_graph"
  by (simp_all add: sample_graph_def)

lemma sample_graph_open [simp]: "gs_open sample_graph"
  by (simp add: gs_open_def sample_graph_def)

lemma sample_graph_ok: "graph_ok sample_env sample_projection"
  by (simp add: graph_ok_def keyed_def sample_projection_def empty_tables_def projection_row_key_def projection_content_def)

lemma sample_graph_served [simp]: "served sample_env sample_graph"
  by (simp add: served_def has_status_def) (simp add: sample_projection_def projection_content_def)

definition sample_ids :: "string list" where
  "sample_ids = [''task#1'', ''note#2'', ''rel#3'', ''patch#4'']"

lemma sample_keys:
  "inj_on (vertex_key sample_env ''s'' ''r'') (set sample_ids)"
  "inj_on (relation_key sample_env ''s'' ''r'') (set sample_ids)"
  "inj_on (patch_key sample_env ''s'' ''r'') (set sample_ids)"
proof -
  have "distinct (map (vertex_key sample_env ''s'' ''r'') sample_ids)"
    "distinct (map (relation_key sample_env ''s'' ''r'') sample_ids)"
    "distinct (map (patch_key sample_env ''s'' ''r'') sample_ids)"
    by code_simp+
  then show "inj_on (vertex_key sample_env ''s'' ''r'') (set sample_ids)"
    "inj_on (relation_key sample_env ''s'' ''r'') (set sample_ids)"
    "inj_on (patch_key sample_env ''s'' ''r'') (set sample_ids)"
    by (simp_all add: distinct_map)
qed

lemma sample_separate: "separate sample_env ''s'' ''r'' (set sample_ids) sample_projection"
  unfolding separate_def
  by (intro conjI sample_keys)
    (simp add: own_vertex_def own_relation_def own_patch_def sample_projection_def empty_tables_def)

definition sample_task :: "unit object" where
  "sample_task = \<lparr>ob_id = ''task#1'', ob_type = ''task'', ob_data = PList [PLeaf (SInt 1)], ob_version = 1,
     ob_provenance = PLeaf SNull\<rparr>"

definition sample_note :: "unit object" where
  "sample_note = \<lparr>ob_id = ''note#2'', ob_type = ''note'', ob_data = PLeaf SNull, ob_version = 1,
     ob_provenance = PLeaf SNull\<rparr>"

definition sample_rel :: "unit relation" where
  "sample_rel = \<lparr>re_id = ''rel#3'', re_source = ''task#1'', re_target = ''note#2'', re_type = ''has'',
     re_data = PLeaf SNull, re_provenance = PLeaf SNull\<rparr>"

definition sample_patch :: "unit patch" where
  "sample_patch = \<lparr>pa_id = ''patch#4'', pa_target = ''task#1'', pa_op = ''set'', pa_value = PLeaf SNull,
     pa_expected_version = 1, pa_proposed_by = ''a'', pa_rationale = None, pa_evidence = [],
     pa_status = ''proposed'', pa_rejection_reason = None, pa_provenance = PLeaf SNull\<rparr>"

definition sample_calls :: "unit graph_op list" where
  "sample_calls = [PutObject sample_task, PutObject sample_note, PutRelation sample_rel, PutPatch sample_patch]"

lemma id_ok_iff: "id_ok i \<longleftrightarrow> (case object_counter i of Inl _ \<Rightarrow> False | Inr n \<Rightarrow> fits_int64 n)"
  by (auto simp: id_ok_def split: sum.split)

lemma sample_id_ok: "id_ok ''task#1''" "id_ok ''note#2''"
  unfolding id_ok_iff by code_simp+

lemma sample_task_norm: "norm_object sample_env sample_task = Inr sample_task"
  "norm_object sample_env sample_note = Inr sample_note"
  "norm_relation sample_env sample_rel = Inr sample_rel"
  "norm_patch sample_env sample_patch = Inr sample_patch"
  by code_simp+

definition encodes :: "exn + 'a \<Rightarrow> bool" where
  "encodes r = (case r of Inl _ \<Rightarrow> False | Inr _ \<Rightarrow> True)"

lemma encodesD: "encodes r \<Longrightarrow> \<exists>f. r = Inr f"
  by (simp add: encodes_def split: sum.splits)

lemma sample_encodes:
  "encodes (object_to_record sample_env sample_task)" "encodes (object_to_record sample_env sample_note)"
  "encodes (relation_to_record sample_env sample_rel)" "encodes (patch_to_record sample_env sample_patch)"
  by code_simp+

lemma sample_calls_ok: "list_all (op_ok sample_env (set sample_ids)) sample_calls"
proof -
  have ids: "ob_id sample_task = ''task#1''" "ob_id sample_note = ''note#2''" "re_id sample_rel = ''rel#3''"
    "re_source sample_rel = ''task#1''" "re_target sample_rel = ''note#2''" "pa_id sample_patch = ''patch#4''"
    "ob_version sample_task = 1" "ob_version sample_note = 1" "pa_expected_version sample_patch = 1"
    by (simp_all add: sample_task_def sample_note_def sample_rel_def sample_patch_def)
  have "set sample_ids = {''task#1'', ''note#2'', ''rel#3'', ''patch#4''}" by (simp add: sample_ids_def)
  moreover have "fits_int64 1" by code_simp
  ultimately show ?thesis
    using sample_encodes[THEN encodesD] sample_id_ok by (simp add: sample_calls_def ids)
qed

text \<open>The store after the calls.\<close>

definition sample_filled :: graph_store where
  "sample_filled = snd (for_each (perform sample_env) sample_calls sample_graph)"

lemma sample_filled:
  "served sample_env sample_filled" "graph_ok sample_env (db sample_filled)" "gs_scope sample_filled = ''s''"
  "gs_run sample_filled = ''r''" "separate sample_env ''s'' ''r'' (set sample_ids) (db sample_filled)"
  "same_graph_on (set sample_ids) (graph_of sample_env ''s'' ''r'' (db sample_filled))
     (fold (apply_op sample_env) sample_calls (graph_of sample_env ''s'' ''r'' sample_projection))"
proof -
  from perform_all_tracks[of sample_env sample_graph "set sample_ids" sample_calls
      "graph_of sample_env ''s'' ''r'' sample_projection"]
  obtain n y d' where run: "for_each (perform sample_env) sample_calls sample_graph =
      (Inr (), sample_graph\<lparr>tick := n, db := d', transaction := y\<rparr>)"
    and d': "graph_ok sample_env d'" "separate sample_env ''s'' ''r'' (set sample_ids) d'"
      "only_ids sample_env ''s'' ''r'' (set sample_ids) sample_projection d'"
      "same_graph_on (set sample_ids) (graph_of sample_env ''s'' ''r'' d')
        (fold (apply_op sample_env) sample_calls (graph_of sample_env ''s'' ''r'' sample_projection))"
    using sample_calm sample_float_text sample_graph_ok sample_separate sample_calls_ok
    by (auto simp: )
  then have f: "sample_filled = sample_graph\<lparr>tick := n, db := d', transaction := y\<rparr>"
    by (simp add: sample_filled_def)
  have "served sample_env sample_filled = served sample_env sample_graph"
    using d'(3) by (simp add: f only_ids_def served_def gs_open_def has_status_def)
  then show "served sample_env sample_filled" by simp
  show "graph_ok sample_env (db sample_filled)" "gs_scope sample_filled = ''s''" "gs_run sample_filled = ''r''"
    "separate sample_env ''s'' ''r'' (set sample_ids) (db sample_filled)"
    "same_graph_on (set sample_ids) (graph_of sample_env ''s'' ''r'' (db sample_filled))
     (fold (apply_op sample_env) sample_calls (graph_of sample_env ''s'' ''r'' sample_projection))"
    using d' by (simp_all add: f)
qed

lemma sample_schema_sane: "schema_sane sample_env empty_tables"
  unfolding schema_sane_def sample_statements
  by (simp add: empty_tables_def) (simp add: sample_env_def starts_with_def)

lemma sample_openable: "openable sample_env sample_config empty_tables"
  using sample_schema_sane
  by (simp add: openable_def found_schema_def empty_tables_def) (simp add: sample_env_def)

end
