(* ===== verification/ConnectionTheorems.thy ===== *)
theory ConnectionTheorems
  imports GraphSample
begin

text \<open>
  The properties of \<open>ensure_schema\<close>: which databases it accepts, and that installing is idempotent.
\<close>

text \<open>
  Property C23. An undisturbed \<open>ensure_schema\<close> accepts exactly a database without a version record and
  one whose version lies between the supported minimum and maximum. It then returns the current
  version, having created or raised the version record and run the schema's statements, and touched
  no data table. Any other database is refused with \<open>LedgerIntegrityError\<close> and left exactly as it was.
\<close>

theorem ensure_schema_gate:
  assumes "calm E" and "\<not> link_closed s" "session_open s" "\<not> schema_ready s" and "schema_sane E (db s)"
  shows "if (case found_schema (db s) of None \<Rightarrow> True | Some row \<Rightarrow> version_ok row)
     then \<exists>n at. ensure_schema E s = (Inr SCHEMA_VERSION,
            s\<lparr>tick := n, db := installed E at (db s), schema_ready := True\<rparr>)
          \<and> ag_run (installed E at (db s)) = ag_run (db s) \<and> ag_event (installed E at (db s)) = ag_event (db s)
          \<and> ag_vertex (installed E at (db s)) = ag_vertex (db s)
          \<and> ag_relation (installed E at (db s)) = ag_relation (db s)
     else \<exists>n m. ensure_schema E s = (Inl (LedgerIntegrityError m), s\<lparr>tick := n\<rparr>)"
  using ensure_schema_calm[OF assms] ensure_schema_rejects[OF assms(1-4)]
  by (auto split: option.splits)

text \<open>A connection of the sample to an empty database.\<close>

definition sample_link :: link where
  "sample_link = (unconnected sample_config \<lparr>db = empty_tables, tick = 0\<rparr>)\<lparr>session_open := True\<rparr>"

lemma sample_link_fields [simp]:
  "\<not> link_closed sample_link" "session_open sample_link" "\<not> schema_ready sample_link" "db sample_link = empty_tables"
  by (simp_all add: sample_link_def unconnected_def)

lemma sample_found [simp]: "found_schema empty_tables = None"
  by (simp add: found_schema_def empty_tables_def)

text \<open>A database that a later version of the provider installed.\<close>

definition newer_tables :: tables where
  "newer_tables = empty_tables\<lparr>
     defined := [''DEFINE TABLE IF NOT EXISTS ag_schema SCHEMAFULL;''],
     ag_schema := Some \<lparr>schema_version_field = Some 4, installed_at = ''t''\<rparr>\<rparr>"

lemma newer_found: "found_schema newer_tables = Some \<lparr>schema_version_field = Some 4, installed_at = ''t''\<rparr>"
  by (simp add: found_schema_def newer_tables_def table_defined_def starts_with_def)

theorem ensure_schema_gate_witness:
  "(\<exists>n at. ensure_schema sample_env sample_link = (Inr SCHEMA_VERSION,
       sample_link\<lparr>tick := n, db := installed sample_env at empty_tables, schema_ready := True\<rparr>))
   \<and> (\<exists>n m. ensure_schema sample_env (sample_link\<lparr>db := newer_tables\<rparr>) =
       (Inl (LedgerIntegrityError m), sample_link\<lparr>db := newer_tables, tick := n\<rparr>))"
proof -
  have newer: "schema_sane sample_env newer_tables" "\<not> version_ok \<lparr>schema_version_field = Some 4, installed_at = ''t''\<rparr>"
    using sample_schema_sane
    by (simp_all add: schema_sane_def newer_tables_def table_defined_def starts_with_def version_ok_def SCHEMA_VERSION_def)
  show ?thesis
    using ensure_schema_gate[of sample_env sample_link] ensure_schema_gate[of sample_env "sample_link\<lparr>db := newer_tables\<rparr>"]
      newer sample_calm sample_schema_sane newer_found by auto
qed

text \<open>
  Installing is idempotent: a second call on the same connection sends nothing, and a
  call on any other connection to the installed database leaves its tables exactly as they are.
\<close>

theorem ensure_schema_idempotent:
  assumes "calm E" and "\<not> link_closed s" "session_open s" "\<not> schema_ready s" and "schema_sane E (db s)"
    and "ensure_schema E s = (Inr v, s')"
    and "\<not> link_closed u" "session_open u" "\<not> schema_ready u" "db u = db s'"
  shows "ensure_schema E s' = (Inr SCHEMA_VERSION, s')
     \<and> (\<exists>n. ensure_schema E u = (Inr SCHEMA_VERSION, u\<lparr>tick := n, schema_ready := True\<rparr>))"
proof -
  have ok: "case found_schema (db s) of None \<Rightarrow> True | Some row \<Rightarrow> version_ok row"
    using ensure_schema_rejects[OF assms(1-4)] assms(6) by (auto split: option.splits)
  obtain n at where s': "s' = s\<lparr>tick := n, db := installed E at (db s), schema_ready := True\<rparr>"
    using ensure_schema_calm[OF assms(1-5) ok] assms(6) by auto
  then have du: "db u = installed E at (db s)" using assms(10) by simp
  have "case found_schema (db u) of None \<Rightarrow> True | Some row \<Rightarrow> version_ok row"
    using installed_found(1)[OF assms(5), of at]
    by (auto simp: du version_ok_def SCHEMA_VERSION_def MIN_SCHEMA_VERSION_def split: option.splits)
  moreover have "schema_sane E (db u)" unfolding du by (rule installed_found(2)[OF assms(5)])
  ultimately obtain m at' where "ensure_schema E u = (Inr SCHEMA_VERSION, u\<lparr>tick := m, db := installed E at' (db u), schema_ready := True\<rparr>)"
    using ensure_schema_calm[OF assms(1,7-9)] by blast
  moreover have "installed E at' (db u) = db u" unfolding du by (rule installed_again[OF assms(5)])
  moreover have "u\<lparr>tick := m, db := db u, schema_ready := True\<rparr> = u\<lparr>tick := m, schema_ready := True\<rparr>"
    by simp
  ultimately have "\<exists>n. ensure_schema E u = (Inr SCHEMA_VERSION, u\<lparr>tick := n, schema_ready := True\<rparr>)" by metis
  moreover have "ensure_schema E s' = (Inr SCHEMA_VERSION, s')"
    by (rule ensure_schema_ready) (use s' assms(2) in simp_all)
  ultimately show ?thesis by blast
qed

theorem ensure_schema_idempotent_witness:
  "\<exists>s n. ensure_schema sample_env sample_link = (Inr SCHEMA_VERSION, s)
     \<and> ensure_schema sample_env s = (Inr SCHEMA_VERSION, s)
     \<and> ensure_schema sample_env (sample_link\<lparr>db := db s\<rparr>) =
         (Inr SCHEMA_VERSION, sample_link\<lparr>db := db s, tick := n, schema_ready := True\<rparr>)"
proof -
  obtain s where s: "ensure_schema sample_env sample_link = (Inr SCHEMA_VERSION, s)"
    using ensure_schema_calm[OF sample_calm, of sample_link] sample_schema_sane by auto
  show ?thesis
    using ensure_schema_idempotent[OF sample_calm _ _ _ _ s, of "sample_link\<lparr>db := db s\<rparr>"] sample_schema_sane s
    by auto
qed

end
