(* ===== verification/ForkRuns.thy ===== *)
theory ForkRuns
  imports Opening
begin

text \<open>Undisturbed forks: what \<open>fork_prefix\<close> returns and leaves in the database.\<close>

definition forked ::
  "('x, 'z) env_scheme \<Rightarrow> run_row \<Rightarrow> (string \<times> event_row) list \<Rightarrow> tables \<Rightarrow> tables" where
  "forked E kid krs d = d\<lparr>
     ag_run := AList.update (run_key E (run_scope kid) (run_run_id kid)) kid (ag_run d),
     ag_event := add_rows krs (ag_event d)\<rparr>"

definition child_run ::
  "string \<Rightarrow> string \<Rightarrow> string \<Rightarrow> string \<Rightarrow> string option \<Rightarrow> string \<Rightarrow> run_row \<Rightarrow> int \<Rightarrow> string option \<Rightarrow> run_row" where
  "child_run sc rid new_rid at lbl created parent n h =
     \<lparr>run_scope = sc, run_run_id = new_rid, parent_run_id = Some rid, forked_at_event_id = Some at,
      label = lbl, created_at = created, goal = goal parent, run_frame_id = run_frame_id parent,
      next_seq = n, head_hash = h\<rparr>"

lemma touch_same [simp]: "r\<lparr>next_seq := next_seq r, head_hash := head_hash r\<rparr> = r" for r :: run_row
  by (cases r) simp

lemma merge_touch:
  "map_of (ag_run d) k = Some run \<Longrightarrow>
   merge_run k (\<lambda>r. r\<lparr>next_seq := next_seq run, head_hash := head_hash run\<rparr>) e d = Done () d (nothing\<lparr>t_run := [k]\<rparr>)"
  by (cases d) (simp add: merge_run_def update_same)

lemma install_fork:
  assumes "map_of (ag_run d) rk = Some run" and "rk \<noteq> run_key E (run_scope kid) (run_run_id kid)"
    and "distinct (map fst krs)"
  shows "install \<lparr>base = d, work = forked E kid krs d,
      written = \<lparr>t_run = [rk, run_key E (run_scope kid) (run_run_id kid)], t_event = map fst krs, t_vertex = [], t_relation = []\<rparr>\<rparr> d =
    forked E kid krs d"
proof -
  have "install_table (map fst krs) (add_rows krs (ag_event d)) (ag_event d) = add_rows krs (ag_event d)"
  proof (rule install_added)
    fix k r
    assume "(k, r) \<in> set krs"
    then show "map_of (add_rows krs (ag_event d)) k = Some r"
      using assms(3) by (simp add: map_of_add_rows map_of_is_SomeI)
  qed
  with assms(1,2) show ?thesis
    by (simp add: install_def install_table_def forked_def update_same)
qed

lemma wp_fork_transaction_calm:
  assumes calm: "calm E" and t: "transaction s = Some \<lparr>base = db s, work = db s, written = nothing\<rparr>"
    and run: "map_of (ag_run (db s)) (run_key E (es_scope s) (es_run s)) = Some run"
      "run_in_scope (es_scope s) (es_run s) run" "next_seq run = int (length rws)"
    and none: "map_of (ag_run (db s)) (run_key E (es_scope s) new_rid) = None"
    and c: "creatable run_clash (run_key E (es_scope s) new_rid) kid (ag_run (db s))"
    and kid: "kid = child_run (es_scope s) (es_run s) new_rid at lbl created run (int (length krs)) h"
    and krs: "distinct (map fst krs)" "all_creatable krs (ag_event (db s))"
  shows "wp (fork_in_transaction E new_rid at lbl created rws run krs h) Q R s =
     Q () (s\<lparr>tick := Suc (Suc (Suc (Suc (Suc (tick s + length krs))))), db := forked E kid krs (db s), transaction := None\<rparr>)"
proof -
  let ?rk = "run_key E (es_scope s) (es_run s)" and ?ck = "run_key E (es_scope s) new_rid"
  have ne: "?rk \<noteq> ?ck" using run(1) none by auto
  have kid': "run_scope kid = es_scope s" "run_run_id kid = new_rid" by (simp_all add: kid child_run_def)
  have cr: "create_run ?ck (child_run (es_scope s) (es_run s) new_rid at lbl created run (int (length krs)) h) e (db s) =
      Done () ((db s)\<lparr>ag_run := AList.update ?ck kid (ag_run (db s))\<rparr>) (nothing\<lparr>t_run := [?ck]\<rparr>)" for e
    using c by (simp add: create_run_def kid)
  have w: "(also_written (nothing\<lparr>t_run := [?rk]\<rparr>) (nothing\<lparr>t_run := [?ck]\<rparr>))
      \<lparr>t_event := t_event (also_written (nothing\<lparr>t_run := [?rk]\<rparr>) (nothing\<lparr>t_run := [?ck]\<rparr>)) @ map fst krs\<rparr> =
      \<lparr>t_run = [?rk, ?ck], t_event = map fst krs, t_vertex = [], t_relation = []\<rparr>"
    by (simp add: also_written_def nothing_def)
  have inst: "install \<lparr>base = db s, work = forked E kid krs (db s),
      written = \<lparr>t_run = [?rk, ?ck], t_event = map fst krs, t_vertex = [], t_relation = []\<rparr>\<rparr> (db s) = forked E kid krs (db s)"
    using install_fork[OF run(1) _ krs(1), of E kid] ne by (simp add: kid')
  have fk: "(db s)\<lparr>ag_run := AList.update ?ck kid (ag_run (db s)), ag_event := add_rows krs (ag_event (db s))\<rparr> = forked E kid krs (db s)"
    by (simp add: forked_def kid')
  show ?thesis
    using t run(1,2) run(3)[symmetric] none krs(2) cr
    apply (simp add: fork_in_transaction_def transaction_run_row_def wp_rules wp_calm[OF calm] select_defs
      merge_touch wp_create_all[OF calm] flip: child_run_def)
    apply (simp add: inst fk w add.commute)
    done
qed

text \<open>The rows of a new run: at their keys, in the run, at different positions, and none there yet.\<close>

definition new_rows :: "('x, 'z) env_scheme \<Rightarrow> string \<Rightarrow> string \<Rightarrow> (string \<times> event_row) list \<Rightarrow> tables \<Rightarrow> bool" where
  "new_rows E sc rid krs d \<longleftrightarrow> list_all (\<lambda>(k, r). k = event_key E sc rid (event_id r) \<and> in_run sc rid r) krs
     \<and> distinct (map fst krs) \<and> list_all (\<lambda>k. map_of (ag_event d) k = None) (map fst krs)
     \<and> inj_on seq (snd ` set krs)"

lemma forked_log:
  assumes ok: "tables_ok E d" and none: "map_of (ag_run d) (run_key E sc rid) = None"
    and kid: "run_scope kid = sc" "run_run_id kid = rid" and krs: "new_rows E sc rid krs d"
  shows "all_creatable krs (ag_event d)"
    and "ag_event (forked E kid krs d) = ag_event d @ krs"
    and "ag_run (forked E kid krs d) = ag_run d @ [(run_key E sc rid, kid)]"
    and "run_events sc rid (forked E kid krs d) = sort_key seq (map snd krs)"
    and "sc' \<noteq> sc \<or> rid' \<noteq> rid \<Longrightarrow> run_events sc' rid' (forked E kid krs d) = run_events sc' rid' d"
proof -
  note absent = absent_run[OF ok none]
  have key: "k = event_key E sc rid (event_id r)" and run: "in_run sc rid r" if "(k, r) \<in> set krs" for k r
    using krs that by (auto simp: new_rows_def list_all_iff)
  have dist: "distinct (map fst krs)" and inj: "inj_on seq (snd ` set krs)"
    and fresh: "\<And>k. k \<in> fst ` set krs \<Longrightarrow> map_of (ag_event d) k = None"
    using krs by (auto simp: new_rows_def list_all_iff)
  show ev: "ag_event (forked E kid krs d) = ag_event d @ krs"
    using dist fresh by (simp add: forked_def add_rows_fresh)
  show rn: "ag_run (forked E kid krs d) = ag_run d @ [(run_key E sc rid, kid)]"
    using none by (simp add: forked_def kid map_of_fresh)
  have ids: "distinct (map (event_id o snd) krs)"
  proof -
    have "distinct (map (event_key E sc rid) (map (event_id o snd) krs))"
    proof -
      have "map fst krs = map (event_key E sc rid) (map (event_id o snd) krs)" using key by auto
      with dist show ?thesis by simp
    qed
    then show ?thesis by (simp add: distinct_map) (metis inj_on_imageI2)
  qed
  then have rws: "distinct (map snd krs)" by (simp add: distinct_map) (metis inj_on_imageI2)
  show "all_creatable krs (ag_event d)"
    by (rule all_creatable_run[OF dist inj ids rws run absent(2) fresh])
  show "run_events sc rid (forked E kid krs d) = sort_key seq (map snd krs)"
  proof -
    have "rows_where (in_run sc rid) (ag_event d) = []" using absent(2) by (auto simp: rows_where_def filter_empty_conv)
    moreover have "rows_where (in_run sc rid) krs = map snd krs" using run by (auto simp: rows_where_def intro!: filter_True)
    ultimately show ?thesis by (simp add: run_events_def ev rows_where_def)
  qed
  show "run_events sc' rid' (forked E kid krs d) = run_events sc' rid' d" if "sc' \<noteq> sc \<or> rid' \<noteq> rid"
  proof -
    have "rows_where (in_run sc' rid') krs = []"
      using run that by (auto simp: rows_where_def filter_empty_conv in_run_def)
    then show ?thesis by (simp add: run_events_def ev rows_where_def)
  qed
qed

lemma tables_ok_forked:
  assumes ok: "tables_ok E d" and none: "map_of (ag_run d) (run_key E sc rid) = None"
    and kid: "run_scope kid = sc" "run_run_id kid = rid" and krs: "new_rows E sc rid krs d"
  shows "tables_ok E (forked E kid krs d)"
proof -
  note absent = absent_run[OF ok none]
  note ev = forked_log(2)[OF assms] and rn = forked_log(3)[OF assms]
  have key: "k = event_key E sc rid (event_id r)" and run: "in_run sc rid r" if "(k, r) \<in> set krs" for k r
    using krs that by (auto simp: new_rows_def list_all_iff)
  have dist: "distinct (map fst krs)" and inj: "inj_on seq (snd ` set krs)"
    and fresh: "\<And>k. k \<in> fst ` set krs \<Longrightarrow> map_of (ag_event d) k = None"
    using krs by (auto simp: new_rows_def list_all_iff)
  show ?thesis
  proof (rule tables_okI, unfold ev rn)
    show "distinct (map fst (ag_run d @ [(run_key E sc rid, kid)]))"
      using tables_okD(1)[OF ok] none by (auto simp: map_of_eq_None_iff)
    show "distinct (map fst (ag_event d @ krs))"
      using tables_okD(2)[OF ok] dist fresh by (auto simp: map_of_eq_None_iff)
    show "k = run_key E (run_scope q) (run_run_id q)" if "(k, q) \<in> set (ag_run d @ [(run_key E sc rid, kid)])" for k q
      using that tables_okD(3)[OF ok] kid by auto
    show "k = event_key E (event_scope r) (event_run r) (event_id r)" if "(k, r) \<in> set (ag_event d @ krs)" for k r
      using that tables_okD(4)[OF ok] key run by (auto simp: in_run_def)
    show "\<exists>(k', q) \<in> set (ag_run d @ [(run_key E sc rid, kid)]). run_scope q = event_scope r \<and> run_run_id q = event_run r"
      if "(k, r) \<in> set (ag_event d @ krs)" for k r
      using that tables_okD(5)[OF ok] run kid by (auto simp: in_run_def)
    show "k = k'" if "(k, r) \<in> set (ag_event d @ krs)" "(k', r') \<in> set (ag_event d @ krs)" and clash: "event_clash r r'" for k r k' r'
    proof -
      have same: "in_run sc rid r = in_run sc rid r'" using clash by (auto simp: event_clash_def in_run_def)
      show ?thesis
      proof (cases "in_run sc rid r")
        case False
        with same have "(k, r) \<in> set (ag_event d)" "(k', r') \<in> set (ag_event d)" using that(1,2) run by auto
        then show ?thesis using clash by (rule tables_okD(6)[OF ok])
      next
        case True
        with same have mem: "(k, r) \<in> set krs" "(k', r') \<in> set krs" using that(1,2) absent(2) by auto
        then have "r \<in> snd ` set krs" "r' \<in> snd ` set krs" by force+
        then have "seq r = seq r' \<Longrightarrow> r = r'" using inj by (meson inj_onD)
        with clash have "event_id r = event_id r'" by (auto simp: event_clash_def)
        then show ?thesis using key[OF mem(1)] key[OF mem(2)] by simp
      qed
    qed
  qed
qed

lemmas forked_tables = tables_ok_forked forked_log

text \<open>The event of a row of an intact log, and the events of its prefix.\<close>

lemma verified_decode:
  assumes "verify_rows E sc rid n p rws = Inr h"
  obtains evs where "traverse (record_to_event E) rws = Inr evs"
  using assms
proof (induction rws arbitrary: n p thesis)
  case Nil
  then show ?case by simp
next
  case (Cons row rws)
  from Cons.prems(2) obtain ev h' where ev: "record_to_event E row = Inr ev" "verify_rows E sc rid (n + 1) (Some h') rws = Inr h"
    unfolding verify_rows_Cons by auto
  from Cons.IH[OF _ ev(2)] obtain evs where "traverse (record_to_event E) rws = Inr evs" by blast
  with ev(1) have "traverse (record_to_event E) (row # rws) = Inr (ev # evs)" by simp
  then show ?case by (rule Cons.prems(1))
qed

lemma index_of_Some: "index_of P xs = Some c \<Longrightarrow> c < length xs \<and> P (xs ! c)"
  by (induction xs arbitrary: c) (auto split: if_splits)

text \<open>A row and its copy in the child: the same id, and events that agree in all they say.\<close>

definition copied :: "('x, 'z) env_scheme \<Rightarrow> event_row \<Rightarrow> event_row \<Rightarrow> bool" where
  "copied E r r' \<longleftrightarrow> event_id r' = event_id r
     \<and> (\<exists>e e'. record_to_event E r = Inr e \<and> record_to_event E r' = Inr e' \<and> same_event E e e')"

lemma prefix_children:
  assumes lib: "lib_ok E" and rws: "verify_rows E sc rid 0 None rws = Inr h0"
    and keys: "distinct (map (\<lambda>r. event_key E sc new_rid (event_id r)) rws)"
      "list_all (\<lambda>r. map_of (ag_event d) (event_key E sc new_rid (event_id r)) = None) rws"
  obtains evs krs h where "traverse (record_to_event E) rws = Inr evs"
    and "child_rows E sc new_rid 0 None evs = Inr (krs, h)"
    and "verify_rows E sc new_rid 0 None (map snd krs) = Inr h" and "length krs = length rws"
    and "new_rows E sc new_rid krs d" and "list_all2 (copied E) rws (map snd krs)"
proof -
  obtain evs where evs: "traverse (record_to_event E) rws = Inr evs" using verified_decode[OF rws] by blast
  have decodes: "\<exists>r::event_row. record_to_event E r = Inr e" if "e \<in> set evs" for e
    using traverse_from[OF evs that] by blast
  from child_rows_verify[OF lib decodes, where sc = sc and rid = new_rid and n = 0 and p = None]
  obtain krs h where kids: "child_rows E sc new_rid 0 None evs = Inr (krs, h)"
    "verify_rows E sc new_rid 0 None (map snd krs) = Inr h" "length krs = length evs"
    "map fst krs = map (\<lambda>e. event_key E sc new_rid (ev_id e)) evs"
    "list_all (\<lambda>(k, r). k = event_key E sc new_rid (event_id r)) krs"
    "list_all2 (\<lambda>e r. record_to_event E r = norm_event E e \<and> event_id r = ev_id e) evs (map snd krs)"
    by blast
  have len: "length evs = length rws" by (rule traverse_Inr_length[OF evs])
  have nth: "record_to_event E (rws ! i) = Inr (evs ! i)" if "i < length rws" for i
    by (rule traverse_Inr_nth[OF evs that])
  have ids: "ev_id (evs ! i) = event_id (rws ! i)" if "i < length rws" for i
    using record_to_event_id[OF nth[OF that]] .
  have firsts: "map fst krs = map (\<lambda>r. event_key E sc new_rid (event_id r)) rws"
    unfolding kids(4) by (rule nth_equalityI) (simp_all add: len ids)
  have "new_rows E sc new_rid krs d"
    unfolding new_rows_def
  proof (intro conjI)
    show "list_all (\<lambda>(k, r). k = event_key E sc new_rid (event_id r) \<and> in_run sc new_rid r) krs"
      using kids(5) verify_rows_in_run[OF kids(2)] by (fastforce simp: list_all_iff)
    show "distinct (map fst krs)" "list_all (\<lambda>k. map_of (ag_event d) k = None) (map fst krs)"
      using keys by (simp_all add: firsts list_all_iff)
    show "inj_on seq (snd ` set krs)" using verify_rows_distinct(2)[OF kids(2)] by simp
  qed
  moreover have "list_all2 (copied E) rws (map snd krs)"
  proof (rule list_all2_all_nthI)
    show "length rws = length (map snd krs)" using kids(3) len by simp
    fix i assume i: "i < length rws"
    obtain f h where "event_to_record E (evs ! i) = Inr f" using decoded_encodes[OF lib nth[OF i]] by blast
    then obtain e' where e': "norm_event E (evs ! i) = Inr e'" "same_event E (evs ! i) e'"
      using stored_event_same[OF lib] by blast
    have "record_to_event E (map snd krs ! i) = norm_event E (evs ! i)" "event_id (map snd krs ! i) = ev_id (evs ! i)"
      using list_all2_nthD[OF kids(6), of i] i len by simp_all
    with nth[OF i] e' ids[OF i] show "copied E (rws ! i) (map snd krs ! i)" by (auto simp: copied_def)
  qed
  ultimately show thesis using that evs kids len by simp
qed

section \<open>The whole fork\<close>

lemma seqs_sorted:
  assumes "verify_rows E sc rid 0 p rws = Inr h"
  shows "sort_key seq rws = rws"
proof -
  have "sorted (map seq rws)" unfolding verify_rows_seqs[OF assms] by (simp add: sorted_iff_nth_mono)
  then show ?thesis by (rule sort_key_id_if_sorted)
qed

lemma openable_forked [simp]: "openable E' c (forked E kid krs d) = openable E' c d"
  by (simp add: openable_def schema_sane_def found_schema_def table_defined_def forked_def)

lemma wp_destination_exists_calm:
  assumes "calm E" and "\<not> link_closed s" "session_open s"
  shows "wp (destination_exists E rid) Q R s =
    Q (map_of (ag_run (db s)) (run_key E (es_scope s) rid) \<noteq> None) (s\<lparr>tick := Suc (tick s)\<rparr>)"
  using assms(2,3) by (simp add: destination_exists_def wp_rules wp_calm[OF assms(1)] select_defs)

lemma fork_prefix_calm:
  fixes s :: event_store
  defines "sc \<equiv> es_scope s" and "rid \<equiv> es_run s" and "rws \<equiv> run_events (es_scope s) (es_run s) (db s)"
  assumes calm: "calm E" and lib: "lib_ok E" and att: "attached E s" and o: "openable E (settings s) (db s)"
    and names: "new_rid \<noteq> []" "sc \<noteq> []"
    and snap: "event_type (hd rws) \<noteq> ''runtime.snapshot''"
    and at: "index_of (\<lambda>r. event_id r = at) rws = Some c"
    and none: "map_of (ag_run (db s)) (run_key E sc new_rid) = None"
    and keys: "distinct (map (\<lambda>r. event_key E sc new_rid (event_id r)) (take (Suc c) rws))"
      "list_all (\<lambda>r. map_of (ag_event (db s)) (event_key E sc new_rid (event_id r)) = None) (take (Suc c) rws)"
  shows "\<exists>child t at' created parent krs h. fork_prefix E new_rid at lbl s = (Inr child, t)
     \<and> db child = db t \<and> es_scope child = sc \<and> es_run child = new_rid \<and> attached E child \<and> no_hooks child
     \<and> es_scope t = sc \<and> es_run t = rid \<and> attached E t
     \<and> map_of (ag_run (db s)) (run_key E sc rid) = Some parent
     \<and> db t = installed E at' (forked E (child_run sc rid new_rid at lbl created parent (int (Suc c)) h) krs (db s))
     \<and> new_rows E sc new_rid krs (db s) \<and> list_all2 (copied E) (take (Suc c) rws) (map snd krs)
     \<and> run_events sc new_rid (db t) = map snd krs"
proof -
  obtain run where run: "map_of (ag_run (db s)) (run_key E sc rid) = Some run" "run_in_scope sc rid run" "\<not> head_moved s run"
    "next_seq run = int (length rws)" "verify_rows E sc rid 0 None rws = Inr (head_hash run)"
    using attachedE[OF att] unfolding sc_def rid_def rws_def by blast
  have opn: "\<not> es_closed s" "\<not> link_closed s" "session_open s" "tables_ok E (db s)" using att by (simp_all add: attached_def)
  have c: "c < length rws" using index_of_Some[OF at] by blast
  obtain evs krs h where kids: "traverse (record_to_event E) (take (Suc c) rws) = Inr evs"
    "child_rows E sc new_rid 0 None evs = Inr (krs, h)" "verify_rows E sc new_rid 0 None (map snd krs) = Inr h"
    "length krs = length (take (Suc c) rws)" "new_rows E sc new_rid krs (db s)" "list_all2 (copied E) (take (Suc c) rws) (map snd krs)"
    using prefix_children[OF lib verify_rows_take[OF run(5) c] keys] by blast
  have len: "length krs = Suc c" using kids(4) c by simp
  let ?created = "clock E (Suc (Suc (Suc (tick s))))"
  define kid where "kid = child_run sc rid new_rid at lbl ?created run (int (length krs)) h"
  have kid_fields: "run_scope kid = sc" "run_run_id kid = new_rid" "next_seq kid = int (length krs)" "head_hash kid = h"
    by (simp_all add: kid_def child_run_def)
  let ?d = "forked E kid krs (db s)"
  note tabs = forked_tables[OF opn(4) none kid_fields(1,2) kids(5)]
  have evs_new: "run_events sc new_rid ?d = map snd krs" unfolding tabs(5) by (rule seqs_sorted[OF kids(3)])
  have ne: "rid \<noteq> new_rid" using run(1) none by auto
  have int_new: "intact E sc new_rid ?d"
    using none kids(3) by (simp add: intact_def tabs(4) map_add_def kid_fields run_in_scope_def evs_new)
  have par: "map_of (ag_run ?d) (run_key E sc rid) = Some run"
    using run(1) none by (auto simp: tabs(4) map_add_def)
  have re: "run_events sc rid ?d = rws"
    using tabs(6)[of sc rid] ne by (simp add: rws_def sc_def rid_def)
  have int_par: "intact E sc rid ?d"
    using run(2,4,5) by (simp add: intact_def par re)
  have cr: "creatable run_clash (run_key E sc new_rid) kid (ag_run (db s))"
    using tables_ok_new_run(2)[OF opn(4), of kid] none by (simp add: kid_fields)
  let ?n = "Suc (Suc (Suc (Suc (Suc (Suc (Suc (Suc (Suc (tick s + length krs)))))))))"
  let ?t = "s\<lparr>tick := ?n, db := ?d, transaction := None\<rparr>"
  have "openable E (settings s) (db ?t)" "tables_ok E (db ?t)" "intact E sc new_rid (db ?t)"
    using o tabs(1) int_new by simp_all
  from new_event_store_existing[OF calm names this]
  obtain child m at' where child: "new_event_store E (settings s) new_rid sc ?t = (Inr child, ?t\<lparr>db := installed E at' (db ?t), tick := m\<rparr>)"
    "db child = installed E at' (db ?t)" "es_scope child = sc" "es_run child = new_rid" "attached E child" "no_hooks child"
    by blast
  let ?final = "?t\<lparr>db := installed E at' (db ?t), tick := m\<rparr>"
  have steps: "wp (verified_rows_and_run E) Q R s = Q (rws, run) (s\<lparr>tick := Suc (Suc (tick s))\<rparr>)" for Q R
    using wp_verified_calm[OF calm opn(1-3)] run unfolding sc_def rid_def rws_def by simp
  let ?u = "s\<lparr>tick := Suc (Suc (Suc (Suc (tick s)))), transaction := Some \<lparr>base = db s, work = db s, written = nothing\<rparr>\<rparr>"
  have txn: "wp (fork_in_transaction E new_rid at lbl ?created rws run krs h) Q R ?u = Q () ?t" for Q R
    using wp_fork_transaction_calm[OF calm, of ?u run rws new_rid kid at lbl ?created krs h] run none cr kids(5) tabs(2)
    by (simp add: sc_def rid_def kid_def new_rows_def)
  have here: "\<not> head_moved (s\<lparr>tick := x\<rparr>) run" for x using run(3) by (simp add: head_moved_def)
  have "wp (fork_prefix E new_rid at lbl) (\<lambda>x t. x = child \<and> t = ?final) (\<lambda>_ _. False) s"
    using opn(1-3) here snap at none child(1) kids(1,2)
    by (simp add: fork_prefix_def wp_rules steps wp_destination_exists_calm[OF calm] wp_reading_calm[OF calm]
        txn wp_of_Inr[where p = "new_event_store E (settings s) new_rid sc"] flip: sc_def rid_def)
  then have "\<exists>t. fork_prefix E new_rid at lbl s = (Inr child, t) \<and> t = ?final" by (rule wp_exact)
  moreover have "attached E ?final"
    using att tabs(1) int_par par run(1) by (simp add: attached_def sc_def rid_def)
  moreover have "db ?final = installed E at' (forked E (child_run sc rid new_rid at lbl ?created run (int (Suc c)) h) krs (db s))"
    by (simp add: kid_def len)
  moreover have "run_events sc new_rid (db ?final) = map snd krs" using evs_new by simp
  moreover have "db child = db ?final" "es_scope ?final = sc" "es_run ?final = rid" using child(2) by (simp_all add: sc_def rid_def)
  ultimately show ?thesis
    using child(3-) run(1) kids(5,6)
    by (intro exI[of _ child] exI[of _ ?final] exI[of _ at'] exI[of _ ?created] exI[of _ run] exI[of _ krs] exI[of _ h]) blast
qed

end
