(* ===== verification/Runtime.thy ===== *)
theory Runtime
  imports GraphStore EventStore
begin

text \<open>
  \<open>runtime.py\<close>: replaying a log into a projection, the fork helper, and the two waiting loops. Two
  stores that live in one process see the same server: \<open>workspace\<close> holds both, and \<open>on_events\<close> and
  \<open>on_graph\<close> run a method of one of them. ActiveGraph's \<open>Graph\<close> is a parameter: what its constructor,
  \<open>_replay_event\<close> and \<open>ids.reseed_from_events\<close> do, as programs on the graph store.
\<close>

section \<open>Two stores in one process\<close>

record workspace = server +
  events_obj :: event_store
  graph_obj :: graph_store

definition with_events :: "event_store \<Rightarrow> 's workspace_scheme \<Rightarrow> 's workspace_scheme" where
  "with_events o' w = w\<lparr>db := db o', tick := tick o', events_obj := o'\<rparr>"

definition with_graph :: "graph_store \<Rightarrow> 's workspace_scheme \<Rightarrow> 's workspace_scheme" where
  "with_graph o' w = w\<lparr>db := db o', tick := tick o', graph_obj := o'\<rparr>"

definition events_now :: "'s workspace_scheme \<Rightarrow> event_store" where
  "events_now w = (events_obj w)\<lparr>db := db w, tick := tick w\<rparr>"

definition graph_now :: "'s workspace_scheme \<Rightarrow> graph_store" where
  "graph_now w = (graph_obj w)\<lparr>db := db w, tick := tick w\<rparr>"

definition on_events :: "(event_store, exn, 'a) prog \<Rightarrow> ('s workspace_scheme, exn, 'a) prog" where
  "on_events p = (\<lambda>w. case p (events_now w) of (r, o') \<Rightarrow> (r, with_events o' w))"

definition on_graph :: "(graph_store, exn, 'a) prog \<Rightarrow> ('s workspace_scheme, exn, 'a) prog" where
  "on_graph p = (\<lambda>w. case p (graph_now w) of (r, o') \<Rightarrow> (r, with_graph o' w))"

lemma with_stores [simp]:
  "db (with_events o' w) = db o'" "tick (with_events o' w) = tick o'" "events_obj (with_events o' w) = o'"
  "graph_obj (with_events o' w) = graph_obj w"
  "db (with_graph g w) = db g" "tick (with_graph g w) = tick g" "events_obj (with_graph g w) = events_obj w"
  "graph_obj (with_graph g w) = g"
  by (cases w; simp add: with_events_def with_graph_def)+

lemma now_fields [simp]:
  "db (events_now w) = db w" "tick (events_now w) = tick w" "es_scope (events_now w) = es_scope (events_obj w)"
  "es_run (events_now w) = es_run (events_obj w)"
  "db (graph_now w) = db w" "tick (graph_now w) = tick w" "gs_scope (graph_now w) = gs_scope (graph_obj w)"
  "gs_run (graph_now w) = gs_run (graph_obj w)" "rebuilding_here (graph_now w) = rebuilding_here (graph_obj w)"
  "gs_closed (graph_now w) = gs_closed (graph_obj w)" "es_closed (events_now w) = es_closed (events_obj w)"
  "graph_now (with_graph g w) = g" "events_now (with_events o' w) = o'"
  by (simp_all add: events_now_def graph_now_def)

lemma wp_on_events [wp_rules]:
  "wp (on_events p) Q R = (\<lambda>w. wp p (\<lambda>x o'. Q x (with_events o' w)) (\<lambda>e o'. R e (with_events o' w)) (events_now w))"
  by (simp add: wp_def on_events_def fun_eq_iff split: prod.split sum.split)

lemma wp_on_graph [wp_rules]:
  "wp (on_graph p) Q R = (\<lambda>w. wp p (\<lambda>x o'. Q x (with_graph o' w)) (\<lambda>e o'. R e (with_graph o' w)) (graph_now w))"
  by (simp add: wp_def on_graph_def fun_eq_iff split: prod.split sum.split)

section \<open>Replay\<close>

record ('x, 'g) graph_api =
  new_graph :: "string \<Rightarrow> (graph_store, exn, 'g) prog"
  replay_event :: "'g \<Rightarrow> 'x event \<Rightarrow> (graph_store, exn, 'g) prog"
  reseed_ids :: "'g \<Rightarrow> 'x event list \<Rightarrow> (graph_store, exn, 'g) prog"

fun replay_events ::
  "('x, 'g) graph_api \<Rightarrow> 'g \<Rightarrow> 'x event list \<Rightarrow> ('s workspace_scheme, exn, 'g) prog" where
  "replay_events api g [] = ret g"
| "replay_events api g (ev # evs) = bnd (on_graph (replay_event api g ev)) (\<lambda>g'. replay_events api g' evs)"

definition compacted :: "'x event list \<Rightarrow> bool" where
  "compacted evs \<longleftrightarrow> (case evs of [] \<Rightarrow> False | ev # _ \<Rightarrow> ev_type ev = ''runtime.snapshot'')"

text \<open>The body of the \<open>try\<close> of \<open>replay_graph\<close>.\<close>

definition replay_body ::
  "('x, 'z) env_scheme \<Rightarrow> ('x, 'g) graph_api \<Rightarrow> ('s workspace_scheme, exn, 'g) prog" where
  "replay_body E api = with_self (\<lambda>w.
     bnd (on_graph (begin_rebuild E)) (\<lambda>_.
     bnd (on_events (iter_events E None None)) (\<lambda>evs.
     if compacted evs then
       throw (UnsupportedCompactedRunError
         ''runtime.snapshot replay is outside the uncompacted preview contract'')
     else
       bnd (on_graph (new_graph api (es_run (events_obj w)))) (\<lambda>g.
       bnd (replay_events api g evs) (\<lambda>g.
       bnd (on_graph (reseed_ids api g evs)) (\<lambda>g.
       bnd (on_graph (mark_ready E)) (\<lambda>_. ret g)))))))"

definition replay_graph ::
  "('x, 'z) env_scheme \<Rightarrow> ('x, 'g) graph_api \<Rightarrow> ('s workspace_scheme, exn, 'g) prog" where
  "replay_graph E api = with_self (\<lambda>w.
     if es_run (events_obj w) \<noteq> gs_run (graph_obj w)
     then throw (ValueError ''event and projection run_id values must match'')
     else if es_scope (events_obj w) \<noteq> gs_scope (graph_obj w)
     then throw (ValueError ''event and projection scope values must match'')
     else
       try_except (replay_body E api)
         (\<lambda>e. bnd (suppress (on_graph (mark_failed E (OfException e)))) (\<lambda>_. throw e)))"

section \<open>Forking\<close>

definition fork_event_store ::
  "('x, 'z) env_scheme \<Rightarrow> string \<Rightarrow> string \<Rightarrow> string option \<Rightarrow> ('s event_store_scheme, exn, event_store) prog" where
  "fork_event_store E new_rid at lbl = fork_prefix E new_rid at lbl"

section \<open>Waiting\<close>

text \<open>
  Each iteration reads the monotonic clock once more: \<open>instants k\<close> is its \<open>k\<close>-th reading, in
  nanoseconds. A loop that never ends is the value \<open>None\<close>.
\<close>

record waiter = server +
  readings :: nat

text \<open>One pass through \<open>try\<close> and \<open>finally\<close>: whether connecting and the version query both worked.\<close>

definition probe :: "('x, 'z) env_scheme \<Rightarrow> surreal_config \<Rightarrow> ('s server_scheme, exn, bool) prog" where
  "probe E c =
     bnd (try_except (bnd (new_connection E c) (\<lambda>conn. ret (Some conn))) (\<lambda>_. ret None)) (\<lambda>made.
     case made of
       None \<Rightarrow> ret False
     | Some conn \<Rightarrow>
         bnd (try_except (bnd (calling conn (link_server_version E)) (\<lambda>_. ret True)) (\<lambda>_. ret False)) (\<lambda>up.
         bnd (calling conn (link_close E)) (\<lambda>_. ret up)))"

partial_function (option) wait_ready ::
  "('x, 'z) env_scheme \<Rightarrow> (nat \<Rightarrow> int) \<Rightarrow> surreal_config \<Rightarrow> int \<Rightarrow> waiter \<Rightarrow> ((exn + unit) \<times> waiter) option" where
  "wait_ready E instants c deadline s =
     (if \<not> instants (readings s) < deadline then
        Some (Inl (TimeoutError ''SurrealDB did not become ready before the deadline''),
              s\<lparr>readings := Suc (readings s)\<rparr>)
      else
        (case probe E c (s\<lparr>readings := Suc (readings s)\<rparr>) of
           (Inl e, t) \<Rightarrow> Some (Inl e, t)
         | (Inr up, t) \<Rightarrow> if up then Some (Inr (), t) else wait_ready E instants c deadline t))"

definition wait_until_ready ::
  "('x, 'z) env_scheme \<Rightarrow> (nat \<Rightarrow> int) \<Rightarrow> surreal_config \<Rightarrow> int \<Rightarrow> waiter \<Rightarrow> ((exn + unit) \<times> waiter) option" where
  "wait_until_ready E instants c timeout s =
     wait_ready E instants c (instants (readings s) + timeout) (s\<lparr>readings := Suc (readings s)\<rparr>)"

partial_function (option) wait_unavailable ::
  "('x, 'z) env_scheme \<Rightarrow> (nat \<Rightarrow> int) \<Rightarrow> surreal_config \<Rightarrow> int \<Rightarrow> waiter \<Rightarrow> ((exn + unit) \<times> waiter) option" where
  "wait_unavailable E instants c deadline s =
     (if \<not> instants (readings s) < deadline then
        Some (Inl (TimeoutError ''SurrealDB remained available past the deadline''),
              s\<lparr>readings := Suc (readings s)\<rparr>)
      else
        (case probe E c (s\<lparr>readings := Suc (readings s)\<rparr>) of
           (Inl e, t) \<Rightarrow> Some (Inl e, t)
         | (Inr up, t) \<Rightarrow> if up then wait_unavailable E instants c deadline t else Some (Inr (), t)))"

definition wait_until_unavailable ::
  "('x, 'z) env_scheme \<Rightarrow> (nat \<Rightarrow> int) \<Rightarrow> surreal_config \<Rightarrow> int \<Rightarrow> waiter \<Rightarrow> ((exn + unit) \<times> waiter) option" where
  "wait_until_unavailable E instants c timeout s =
     wait_unavailable E instants c (instants (readings s) + timeout) (s\<lparr>readings := Suc (readings s)\<rparr>)"

end
