(* ===== verification/ForkTheorems.thy ===== *)
theory ForkTheorems
  imports ForkRuns Runtime GraphSample
begin

text \<open>The property of forking, on the model of \<open>fork_event_store\<close>.\<close>

text \<open>
  Property C25. Undisturbed, forking an intact, uncompacted log at one of its events returns an open handle
  on an intact log of the new run whose rows are, in order, copies of the rows up to and including that
  event: the same ids, and events that agree in all they say, hashed anew from the start. The child's
  record names the parent, the fork point and the label and carries the parent's goal and frame. Every
  other run's log and record is as before, and the parent's handle is still on an intact log.
\<close>

theorem fork_copies_prefix:
  fixes s :: event_store
  assumes "calm E" and "lib_ok E" and "attached E s" and "openable E (settings s) (db s)"
    and "new_rid \<noteq> []" and "es_scope s \<noteq> []"
    and "event_type (hd (run_events (es_scope s) (es_run s) (db s))) \<noteq> ''runtime.snapshot''"
    and "index_of (\<lambda>r. event_id r = at) (run_events (es_scope s) (es_run s) (db s)) = Some c"
    and "map_of (ag_run (db s)) (run_key E (es_scope s) new_rid) = None"
    and "distinct (map (\<lambda>r. event_key E (es_scope s) new_rid (event_id r)) (take (Suc c) (run_events (es_scope s) (es_run s) (db s))))"
    and "list_all (\<lambda>r. map_of (ag_event (db s)) (event_key E (es_scope s) new_rid (event_id r)) = None)
      (take (Suc c) (run_events (es_scope s) (es_run s) (db s)))"
  shows "\<exists>child t kid parent. fork_event_store E new_rid at lbl s = (Inr child, t)
     \<and> db child = db t \<and> es_scope child = es_scope s \<and> es_run child = new_rid \<and> attached E child \<and> attached E t
     \<and> list_all2 (copied E) (take (Suc c) (run_events (es_scope s) (es_run s) (db s))) (run_events (es_scope s) new_rid (db t))
     \<and> (\<forall>sc rid. sc \<noteq> es_scope s \<or> rid \<noteq> new_rid \<longrightarrow> run_events sc rid (db t) = run_events sc rid (db s))
     \<and> ag_run (db t) = ag_run (db s) @ [(run_key E (es_scope s) new_rid, kid)]
     \<and> map_of (ag_run (db s)) (run_key E (es_scope s) (es_run s)) = Some parent
     \<and> run_scope kid = es_scope s \<and> run_run_id kid = new_rid
     \<and> parent_run_id kid = Some (es_run s) \<and> forked_at_event_id kid = Some at \<and> label kid = lbl
     \<and> goal kid = goal parent \<and> run_frame_id kid = run_frame_id parent \<and> next_seq kid = int (Suc c)"
proof -
  from fork_prefix_calm[OF assms, of lbl]
  obtain child t at' created parent krs h where f: "fork_prefix E new_rid at lbl s = (Inr child, t)"
    "db child = db t" "es_scope child = es_scope s" "es_run child = new_rid" "attached E child" "attached E t"
    "map_of (ag_run (db s)) (run_key E (es_scope s) (es_run s)) = Some parent"
    "db t = installed E at' (forked E (child_run (es_scope s) (es_run s) new_rid at lbl created parent (int (Suc c)) h) krs (db s))"
    "new_rows E (es_scope s) new_rid krs (db s)"
    "list_all2 (copied E) (take (Suc c) (run_events (es_scope s) (es_run s) (db s))) (map snd krs)"
    "run_events (es_scope s) new_rid (db t) = map snd krs"
    by blast
  let ?kid = "child_run (es_scope s) (es_run s) new_rid at lbl created parent (int (Suc c)) h"
  have kid: "run_scope ?kid = es_scope s" "run_run_id ?kid = new_rid" by (simp_all add: child_run_def)
  have ok: "tables_ok E (db s)" using assms(3) by (simp add: attached_def)
  note tabs = forked_tables[OF ok assms(9) kid f(9)]
  show ?thesis
    using f(1-7,10,11) tabs(4,6)
    by (intro exI[of _ child] exI[of _ t] exI[of _ ?kid] exI[of _ parent])
      (simp add: fork_event_store_def f(8), simp add: child_run_def)
qed

text \<open>The tables of the sample's log of one event, and that a run \<open>f\<close> is new in them.\<close>

lemma sample_log_tables:
  "\<exists>row run. event_id row = ''e1'' \<and> event_scope row = ''s'' \<and> event_run row = ''r''
     \<and> db sample_store1 = appended sample_env run row sample_tables"
proof -
  obtain r s' where run: "append_event sample_env sample_event sample_store = (r, s')" by fastforce
  then have s': "sample_store1 = s'" by (simp add: sample_store1_def)
  have d: "db sample_store = sample_tables" "es_scope sample_store = ''s''" "es_run sample_store = ''r''"
    by (simp_all add: sample_store_def)
  obtain x where x: "run_events ''s'' ''r'' (db sample_store1) = [x]" using sample_store1(5) by blast
  have "run_events ''s'' ''r'' (db sample_store) = []"
    by (simp add: d sample_tables_def empty_tables_def run_events_def rows_where_def)
  with x s' have "db s' \<noteq> db sample_store" by auto
  moreover have "quiet sample_env" using sample_calm by (simp add: calm_def)
  ultimately obtain t run row where "append_txn sample_env sample_store sample_event run row t"
    "db s' = appended sample_env run row (db sample_store)"
    using append_all_or_nothing_aux[OF _ run] by blast
  moreover from this(1) have "event_id row = ''e1''" "event_scope row = ''s''" "event_run row = ''r''"
    by (auto simp: append_txn_def d sample_event_def dest: event_to_record_id)
  ultimately show ?thesis using s' d by metis
qed

lemma sample_new_run:
  "map_of (ag_run (db sample_store1)) (run_key sample_env ''s'' ''f'') = None"
  "map_of (ag_event (db sample_store1)) (event_key sample_env ''s'' ''f'' ''e1'') = None"
  "openable sample_env c (db sample_store1)"
proof -
  obtain row run where d: "event_id row = ''e1''" "event_scope row = ''s''" "event_run row = ''r''"
    "db sample_store1 = appended sample_env run row sample_tables"
    using sample_log_tables by blast
  have "run_key sample_env ''s'' ''f'' \<noteq> run_key sample_env ''s'' ''r''"
    "event_key sample_env ''s'' ''f'' ''e1'' \<noteq> event_key sample_env ''s'' ''r'' ''e1''" by code_simp+
  then show "map_of (ag_run (db sample_store1)) (run_key sample_env ''s'' ''f'') = None"
    "map_of (ag_event (db sample_store1)) (event_key sample_env ''s'' ''f'' ''e1'') = None"
    by (simp_all add: d appended_def sample_tables_def empty_tables_def)
  have "schema_sane sample_env (db sample_store1)" "found_schema (db sample_store1) = None"
    using sample_schema_sane
    by (simp_all add: d(4) schema_sane_def found_schema_def appended_def sample_tables_def empty_tables_def)
  then show "openable sample_env c (db sample_store1)"
    by (simp add: openable_def) (simp add: sample_env_def)
qed

theorem fork_copies_prefix_witness:
  "\<exists>child t. fork_event_store sample_env ''f'' ''e1'' None sample_store1 = (Inr child, t) \<and> attached sample_env child
     \<and> list_all2 (copied sample_env) (run_events ''s'' ''r'' (db sample_store1)) (run_events ''s'' ''f'' (db t))
     \<and> length (run_events ''s'' ''f'' (db t)) = 1"
proof -
  obtain row where row: "run_events ''s'' ''r'' (db sample_store1) = [row]" "event_id row = ''e1''"
    "record_to_event sample_env row = norm_event sample_env sample_event"
    using sample_store1(5) by blast
  obtain ev where ev: "record_to_event sample_env row = Inr ev"
    using stored_event_same[OF sample_lib_ok sample_event_encodes] row(3) by metis
  then have "event_type row = ev_type ev" by (auto simp: record_to_event_def)
  moreover have "ev_type ev = ''note''" using ev row(3) by (auto simp: norm_event_def sample_event_def)
  ultimately have "event_type row \<noteq> ''runtime.snapshot''" by simp
  then show ?thesis
    using fork_copies_prefix[OF sample_calm sample_lib_ok sample_store1(1) sample_new_run(3), of "''f''" "''e1''" 0 None]
      sample_store1(3,4) sample_new_run(1,2) row(1,2)
    by (auto simp: list_all2_Cons1)
qed

end
