(* ===== verification/ForkFaults.thy ===== *)
theory ForkFaults
  imports ForkTheorems Framing
begin

text \<open>
  Forks whose requests fail: whatever fails, \<open>fork_prefix\<close> leaves no trace of the child or the whole of
  it; opening the child's handle afterwards leaves the logs as the fork's transaction made them.
\<close>

section \<open>Opening a handle on a run that exists\<close>

text \<open>The same tables but for the schema's own.\<close>

definition same_data :: "tables \<Rightarrow> tables \<Rightarrow> bool" where
  "same_data d d' \<longleftrightarrow> d\<lparr>defined := [], ag_schema := None\<rparr> = d'\<lparr>defined := [], ag_schema := None\<rparr>"

lemma same_data_refl [simp]: "same_data d d"
  by (simp add: same_data_def)

lemma same_dataD:
  assumes "same_data d d'"
  shows "ag_run d = ag_run d'" "ag_event d = ag_event d'" "ag_projection d = ag_projection d'"
    "ag_vertex d = ag_vertex d'" "ag_relation d = ag_relation d'" "ag_patch d = ag_patch d'"
  using assms by (cases d; cases d'; simp add: same_data_def)+

lemma of_data_same_data: "of_data (\<lambda>d. same_data d d0)"
  by (simp add: of_data_def same_data_def)

lemma wp_framed:
  assumes "keeps P p" and "untouching p" and "P (db s)" and "masked s = m"
    and "\<And>x t. P (db t) \<Longrightarrow> masked t = m \<Longrightarrow> Q x t" and "\<And>e t. P (db t) \<Longrightarrow> masked t = m \<Longrightarrow> R e t"
  shows "wp p Q R s"
proof -
  have "P (db (snd (p s)))" "masked (snd (p s)) = m"
    using assms(1-4) by (auto simp: keeps_def untouching_def)
  with assms(5,6) show ?thesis by (cases "p s") (auto simp: wp_def split: sum.split)
qed

lemma masked_event_store:
  assumes "masked t = masked s"
  shows "es_scope t = es_scope s" "es_run t = es_run s" "es_closed t = es_closed s"
  using arg_cong[OF assms, of es_scope] arg_cong[OF assms, of es_run] arg_cong[OF assms, of es_closed]
  by (simp_all add: masked_def)

lemma ensure_run_kept:
  fixes s :: "'s event_store_scheme"
  assumes q: "quiet E" and s: "map_of (ag_run (db s)) (run_key E (es_scope s) (es_run s)) \<noteq> None"
    and P: "P (db s)"
  shows "wp (ensure_run E) (\<lambda>_ t. P (db t)) (\<lambda>_ t. P (db t)) s"
proof -
  let ?S = "\<lambda>t. db t = db s \<and> es_scope t = es_scope s \<and> es_run t = es_run s"
  have same: "?S t" if "reach E s t" for t
    using that reach_quiet[OF q that] reach_event_store[OF that] by simp
  have read: "wp (read_run_row E) Q R t"
    if t: "reach E s t" and "\<And>x u. reach E s u \<Longrightarrow> Q x u" "\<And>e u. reach E s u \<Longrightarrow> R e u"
    for Q :: "run_row option \<Rightarrow> 's event_store_scheme \<Rightarrow> bool" and R t
    by (rule readonly_wp[OF readonly_read_run_row t]) (use that in auto)
  have create: "wp (query E (create_run (run_key E (es_scope t) (es_run t)) row)) Q R t"
    if "reach E s t" and "\<And>e u. reach E s u \<Longrightarrow> R e u" for Q R t row
  proof -
    have "create_run (run_key E (es_scope t) (es_run t)) row e (others E (tick t) (db t)) = Refused e" for e
      using s same[OF that(1)] q by (simp add: create_run_def creatable_def quiet_def)
    then show ?thesis
      using that reach_step'[OF that(1)]
      by (auto simp: wp_query wp_request arrived_def split: call_outcome.split step.split)
  qed
  have kept: "P (db t)" if "reach E s t" for t using same[OF that] P by simp
  have late: "wp (try_except (query E (create_run (run_key E (es_scope t) (es_run t)) row))
      (\<lambda>e. bnd (read_run_row E) (\<lambda>again. if again = None then throw e else ret ()))) (\<lambda>_ t. P (db t)) (\<lambda>_ t. P (db t)) t"
    if "reach E s t" for row t
    unfolding wp_try_except wp_bnd
    by (rule create[OF that], rule read, assumption) (simp_all add: wp_if wp_throw wp_ret kept)
  show ?thesis
    unfolding ensure_run_def wp_bnd
    by (rule read[OF reach_refl]) (simp_all add: wp_if wp_ret wp_bnd wp_with_self now_def wp_get_state kept late)
qed

lemma new_event_store_keeps_data:
  assumes q: "quiet E" and s: "map_of (ag_run (db s)) (run_key E sc rid) \<noteq> None"
  shows "same_data (db (snd (new_event_store E c rid sc s))) (db s)"
proof -
  let ?P = "\<lambda>d. same_data d (db s)"
  let ?o = "fresh_event_store c rid sc s"
  have r: "relies E ?P" by (rule quiet_relies[OF q])
  have o: "?P (db ?o)" "es_scope ?o = sc" "es_run ?o = rid" by (simp_all add: fresh_event_store_def)
  have close: "wp (bnd (link_close E) (\<lambda>_. bnd (modify (\<lambda>s. s\<lparr>es_closed := True\<rparr>)) (\<lambda>_. throw e))) (\<lambda>_ t. ?P (db t)) (\<lambda>_ t. ?P (db t)) t"
    if "?P (db t)" for e and t :: event_store
    by (rule keeps_wp[where P = ?P, OF _ that]) (intro keeps_intros r, simp)
  have verify: "wp (verify_integrity E) (\<lambda>_ t. ?P (db t)) (\<lambda>_ t. ?P (db t)) t" if "?P (db t)" for t :: event_store
    by (rule keeps_wp[where P = ?P, OF keeps_readonly[OF quiet_relies[OF q] readonly_verify_integrity] that])
  have run: "wp (ensure_run E) (\<lambda>_ t. ?P (db t)) (\<lambda>_ t. ?P (db t)) t" if "?P (db t)" "masked t = masked ?o" for t
    by (rule ensure_run_kept[where P = ?P, OF q _ that(1)]) (use s masked_event_store[OF that(2)] same_dataD(1)[OF that(1)] o in simp)
  have "wp (event_store_init E) (\<lambda>_ t. ?P (db t)) (\<lambda>_ t. ?P (db t)) ?o"
    unfolding event_store_init_def
    apply (simp only: wp_with_self wp_if wp_throw wp_bnd o if_cancel split: if_split)
    apply (intro conjI impI TrueI)
    apply (rule wp_framed[where P = ?P, OF keeps_connection_init[OF r] untouching_link(1) o(1) refl])
     apply (subst wp_try_except)
     apply (simp only: wp_bnd)
     apply (rule wp_framed[where P = ?P, OF keeps_ensure_schema[OF r of_data_same_data] untouching_ensure_schema], assumption, assumption)
      apply (rule wp_conseq[OF run], assumption, assumption)
       apply (rule wp_conseq[OF verify], assumption)
        apply (simp add: wp_modify)
       apply (rule close[simplified wp_bnd], assumption)
      apply (rule close[simplified wp_bnd], assumption)
     apply (rule close[simplified wp_bnd], assumption)
    by assumption
  then show ?thesis
    by (cases "event_store_init E ?o") (auto simp: new_event_store_def making_def wp_any split: sum.split)
qed

section \<open>The transaction\<close>

text \<open>The fork's transaction at the moment it is committed: the child's record and rows, nothing else.\<close>

definition fork_txn ::
  "('x, 'z) env_scheme \<Rightarrow> 's event_store_scheme \<Rightarrow> string \<Rightarrow> run_row \<Rightarrow> (string \<times> event_row) list \<Rightarrow> snapshot_txn \<Rightarrow> bool" where
  "fork_txn E s new_rid kid krs t \<longleftrightarrow>
     map_of (ag_run (base t)) (run_key E (es_scope s) (es_run s)) \<noteq> None
     \<and> map_of (ag_run (base t)) (run_key E (es_scope s) new_rid) = None
     \<and> all_creatable krs (ag_event (base t))
     \<and> work t = forked E kid krs (base t)
     \<and> written t = nothing\<lparr>t_run := [run_key E (es_scope s) (es_run s), run_key E (es_scope s) new_rid], t_event := map fst krs\<rparr>"

lemma wp_create_steps:
  assumes "transaction s = Some t" and "reach E s0 s"
    and "\<And>y. reach E s0 y \<Longrightarrow> all_creatable krs (ag_event (work t)) \<Longrightarrow> transaction y = Some
       (t\<lparr>work := (work t)\<lparr>ag_event := add_rows krs (ag_event (work t))\<rparr>,
          written := (written t)\<lparr>t_event := t_event (written t) @ map fst krs\<rparr>\<rparr>) \<Longrightarrow> Q () y"
    and R: "\<And>e y. reach E s0 y \<Longrightarrow> R e y"
  shows "wp (for_each (\<lambda>(k, row). txn_request E (create_event k row)) krs) Q R s"
  using assms(1-3)
proof (induction krs arbitrary: s t)
  case Nil
  then show ?case by (simp add: wp_rules)
next
  case (Cons a krs)
  obtain k r where a: "a = (k, r)" by (cases a)
  have w: "also_written (written t) (nothing\<lparr>t_event := [k]\<rparr>) = (written t)\<lparr>t_event := t_event (written t) @ [k]\<rparr>"
    by (cases "written t") (simp add: also_written_def nothing_def)
  have "wp (txn_request E (create_event k r)) (\<lambda>_. wp (for_each (\<lambda>(k, row). txn_request E (create_event k row)) krs) Q R) R s"
  proof (rule wp_txn_step[OF Cons.prems(1,2)])
    fix x d w'
    let ?u = "(arrived E s)\<lparr>transaction := Some (t\<lparr>work := d, written := also_written (written t) w'\<rparr>)\<rparr>"
    assume "create_event k r (refusal E (tick s)) (work t) = Done x d w'"
    then have c: "creatable event_clash k r (ag_event (work t))"
      and d: "d = (work t)\<lparr>ag_event := AList.update k r (ag_event (work t))\<rparr>" "w' = nothing\<lparr>t_event := [k]\<rparr>"
      by (simp_all add: create_event_Done)
    assume u: "reach E s0 ?u"
    show "wp (for_each (\<lambda>(k, row). txn_request E (create_event k row)) krs) Q R ?u"
    proof (rule Cons.IH[OF _ u])
      fix y
      let ?t = "t\<lparr>work := d, written := also_written (written t) w'\<rparr>"
      assume "reach E s0 y" "all_creatable krs (ag_event (work ?t))" "transaction y = Some (?t\<lparr>work :=
        (work ?t)\<lparr>ag_event := add_rows krs (ag_event (work ?t))\<rparr>,
        written := (written ?t)\<lparr>t_event := t_event (written ?t) @ map fst krs\<rparr>\<rparr>)"
      then show "Q () y"
        by (intro Cons.prems(3)) (use c in \<open>simp_all add: d w a\<close>)
    qed simp
  qed (rule R)
  then show ?case by (simp add: a wp_bnd)
qed

lemma create_run_Done:
  "create_run k r e d = Done x d' w \<longleftrightarrow> creatable run_clash k r (ag_run d)
     \<and> d' = d\<lparr>ag_run := AList.update k r (ag_run d)\<rparr> \<and> w = nothing\<lparr>t_run := [k]\<rparr>"
  by (auto simp: create_run_def)

text \<open>What a fork writes once it has read that the parent did not move and the child is not there.\<close>

lemma fork_commits:
  assumes B: "snapshot_since E s0 B"
    and kid: "run_scope kid = es_scope s0" "run_run_id kid = new_rid"
    and run: "map_of (ag_run B) (run_key E (es_scope s0) (es_run s0)) = Some run"
    and none: "map_of (ag_run B) (run_key E (es_scope s0) new_rid) = None"
    and y: "reach E s0 y" "transaction y = Some \<lparr>base = B, work = B, written = nothing\<rparr>"
    and Q: "\<And>y t. committed E s0 t y \<Longrightarrow> fork_txn E s0 new_rid kid krs t \<Longrightarrow> Q () y"
    and R: "\<And>e y. reach E s0 y \<Longrightarrow> R e y"
    and R': "\<And>e y t. committed E s0 t y \<Longrightarrow> fork_txn E s0 new_rid kid krs t \<Longrightarrow> R e y"
  shows "wp (txn_request E (merge_run (run_key E (es_scope s0) (es_run s0))
        (\<lambda>r. r\<lparr>next_seq := next_seq run, head_hash := head_hash run\<rparr>)))
      (\<lambda>_. wp (txn_request E (create_run (run_key E (es_scope s0) new_rid) kid)) (\<lambda>_.
        wp (for_each (\<lambda>(k, row). txn_request E (create_event k row)) krs) (\<lambda>_. wp (commit E) Q R) R) R) R y"
proof (rule wp_move_head[OF y(2,1) run])
  let ?rk = "run_key E (es_scope s0) (es_run s0)" and ?ck = "run_key E (es_scope s0) new_rid"
  let ?t1 = "\<lparr>base = B, work = B, written = nothing\<lparr>t_run := [?rk]\<rparr>\<rparr>"
  let ?t2 = "\<lparr>base = B, work = B\<lparr>ag_run := AList.update ?ck kid (ag_run B)\<rparr>, written = nothing\<lparr>t_run := [?rk, ?ck]\<rparr>\<rparr>"
  let ?t3 = "?t2\<lparr>work := (work ?t2)\<lparr>ag_event := add_rows krs (ag_event (work ?t2))\<rparr>,
    written := (written ?t2)\<lparr>t_event := t_event (written ?t2) @ map fst krs\<rparr>\<rparr>"
  fix z
  assume z: "reach E s0 z" and "transaction z = Some \<lparr>base = B,
    work = B\<lparr>ag_run := AList.update ?rk (run\<lparr>next_seq := next_seq run, head_hash := head_hash run\<rparr>) (ag_run B)\<rparr>,
    written = also_written nothing (nothing\<lparr>t_run := [?rk]\<rparr>)\<rparr>"
  then have tz: "transaction z = Some ?t1" using run by (simp add: update_same)
  show "wp (txn_request E (create_run ?ck kid)) (\<lambda>_.
      wp (for_each (\<lambda>(k, row). txn_request E (create_event k row)) krs) (\<lambda>_. wp (commit E) Q R) R) R z"
  proof (rule wp_txn_step[OF tz z])
    fix x d w
    let ?v = "(arrived E z)\<lparr>transaction := Some (?t1\<lparr>work := d, written := also_written (written ?t1) w\<rparr>)\<rparr>"
    assume "create_run ?ck kid (refusal E (tick z)) (work ?t1) = Done x d w" and v: "reach E s0 ?v"
    then have tv: "transaction ?v = Some ?t2" by (simp add: create_run_Done also_written_def nothing_def)
    show "wp (for_each (\<lambda>(k, row). txn_request E (create_event k row)) krs) (\<lambda>_. wp (commit E) Q R) R ?v"
    proof (rule wp_create_steps[OF tv v])
      fix u
      assume u: "reach E s0 u" "transaction u = Some ?t3" and c: "all_creatable krs (ag_event (work ?t2))"
      have txn: "fork_txn E s0 new_rid kid krs ?t3"
        using run none c by (simp add: fork_txn_def forked_def kid nothing_def)
      show "wp (commit E) Q R u"
        by (rule wp_commit_step[OF u(2,1)]) (use B Q[OF _ txn] R R'[OF _ txn] in auto)
    qed (rule R)
  qed (rule R)
qed (rule R)

lemma fork_body:
  assumes s: "reach E s0 s" "transaction s = Some \<lparr>base = B, work = B, written = nothing\<rparr>"
    and B: "snapshot_since E s0 B"
    and parent: "next_seq parent = int (length rws)"
    and kid: "kid = child_run (es_scope s0) (es_run s0) new_rid at lbl created parent (int (length krs)) h"
    and Q: "\<And>y t. committed E s0 t y \<Longrightarrow> fork_txn E s0 new_rid kid krs t \<Longrightarrow> Q () y"
    and R: "\<And>e y. reach E s0 y \<Longrightarrow> R e y"
    and R': "\<And>e y t. committed E s0 t y \<Longrightarrow> fork_txn E s0 new_rid kid krs t \<Longrightarrow> R e y"
  shows "wp (fork_in_transaction E new_rid at lbl created rws parent krs h) Q R s"
proof -
  note fields = reach_event_store[OF s(1)]
  have kf: "run_scope kid = es_scope s0" "run_run_id kid = new_rid" by (simp_all add: kid child_run_def)
  have writes: "wp (txn_request E (merge_run (run_key E (es_scope s0) (es_run s0))
        (\<lambda>r. r\<lparr>next_seq := next_seq parent, head_hash := head_hash parent\<rparr>)))
      (\<lambda>_. wp (txn_request E (create_run (run_key E (es_scope s0) new_rid) kid)) (\<lambda>_.
        wp (for_each (\<lambda>(k, row). txn_request E (create_event k row)) krs) (\<lambda>_. wp (commit E) Q R) R) R) R y"
    if "map_of (ag_run (work \<lparr>base = B, work = B, written = nothing\<rparr>)) (run_key E (es_scope s0) (es_run s0)) = Some run"
      and moved: "next_seq run = int (length rws)" "head_hash run = head_hash parent"
      and "map_of (ag_run B) (run_key E (es_scope s0) new_rid) = None"
      and "reach E s0 y" "transaction y = Some \<lparr>base = B, work = B, written = nothing\<rparr>" for y run
    using fork_commits[OF B kf that(1,4-6)[simplified], where Q = Q and R = R and krs = krs] Q R R' by (simp add: parent moved)
  show ?thesis
    unfolding fork_in_transaction_def wp_with_self wp_bnd fields child_run_def[symmetric] kid[symmetric]
    apply (rule wp_transaction_run_row[OF s(2,1)])
     apply (simp only: wp_if wp_throw split: if_split)
     apply (intro conjI impI, erule R)
     apply (simp only: select_run_def wp_bnd)
     apply (rule wp_txn_reading, assumption, assumption)
      apply (simp only: wp_if wp_throw wp_bnd one_only_reply split: if_split)
      apply (intro conjI impI, erule R)
      apply (rule writes, assumption)
    by (auto intro: R)
qed

section \<open>Every run of a fork\<close>

lemma wp_verified_quiet:
  fixes s :: "'s event_store_scheme"
  assumes q: "quiet E"
    and Q: "\<And>run y. reach E s y \<Longrightarrow> map_of (ag_run (db s)) (run_key E (es_scope s) (es_run s)) = Some run \<Longrightarrow>
      next_seq run = int (length (run_events (es_scope s) (es_run s) (db s))) \<Longrightarrow>
      verify_rows E (es_scope s) (es_run s) 0 None (run_events (es_scope s) (es_run s) (db s)) = Inr (head_hash run) \<Longrightarrow>
      Q (run_events (es_scope s) (es_run s) (db s), run) y"
    and R: "\<And>e y. reach E s y \<Longrightarrow> R e y"
  shows "wp (verified_rows_and_run E) Q R s"
proof -
  have r: "reach E s (s\<lparr>tick := Suc (tick s)\<rparr>)" "reach E s (s\<lparr>tick := Suc (Suc (tick s))\<rparr>)"
    by (cases s; simp add: reach_def drift_quiet[OF q])+
  let ?rws = "run_events (es_scope s) (es_run s) (db s)" and ?k = "run_key E (es_scope s) (es_run s)"
  let ?s1 = "s\<lparr>tick := Suc (tick s)\<rparr>"
  have row: "wp (read_run_row E) (\<lambda>found. wp (case found of None \<Rightarrow> throw (missing_run (es_run s))
      | Some run \<Rightarrow> bnd (lift (verify_rows E (es_scope s) (es_run s) 0 None ?rws)) (\<lambda>h.
          bnd (lift (verify_head ?rws run h)) (\<lambda>_. ret (?rws, run)))) Q R) R ?s1"
    if "\<not> link_closed s" "session_open s"
  proof -
    have "wp (request E (reading (\<lambda>d. only_reply (map_of (ag_run d) ?k)))) Q' R ?s1"
      if "Q' (only_reply (map_of (ag_run (db s)) ?k)) (s\<lparr>tick := Suc (Suc (tick s))\<rparr>)" for Q'
      by (rule wp_reading_quiet[OF q]) (use that r(2) R in simp_all)
    then show ?thesis
      using that r(2) Q R
      by (auto simp: read_run_row_def select_run_def wp_with_self wp_bnd wp_query wp_ret wp_throw wp_lift wp_if
          verify_head_def guard_result_def split: option.split sum.split)
  qed
  show ?thesis
    unfolding verified_rows_and_run_def wp_with_self wp_bnd wp_es_ensure_open wp_query select_run_events_def
    using R[OF reach_refl] by (auto intro!: wp_reading_quiet[OF q] R r(1))
      (unfold rows_many_reply, rule row)
qed

text \<open>A fork up to its transaction only reads; from there on it is the transaction, its handler and the child's constructor.\<close>

lemma wp_fork_prefix:
  fixes s :: event_store
  assumes R: "\<And>e y. reach E s y \<Longrightarrow> R e y"
    and writes: "\<And>rws parent z c evs krs h created y. \<lbrakk>verified_rows_and_run E s = (Inr (rws, parent), z);
      index_of (\<lambda>row. event_id row = at) rws = Some c; traverse (record_to_event E) (take (c + 1) rws) = Inr evs;
      child_rows E (es_scope s) new_rid 0 None evs = Inr (krs, h); reach E s y; snapshot_since E s (db y);
      transaction y = Some \<lparr>base = db y, work = db y, written = nothing\<rparr>\<rbrakk> \<Longrightarrow>
      wp (try_except (fork_in_transaction E new_rid at lbl created rws parent krs h) (fork_failed E new_rid))
        (\<lambda>_. wp (new_event_store E (settings s) new_rid (es_scope s)) Q R) R y"
  shows "wp (fork_prefix E new_rid at lbl) Q R s"
proof -
  have step: "wp p Q' R y" if "readonly E p" "reach E s y" "\<And>x z. reach E s z \<Longrightarrow> Q' x z"
    for y and Q' and p :: "(event_store, exn, 'c) prog"
    by (rule readonly_wp[OF that(1,2) that(3) R])
  have rest: "wp (bnd (lift (traverse (record_to_event E) (take (c + 1) rws))) (\<lambda>prefix.
       bnd (now E) (\<lambda>created.
       bnd (lift (child_rows E (es_scope s) new_rid 0 None prefix)) (\<lambda>(children, final_hash).
       bnd (begin_transaction E) (\<lambda>_.
       bnd (try_except
              (fork_in_transaction E new_rid at lbl created rws parent children final_hash)
              (fork_failed E new_rid)) (\<lambda>_.
         new_event_store E (settings s) new_rid (es_scope s))))))) Q R y"
    if y: "reach E s y" and v: "verified_rows_and_run E s = (Inr (rws, parent), z)"
      and c: "index_of (\<lambda>row. event_id row = at) rws = Some c" for y z rws parent c
  proof (cases "traverse (record_to_event E) (take (c + 1) rws)")
    case evs: (Inr evs)
    show ?thesis
    proof (cases "child_rows E (es_scope s) new_rid 0 None evs")
      case (Inr x)
      obtain krs h where krs: "x = (krs, h)" by (cases x)
      have "wp (begin_transaction E) (\<lambda>_. wp (try_except
              (fork_in_transaction E new_rid at lbl created rws parent krs h) (fork_failed E new_rid))
           (\<lambda>_. wp (new_event_store E (settings s) new_rid (es_scope s)) Q R) R) R y" for created
        by (rule wp_begin_step[OF y], rule writes[OF v c evs]) (use Inr krs in \<open>simp_all add: R\<close>)
      then show ?thesis by (simp only: evs Inr krs wp_bnd wp_lift sum.case now_def wp_get_state prod.case)
    qed (use evs R[OF y] in \<open>simp only: wp_bnd wp_lift sum.case now_def wp_get_state\<close>)
  qed (use R[OF y] in \<open>simp only: wp_bnd wp_lift sum.case\<close>)
  have verified: "wp (verified_rows_and_run E) Q' R s"
    if "\<And>rws run z. verified_rows_and_run E s = (Inr (rws, run), z) \<Longrightarrow> reach E s z \<Longrightarrow> Q' (rws, run) z" for Q'
    using that R readonlyD[OF readonly_verified_rows_and_run, of E s]
    by (cases "verified_rows_and_run E s") (auto simp: wp_def split: sum.split)
  show ?thesis
    unfolding fork_prefix_def wp_with_self wp_bnd[of "es_ensure_open"] wp_bnd[of "verified_rows_and_run E"] wp_es_ensure_open
    apply (simp only: if_bool_eq_conj)
    apply (intro conjI impI, rule R, rule reach_refl)
    apply (rule verified)
    apply (simp only: prod.case)
    apply (subst wp_bnd, rule step, intro readonly_intros, assumption)
    apply (simp only: wp_if wp_throw split: if_split)
    apply (intro conjI impI, erule R)
    apply (split option.split, intro conjI allI impI, simp only: wp_throw, erule R)
    apply (subst wp_bnd, rule step, intro readonly_intros, assumption)
    apply (simp only: wp_if wp_throw split: if_split)
    apply (intro conjI impI, erule R)
    by (rule rest, assumption+)
qed

text \<open>
  What a fork that got through its transaction has written: the copies of the verified prefix, made under
  the child's name, and the child's record.
\<close>

definition fork_done ::
  "('x, 'z) env_scheme \<Rightarrow> event_store \<Rightarrow> string \<Rightarrow> string \<Rightarrow> string option \<Rightarrow> nat \<Rightarrow> run_row \<Rightarrow> (string \<times> event_row) list \<Rightarrow> bool" where
  "fork_done E s new_rid at lbl c kid krs \<longleftrightarrow> (\<exists>parent h0 evs h created.
     map_of (ag_run (db s)) (run_key E (es_scope s) (es_run s)) = Some parent
     \<and> verify_rows E (es_scope s) (es_run s) 0 None (run_events (es_scope s) (es_run s) (db s)) = Inr h0
     \<and> index_of (\<lambda>r. event_id r = at) (run_events (es_scope s) (es_run s) (db s)) = Some c
     \<and> traverse (record_to_event E) (take (Suc c) (run_events (es_scope s) (es_run s) (db s))) = Inr evs
     \<and> child_rows E (es_scope s) new_rid 0 None evs = Inr (krs, h)
     \<and> map_of (ag_run (db s)) (run_key E (es_scope s) new_rid) = None
     \<and> all_creatable krs (ag_event (db s))
     \<and> kid = child_run (es_scope s) (es_run s) new_rid at lbl created parent (int (length krs)) h)"

lemma all_creatable_distinct:
  "all_creatable krs t \<Longrightarrow> distinct (map fst krs) \<and> (\<forall>k \<in> fst ` set krs. map_of t k = None)"
proof (induction krs arbitrary: t)
  case Nil
  then show ?case by simp
next
  case (Cons a krs)
  obtain k r where a: "a = (k, r)" by (cases a)
  from Cons.prems have k: "map_of t k = None" by (simp add: a creatable_def)
  from Cons.IH[of "AList.update k r t"] Cons.prems have IH: "distinct (map fst krs)"
    "\<forall>k' \<in> fst ` set krs. map_of (AList.update k r t) k' = None" by (simp_all add: a)
  have old: "k' \<noteq> k \<and> map_of t k' = None" if "k' \<in> fst ` set krs" for k'
    using bspec[OF IH(2) that] by (simp add: update_conv' split: if_splits)
  then have "k \<notin> fst ` set krs" by blast
  with old k IH(1) show ?case by (simp add: a)
qed

lemma fork_committed:
  assumes q: "quiet E" and c: "committed E s t y" and t: "fork_txn E s new_rid kid krs t"
    and kid: "run_scope kid = es_scope s" "run_run_id kid = new_rid"
  shows "db y = forked E kid krs (db s)" and "fork_txn E s new_rid kid krs t" and "base t = db s"
proof -
  have b: "base t = db s" "db y = install t (db s)" using committed_quiet[OF q c] by simp_all
  note t' = t[unfolded fork_txn_def b(1)]
  obtain run where run: "map_of (ag_run (db s)) (run_key E (es_scope s) (es_run s)) = Some run"
    using t' by blast
  have ne: "run_key E (es_scope s) (es_run s) \<noteq> run_key E (run_scope kid) (run_run_id kid)"
  proof
    assume "run_key E (es_scope s) (es_run s) = run_key E (run_scope kid) (run_run_id kid)"
    with t' show False unfolding kid by metis
  qed
  have dist: "distinct (map fst krs)" using t' all_creatable_distinct by blast
  have "t = \<lparr>base = db s, work = forked E kid krs (db s), written = \<lparr>t_run = [run_key E (es_scope s) (es_run s),
      run_key E (run_scope kid) (run_run_id kid)], t_event = map fst krs, t_vertex = [], t_relation = []\<rparr>\<rparr>"
    using t' b(1) by (cases t) (simp add: kid nothing_def)
  with install_fork[OF run ne dist] show "db y = forked E kid krs (db s)"
    using b(2) by simp
qed (use t committed_quiet[OF q c] in simp_all)

definition forked_off :: "('x, 'z) env_scheme \<Rightarrow> event_store \<Rightarrow> string \<Rightarrow> string \<Rightarrow> string option \<Rightarrow> tables \<Rightarrow> bool" where
  "forked_off E s new_rid at lbl d \<longleftrightarrow>
     (\<exists>c kid krs. fork_done E s new_rid at lbl c kid krs \<and> same_data d (forked E kid krs (db s)))"

text \<open>The database when a fork has raised: as it was, or with the whole child.\<close>

definition fork_left :: "('x, 'z) env_scheme \<Rightarrow> event_store \<Rightarrow> string \<Rightarrow> string \<Rightarrow> string option \<Rightarrow> tables \<Rightarrow> bool" where
  "fork_left E s new_rid at lbl d \<longleftrightarrow> d = db s \<or> forked_off E s new_rid at lbl d"

lemma fork_left_reach: "quiet E \<Longrightarrow> reach E s t \<Longrightarrow> fork_left E s new_rid at lbl (db t)"
  by (simp add: fork_left_def reach_quiet)

lemma fork_failed_left:
  assumes "quiet E" and "fork_left E s new_rid at lbl (db t)"
  shows "wp (fork_failed E new_rid e) Q (\<lambda>_ t. fork_left E s new_rid at lbl (db t)) t"
proof (rule wp_failing[OF readonly_fork_failed throwing_fork_failed reach_refl])
  show "fork_left E s new_rid at lbl (db t')" if "reach E t t'" for t'
    using assms(2) reach_quiet[OF assms(1) that] by simp
qed

text \<open>The parent as a fork verified it, with the fork point found.\<close>

definition fork_source :: "('x, 'z) env_scheme \<Rightarrow> event_store \<Rightarrow> string \<Rightarrow> run_row \<Rightarrow> nat \<Rightarrow> bool" where
  "fork_source E s at parent c \<longleftrightarrow>
     map_of (ag_run (db s)) (run_key E (es_scope s) (es_run s)) = Some parent
     \<and> next_seq parent = int (length (run_events (es_scope s) (es_run s) (db s)))
     \<and> verify_rows E (es_scope s) (es_run s) 0 None (run_events (es_scope s) (es_run s) (db s)) = Inr (head_hash parent)
     \<and> index_of (\<lambda>r. event_id r = at) (run_events (es_scope s) (es_run s) (db s)) = Some c"

lemma fork_writes:
  assumes q: "quiet E" and source: "fork_source E s at parent c"
    and evs: "traverse (record_to_event E) (take (Suc c) (run_events (es_scope s) (es_run s) (db s))) = Inr evs"
    and krs: "child_rows E (es_scope s) new_rid 0 None evs = Inr (krs, h)"
    and y: "reach E s y" "snapshot_since E s (db y)" "transaction y = Some \<lparr>base = db y, work = db y, written = nothing\<rparr>"
  shows "wp (try_except
       (fork_in_transaction E new_rid at lbl created (run_events (es_scope s) (es_run s) (db s)) parent krs h) (fork_failed E new_rid))
     (\<lambda>_. wp (new_event_store E (settings s) new_rid (es_scope s)) (\<lambda>_ t. forked_off E s new_rid at lbl (db t))
        (\<lambda>_ t. fork_left E s new_rid at lbl (db t))) (\<lambda>_ t. fork_left E s new_rid at lbl (db t)) y"
proof -
  let ?kid = "child_run (es_scope s) (es_run s) new_rid at lbl created parent (int (length krs)) h"
  have kid: "run_scope ?kid = es_scope s" "run_run_id ?kid = new_rid" by (simp_all add: child_run_def)
  have fin: "fork_done E s new_rid at lbl c ?kid krs" "db z = forked E ?kid krs (db s)" "fork_left E s new_rid at lbl (db z)"
    if "committed E s t z" "fork_txn E s new_rid ?kid krs t" for t z
  proof -
    note com = fork_committed[OF q that kid]
    from com(2)[unfolded fork_txn_def com(3)] show "fork_done E s new_rid at lbl c ?kid krs"
      using source evs krs unfolding fork_source_def fork_done_def by blast
    then show "fork_left E s new_rid at lbl (db z)"
      using com(1) same_data_refl unfolding fork_left_def forked_off_def by metis
  qed (rule fork_committed(1)[OF q that kid])
  have opened: "wp (new_event_store E (settings s) new_rid (es_scope s)) (\<lambda>_ t. forked_off E s new_rid at lbl (db t))
        (\<lambda>_ t. fork_left E s new_rid at lbl (db t)) z"
    if z: "committed E s t z" "fork_txn E s new_rid ?kid krs t" for t z
  proof -
    have "map_of (ag_run (db z)) (run_key E (es_scope s) new_rid) \<noteq> None"
      using fin(2)[OF z] by (simp add: forked_def kid)
    from new_event_store_keeps_data[OF q this, of "settings s"] fin[OF z]
    have "forked_off E s new_rid at lbl (db (snd (new_event_store E (settings s) new_rid (es_scope s) z)))"
      unfolding forked_off_def by metis
    then show ?thesis
      by (cases "new_event_store E (settings s) new_rid (es_scope s) z") (auto simp: wp_def fork_left_def split: sum.split)
  qed
  show ?thesis
    unfolding wp_try_except
    by (intro fork_body[OF y(1,3,2) _ refl])
      (use source in \<open>simp_all add: fork_source_def opened fork_failed_left[OF q] fork_left_reach[OF q] fin(3)\<close>)
qed

lemma fork_prefix_runs:
  fixes s :: event_store
  assumes q: "quiet E" and run: "fork_prefix E new_rid at lbl s = (r, s')"
  shows "db s' = db s \<and> (\<exists>e. r = Inl e) \<or> forked_off E s new_rid at lbl (db s')"
proof -
  have "wp (fork_prefix E new_rid at lbl) (\<lambda>_ t. forked_off E s new_rid at lbl (db t))
      (\<lambda>_ t. fork_left E s new_rid at lbl (db t)) s"
  proof (rule wp_fork_prefix)
    fix rws parent z c evs krs h created y
    assume v: "verified_rows_and_run E s = (Inr (rws, parent), z)" and c: "index_of (\<lambda>row. event_id row = at) rws = Some c"
      and evs: "traverse (record_to_event E) (take (c + 1) rws) = Inr evs" "child_rows E (es_scope s) new_rid 0 None evs = Inr (krs, h)"
      and y: "reach E s y" "snapshot_since E s (db y)" "transaction y = Some \<lparr>base = db y, work = db y, written = nothing\<rparr>"
    have "wp (verified_rows_and_run E) (\<lambda>(rws, parent) _. rws = run_events (es_scope s) (es_run s) (db s)
        \<and> (index_of (\<lambda>row. event_id row = at) rws = Some c \<longrightarrow> fork_source E s at parent c)) (\<lambda>_ _. True) s"
      by (rule wp_verified_quiet[OF q]) (simp_all add: fork_source_def)
    from wp_InrD[OF this v] c have source: "rws = run_events (es_scope s) (es_run s) (db s)" "fork_source E s at parent c"
      by simp_all
    show "wp (try_except (fork_in_transaction E new_rid at lbl created rws parent krs h) (fork_failed E new_rid))
        (\<lambda>_. wp (new_event_store E (settings s) new_rid (es_scope s)) (\<lambda>_ t. forked_off E s new_rid at lbl (db t))
           (\<lambda>_ t. fork_left E s new_rid at lbl (db t))) (\<lambda>_ t. fork_left E s new_rid at lbl (db t)) y"
      unfolding source(1) by (rule fork_writes[OF q source(2) _ evs(2) y]) (use evs(1) source(1) in simp)
  qed (rule fork_left_reach[OF q])
  with run show ?thesis by (auto simp: wp_def fork_left_def split: sum.splits)
qed

lemma fork_done_rows:
  assumes lib: "lib_ok E" and d: "fork_done E s new_rid at lbl c kid krs"
  shows "new_rows E (es_scope s) new_rid krs (db s)"
    and "list_all2 (copied E) (take (Suc c) (run_events (es_scope s) (es_run s) (db s))) (map snd krs)"
    and "\<exists>h. verify_rows E (es_scope s) new_rid 0 None (map snd krs) = Inr h \<and> head_hash kid = h \<and> next_seq kid = int (length krs)"
proof -
  let ?rws = "run_events (es_scope s) (es_run s) (db s)"
  from d obtain parent h0 evs h created where
    ver: "verify_rows E (es_scope s) (es_run s) 0 None ?rws = Inr h0"
    and c: "index_of (\<lambda>r. event_id r = at) ?rws = Some c"
    and evs: "traverse (record_to_event E) (take (Suc c) ?rws) = Inr evs"
    and krs: "child_rows E (es_scope s) new_rid 0 None evs = Inr (krs, h)"
    and new: "all_creatable krs (ag_event (db s))"
    and kid: "kid = child_run (es_scope s) (es_run s) new_rid at lbl created parent (int (length krs)) h"
    unfolding fork_done_def by blast
  let ?pre = "take (Suc c) ?rws"
  have "c < length ?rws" using index_of_Some[OF c] by blast
  note pre = verify_rows_take[OF ver this]
  have decodes: "\<exists>r::event_row. record_to_event E r = Inr e" if "e \<in> set evs" for e
    using traverse_from[OF evs that] by blast
  have "map fst krs = map (\<lambda>e. event_key E (es_scope s) new_rid (ev_id e)) evs"
    using child_rows_verify[OF lib, where evs = evs and sc = "es_scope s" and rid = new_rid and n = 0 and p = None] decodes krs by auto
  also have "\<dots> = map (\<lambda>r. event_key E (es_scope s) new_rid (event_id r)) ?pre"
  proof (rule nth_equalityI)
    show "map (\<lambda>e. event_key E (es_scope s) new_rid (ev_id e)) evs ! i =
        map (\<lambda>r. event_key E (es_scope s) new_rid (event_id r)) ?pre ! i"
      if "i < length (map (\<lambda>e. event_key E (es_scope s) new_rid (ev_id e)) evs)" for i
      using that traverse_Inr_length[OF evs] record_to_event_id[OF traverse_Inr_nth[OF evs, of i]] by simp
  qed (simp add: traverse_Inr_length[OF evs])
  finally have firsts: "map fst krs = map (\<lambda>r. event_key E (es_scope s) new_rid (event_id r)) ?pre" .
  have "list_all (\<lambda>k. map_of (ag_event (db s)) k = None) (map fst krs)"
    using all_creatable_distinct[OF new] by (auto simp: list_all_iff)
  then have fresh: "list_all (\<lambda>r. map_of (ag_event (db s)) (event_key E (es_scope s) new_rid (event_id r)) = None) ?pre"
    unfolding firsts by (simp add: list_all_iff)
  have "distinct (map (\<lambda>r. event_key E (es_scope s) new_rid (event_id r)) ?pre)"
    using all_creatable_distinct[OF new] unfolding firsts by blast
  from prefix_children[OF lib pre this fresh]
  obtain evs' krs' h' where kids: "traverse (record_to_event E) ?pre = Inr evs'"
    "child_rows E (es_scope s) new_rid 0 None evs' = Inr (krs', h')"
    "verify_rows E (es_scope s) new_rid 0 None (map snd krs') = Inr h'"
    "new_rows E (es_scope s) new_rid krs' (db s)" "list_all2 (copied E) ?pre (map snd krs')"
    by metis
  have "krs' = krs" "h' = h" using kids(1,2) evs krs by simp_all
  with kids(3-5) kid show "new_rows E (es_scope s) new_rid krs (db s)" "list_all2 (copied E) ?pre (map snd krs)"
    "\<exists>h. verify_rows E (es_scope s) new_rid 0 None (map snd krs) = Inr h \<and> head_hash kid = h \<and> next_seq kid = int (length krs)"
    by (simp_all add: child_run_def)
qed

text \<open>
  Property C12. While no other session writes, whichever requests of \<open>fork_event_store\<close> fail, those that
  open the child's handle after the commit included: the database is as it was and the call raised, or the
  whole child is there. Its record names the parent and the fork point, its log is intact and holds, in
  order, copies of the parent's rows up to the fork point, and every other run's log and record and the
  whole projection are as they were. The call may raise although the child is there.
\<close>

theorem fork_all_or_nothing:
  fixes s :: event_store
  assumes "quiet E" and "lib_ok E" and "tables_ok E (db s)" and "fork_event_store E new_rid at lbl s = (r, s')"
  shows "db s' = db s \<and> (\<exists>e. r = Inl e)
     \<or> (\<exists>c kid. index_of (\<lambda>r. event_id r = at) (run_events (es_scope s) (es_run s) (db s)) = Some c
          \<and> list_all2 (copied E) (take (Suc c) (run_events (es_scope s) (es_run s) (db s))) (run_events (es_scope s) new_rid (db s'))
          \<and> intact E (es_scope s) new_rid (db s') \<and> tables_ok E (db s')
          \<and> ag_run (db s') = ag_run (db s) @ [(run_key E (es_scope s) new_rid, kid)]
          \<and> parent_run_id kid = Some (es_run s) \<and> forked_at_event_id kid = Some at
          \<and> (\<forall>sc rid. sc \<noteq> es_scope s \<or> rid \<noteq> new_rid \<longrightarrow> run_events sc rid (db s') = run_events sc rid (db s))
          \<and> ag_projection (db s') = ag_projection (db s) \<and> ag_vertex (db s') = ag_vertex (db s)
          \<and> ag_relation (db s') = ag_relation (db s) \<and> ag_patch (db s') = ag_patch (db s))"
proof -
  have "fork_prefix E new_rid at lbl s = (r, s')" using assms(4) by (simp add: fork_event_store_def)
  from fork_prefix_runs[OF assms(1) this, unfolded forked_off_def] show ?thesis
  proof (elim disjE exE conjE)
    fix c kid krs
    assume d: "fork_done E s new_rid at lbl c kid krs" and same: "same_data (db s') (forked E kid krs (db s))"
    note rows = fork_done_rows[OF assms(2) d]
    have none: "map_of (ag_run (db s)) (run_key E (es_scope s) new_rid) = None"
      and c: "index_of (\<lambda>r. event_id r = at) (run_events (es_scope s) (es_run s) (db s)) = Some c"
      and kid: "run_scope kid = es_scope s" "run_run_id kid = new_rid" "parent_run_id kid = Some (es_run s)"
        "forked_at_event_id kid = Some at"
      using d by (auto simp: fork_done_def child_run_def)
    note tabs = forked_tables[OF assms(3) none kid(1,2) rows(1)]
    have log: "run_events sc rid (db s') = run_events sc rid (forked E kid krs (db s))" for sc rid
      using same_dataD(2)[OF same] by (simp add: run_events_def)
    have mine: "run_events (es_scope s) new_rid (db s') = map snd krs"
      using rows(3) seqs_sorted by (auto simp: log tabs(5))
    have "intact E (es_scope s) new_rid (db s')"
      using rows(3) none kid(1,2) by (auto simp: intact_def mine same_dataD(1)[OF same] tabs(4) map_add_def run_in_scope_def)
    moreover have "tables_ok E (db s')"
      using tabs(1) same_dataD(1,2)[OF same] by (simp add: tables_ok_def)
    moreover have "ag_run (db s') = ag_run (db s) @ [(run_key E (es_scope s) new_rid, kid)]"
      by (simp add: same_dataD(1)[OF same] tabs(4))
    moreover have "ag_projection (db s') = ag_projection (db s)" "ag_vertex (db s') = ag_vertex (db s)"
      "ag_relation (db s') = ag_relation (db s)" "ag_patch (db s') = ag_patch (db s)"
      by (simp_all add: same_dataD[OF same] forked_def)
    ultimately show ?thesis using c kid(3,4) rows(2) tabs(6) log mine by (metis (no_types, lifting))
  qed simp
qed

theorem fork_all_or_nothing_witness:
  "db (snd (fork_event_store sample_env ''f'' ''e2'' None sample_store1)) = db sample_store1
   \<and> intact sample_env ''s'' ''f'' (db (snd (fork_event_store sample_env ''f'' ''e1'' None sample_store1)))"
proof -
  have q: "quiet sample_env" using sample_calm by (simp add: calm_def)
  have ok: "tables_ok sample_env (db sample_store1)" using sample_store1(1) by (simp add: attached_def)
  note either = fork_all_or_nothing[OF q sample_lib_ok ok surjective_pairing]
  obtain row where row: "run_events ''s'' ''r'' (db sample_store1) = [row]" "event_id row = ''e1''"
    "record_to_event sample_env row = norm_event sample_env sample_event"
    using sample_store1(5) by blast
  obtain ev where ev: "record_to_event sample_env row = Inr ev"
    using stored_event_same[OF sample_lib_ok sample_event_encodes] row(3) by metis
  then have "event_type row = ev_type ev" by (auto simp: record_to_event_def)
  moreover have "ev_type ev = ''note''" using ev row(3) by (auto simp: norm_event_def sample_event_def)
  ultimately have "event_type row \<noteq> ''runtime.snapshot''" by simp
  then obtain child t where "fork_prefix sample_env ''f'' ''e1'' None sample_store1 = (Inr child, t)"
    using fork_prefix_calm[OF sample_calm sample_lib_ok sample_store1(1) sample_new_run(3), of "''f''" "''e1''" 0 None]
      sample_store1(3,4) sample_new_run(1,2) row(1,2) by auto
  then have "fst (fork_event_store sample_env ''f'' ''e1'' None sample_store1) = Inr child"
    by (simp add: fork_event_store_def)
  with either[of "''f''" "''e1''" None] either[of "''f''" "''e2''" None] show ?thesis
    using row(1,2) sample_store1(3,4) by auto
qed

end
