(* ===== verification/LogSafety.thy ===== *)
theory LogSafety
  imports ForkFaults
begin

text \<open>
  Every log of the database stays intact: whatever sequence of calls runs, whichever requests fail and
  whatever other sessions commit in between, as long as these keep the logs intact themselves and the
  server lets only the first committer of a record win.
\<close>

section \<open>The invariant\<close>

definition logs_ok :: "('x, 'z) env_scheme \<Rightarrow> tables \<Rightarrow> bool" where
  "logs_ok E d \<longleftrightarrow> tables_ok E d \<and> list_all (\<lambda>(_, q). intact E (run_scope q) (run_run_id q) d) (ag_run d)"

definition log_rely :: "('x, 'z) env_scheme \<Rightarrow> bool" where
  "log_rely E \<longleftrightarrow> first_committer_wins E \<and> relies E (logs_ok E)"

lemma logs_ok_intact:
  assumes "logs_ok E d" and "map_of (ag_run d) (run_key E sc rid) = Some run" and "run_in_scope sc rid run"
  shows "intact E sc rid d"
  using assms by (auto simp: logs_ok_def list_all_iff run_in_scope_def dest!: map_of_SomeD)

text \<open>A change of one run's log only.\<close>

lemma intact_cong:
  assumes "map_of (ag_run d') (run_key E sc rid) = map_of (ag_run d) (run_key E sc rid)"
    and "run_events sc rid d' = run_events sc rid d"
  shows "intact E sc rid d' = intact E sc rid d"
  unfolding intact_def assms ..

lemma logs_ok_one_run:
  assumes ok: "logs_ok E d" and ok': "tables_ok E d'" and int: "intact E sc rid d'"
    and runs: "\<And>k. k \<noteq> run_key E sc rid \<Longrightarrow> map_of (ag_run d') k = map_of (ag_run d) k"
    and events: "\<And>sc' rid'. (sc', rid') \<noteq> (sc, rid) \<Longrightarrow> run_events sc' rid' d' = run_events sc' rid' d"
  shows "logs_ok E d'"
proof -
  have "intact E (run_scope q) (run_run_id q) d'" if q: "(k, q) \<in> set (ag_run d')" for k q
  proof (cases "(run_scope q, run_run_id q) = (sc, rid)")
    case True
    with int show ?thesis by simp
  next
    case False
    have here: "map_of (ag_run d') k = Some q" using q tables_okD(1)[OF ok'] by (simp add: map_of_Some_iff)
    have key: "k = run_key E (run_scope q) (run_run_id q)" by (rule tables_okD(3)[OF ok' q])
    have "k \<noteq> run_key E sc rid"
    proof
      assume "k = run_key E sc rid"
      with int here False show False by (simp add: intact_def run_in_scope_def)
    qed
    then have old: "map_of (ag_run d) k = Some q" using runs here by simp
    then have "(k, q) \<in> set (ag_run d)" by (rule map_of_SomeD)
    then have "intact E (run_scope q) (run_run_id q) d" using ok by (auto simp: logs_ok_def list_all_iff)
    then show ?thesis using intact_cong events[OF False] old here key by metis
  qed
  with ok' show ?thesis by (auto simp: logs_ok_def list_all_iff)
qed

lemma logs_ok_cong: "\<lbrakk>ag_run d' = ag_run d; ag_event d' = ag_event d\<rbrakk> \<Longrightarrow> logs_ok E d' = logs_ok E d"
proof -
  assume same: "ag_run d' = ag_run d" "ag_event d' = ag_event d"
  have "intact E sc rid d' = intact E sc rid d" for sc rid
    by (rule intact_cong) (simp_all add: same run_events_def)
  then show ?thesis by (simp add: logs_ok_def tables_ok_def same)
qed

lemma of_data_logs_ok: "of_data (logs_ok E)"
  unfolding of_data_def by (intro allI logs_ok_cong) simp_all

section \<open>Run records\<close>

lemma stmt_keeps_create_run:
  assumes "k = run_key E (run_scope q) (run_run_id q)" and "next_seq q = 0" and "head_hash q = None"
  shows "stmt_keeps (logs_ok E) (create_run k q)"
  unfolding stmt_keeps_def
proof (intro allI impI)
  fix e d x d' w
  assume ok: "logs_ok E d" and "create_run k q e d = Done x d' w"
  then have none: "map_of (ag_run d) (run_key E (run_scope q) (run_run_id q)) = None" and d': "d' = with_new_run E q d"
    by (simp_all add: create_run_Done creatable_def with_new_run_def assms(1))
  have tok: "tables_ok E d" using ok by (simp add: logs_ok_def)
  have ev: "run_events sc rid d' = run_events sc rid d" for sc rid by (simp add: d' with_new_run_def run_events_def)
  have "intact E (run_scope q) (run_run_id q) d'"
    unfolding intact_def ev using absent_run(3)[OF tok none] assms(2,3) by (simp add: d' with_new_run_def run_in_scope_def)
  then show "logs_ok E d'"
    using tables_ok_new_run(1)[OF tok none] by (intro logs_ok_one_run[OF ok]) (simp_all add: ev, simp_all add: d' with_new_run_def)
qed

lemma set_run_fields_keep:
  "run_scope (fold set_run_field kvs r) = run_scope r" "run_run_id (fold set_run_field kvs r) = run_run_id r"
  "next_seq (fold set_run_field kvs r) = next_seq r" "head_hash (fold set_run_field kvs r) = head_hash r"
  by (induction kvs arbitrary: r) (auto simp: set_run_field_def)

lemma tables_ok_same_runs:
  assumes ok: "tables_ok E d" and q: "map_of (ag_run d) k = Some q"
    and q': "run_scope q' = run_scope q" "run_run_id q' = run_run_id q"
  shows "tables_ok E (d\<lparr>ag_run := AList.update k q' (ag_run d)\<rparr>)"
proof -
  have runs: "set (AList.update k q' (ag_run d)) = {kr \<in> set (ag_run d). fst kr \<noteq> k} \<union> {(k, q')}"
    using tables_okD(1)[OF ok] by (simp add: set_update_alist)
  have old: "(k, q) \<in> set (ag_run d)" using q by (rule map_of_SomeD)
  show ?thesis
  proof (rule tables_okI; simp)
    show "distinct (map fst (AList.update k q' (ag_run d)))" "distinct (map fst (ag_event d))"
      using tables_okD(1,2)[OF ok] by simp_all
    show "k' = run_key E (run_scope p) (run_run_id p)" if "(k', p) \<in> set (AList.update k q' (ag_run d))" for k' p
      using that tables_okD(3)[OF ok] old q' unfolding runs by auto
    show "k' = event_key E (event_scope r) (event_run r) (event_id r)" if "(k', r) \<in> set (ag_event d)" for k' r
      by (rule tables_okD(4)[OF ok that])
    show "k' = k''" if "(k', r) \<in> set (ag_event d)" "(k'', r') \<in> set (ag_event d)" "event_clash r r'" for k' r k'' r'
      by (rule tables_okD(6)[OF ok that])
    show "\<exists>x\<in>set (AList.update k q' (ag_run d)). case x of (k', p) \<Rightarrow> run_scope p = event_scope r \<and> run_run_id p = event_run r"
      if "(k', r) \<in> set (ag_event d)" for k' r
    proof -
      from tables_okD(5)[OF ok that] obtain k'' p where
        p: "(k'', p) \<in> set (ag_run d)" "run_scope p = event_scope r" "run_run_id p = event_run r"
        by blast
      show ?thesis
      proof (cases "k'' = k")
        case True
        then have "p = q" using p(1) old tables_okD(1)[OF ok] by (metis eq_key_imp_eq_value)
        then show ?thesis using p(2,3) q' unfolding runs by auto
      next
        case False
        then show ?thesis using p unfolding runs by force
      qed
    qed
  qed
qed

lemma stmt_keeps_update_run: "stmt_keeps (logs_ok E) (update_only_run k (fold set_run_field kvs))"
  unfolding stmt_keeps_def
proof (intro allI impI)
  fix e d x d' w
  assume ok: "logs_ok E d" and "update_only_run k (fold set_run_field kvs) e d = Done x d' w"
  then obtain q where q: "map_of (ag_run d) k = Some q"
    and d': "d' = d\<lparr>ag_run := AList.update k (fold set_run_field kvs q) (ag_run d)\<rparr>"
    by (auto simp: update_only_run_def split: option.splits)
  have tok: "tables_ok E d" using ok by (simp add: logs_ok_def)
  have key: "k = run_key E (run_scope q) (run_run_id q)" using tables_okD(3)[OF tok] q by (auto dest!: map_of_SomeD)
  have ev: "run_events sc rid d' = run_events sc rid d" for sc rid by (simp add: d' run_events_def)
  have "intact E (run_scope q) (run_run_id q) d"
    using logs_ok_intact[OF ok] q key by (simp add: run_in_scope_def)
  then have "intact E (run_scope q) (run_run_id q) d'"
    unfolding intact_def ev using q key by (simp add: d' set_run_fields_keep run_in_scope_def)
  then show "logs_ok E d'"
    using tables_ok_same_runs[OF tok q set_run_fields_keep(1,2)]
    by (intro logs_ok_one_run[OF ok]) (simp_all add: ev, simp_all add: d' key)
qed

section \<open>Commits\<close>

lemma committed_logs_ok:
  assumes rely: "log_rely E" and ok: "logs_ok E (db s)" and c: "committed E s t y"
    and inst: "\<And>d. \<lbrakk>logs_ok E (base t); logs_ok E d; same_records (written t) (base t) d\<rbrakk> \<Longrightarrow> logs_ok E (install t d)"
  shows "logs_ok E (db y)"
proof -
  have r: "relies E (logs_ok E)" and f: "first_committer_wins E" using rely by (simp_all add: log_rely_def)
  from committedE[OF c] obtain m where m: "verdict E (m - 1) t (drift E (tick s) m (db s)) = None"
    "db y = drift E m (tick y) (install t (drift E (tick s) m (db s)))" "snapshot_since E s (base t)"
    by metis
  have "logs_ok E (base t)" using m(3) drift_relies[OF r ok] by (auto simp: snapshot_since_def)
  moreover have "same_records (written t) (base t) (drift E (tick s) m (db s))"
    using f m(1) unfolding first_committer_wins_def by blast
  ultimately have "logs_ok E (install t (drift E (tick s) m (db s)))"
    using inst drift_relies[OF r ok] by blast
  then show ?thesis unfolding m(2) by (rule drift_relies[OF r])
qed

lemma install_append_ok:
  assumes lib: "lib_ok E" and ev: "event_ok E ev" and t: "append_txn E s ev run row t"
    and ok: "logs_ok E d" and same: "same_records (written t) (base t) d"
  shows "logs_ok E (install t d)"
proof -
  let ?sc = "es_scope s" and ?rid = "es_run s"
  from t obtain f h where f: "event_to_record E ev = Inr f"
    and h: "event_hash E ?sc ?rid (next_seq run) ev (head_hash run) = Inr h"
    and row: "row = event_content f ?sc ?rid (next_seq run) (head_hash run) h"
    and run: "run_in_scope ?sc ?rid run"
    by (auto simp: append_txn_def)
  have here: "map_of (ag_run d) (run_key E ?sc ?rid) = Some run" "map_of (ag_event d) (event_key E ?sc ?rid (ev_id ev)) = None"
    using t same by (simp_all add: append_txn_def same_records_def)
  have keys: "event_scope row = ?sc" "event_run row = ?rid" "event_id row = ev_id ev" "hash row = h"
    by (simp_all add: row event_to_record_id[OF f])
  have inr: "in_run ?sc ?rid row" by (simp add: in_run_def keys)
  have tok: "tables_ok E d" using ok by (simp add: logs_ok_def)
  have log: "next_seq run = int (length (run_events ?sc ?rid d))"
    "verify_rows E ?sc ?rid 0 None (run_events ?sc ?rid d) = Inr (head_hash run)"
    using logs_ok_intact[OF ok here(1) run] here(1) by (simp_all add: intact_def)
  note fits = next_row_fits[OF lib ev f tok inr log h row here(2)]
  have int: "intact E ?sc ?rid (appended E run row d)"
    unfolding intact_def fits(2) using run log fits(3)
    by (simp add: appended_def keys run_in_scope_def del: verify_rows.simps)
  have tabs: "tables_ok E (appended E run row d)"
    using tables_ok_appended[OF tok, of row run] here(1) run fits(1) by (simp add: keys)
  have others: "run_events sc rid (appended E run row d) = run_events sc rid d" if "(sc, rid) \<noteq> (?sc, ?rid)" for sc rid
    using here(2) that by (subst run_events_appended) (auto simp: keys in_run_def)
  show ?thesis
    unfolding install_append[OF t]
    by (rule logs_ok_one_run[OF ok tabs int _ others]) (simp_all add: appended_def keys)
qed

text \<open>
  Two databases that hold the same records beyond a position of a run, with logs of the run that both
  verify: past that position the two logs are the same rows, under the same keys.
\<close>

lemma rows_beyond_agree:
  assumes tok: "tables_ok E B" "tables_ok E d"
    and ver: "verify_rows E sc rid 0 None (run_events sc rid B) = Inr hB" "verify_rows E sc rid 0 None (run_events sc rid d) = Inr h"
    and same: "\<forall>k \<in> set (keys_where (beyond sc rid n) (ag_event B)). map_of (ag_event d) k = map_of (ag_event B) k"
    and j: "j < length (run_events sc rid B)" "int j > n"
  shows "run_events sc rid d ! j = run_events sc rid B ! j"
proof -
  let ?r = "run_events sc rid B ! j"
  note posB = verify_rows_nth[OF ver(1)] and pos = verify_rows_nth[OF ver(2)]
  have "?r \<in> set (run_events sc rid B)" using j(1) by simp
  then obtain k where k: "(k, ?r) \<in> set (ag_event B)" "in_run sc rid ?r" by (auto simp: run_events_set)
  then have "k \<in> set (keys_where (beyond sc rid n) (ag_event B))"
    using posB[OF j(1)] j(2) tables_okD(2)[OF tok(1)] by (auto simp: in_keys_where beyond_def)
  then have "map_of (ag_event d) k = Some ?r"
    using same k(1) tables_okD(2)[OF tok(1)] by (simp add: map_of_Some_iff)
  then have "?r \<in> set (run_events sc rid d)" using k(2) run_events_at_key by blast
  then obtain j' where j': "j' < length (run_events sc rid d)" "run_events sc rid d ! j' = ?r" by (auto simp: in_set_conv_nth)
  then have "j' = j" using pos[OF j'(1)] posB[OF j(1)] by simp
  with j' show ?thesis by simp
qed

lemma keys_beyond_agree:
  assumes tok: "tables_ok E B" "tables_ok E d"
    and ver: "verify_rows E sc rid 0 None (run_events sc rid B) = Inr hB" "verify_rows E sc rid 0 None (run_events sc rid d) = Inr h"
    and same: "\<forall>k \<in> set (keys_where (beyond sc rid n) (ag_event B)). map_of (ag_event d) k = map_of (ag_event B) k"
    and len: "length (run_events sc rid d) = length (run_events sc rid B)" and r: "(k, r) \<in> set (ag_event d)"
  shows "k \<in> set (keys_where (beyond sc rid n) (ag_event B)) \<longleftrightarrow> beyond sc rid n r"
proof
  assume k: "k \<in> set (keys_where (beyond sc rid n) (ag_event B))"
  then obtain r' where "map_of (ag_event B) k = Some r'" "beyond sc rid n r'"
    using tables_okD(2)[OF tok(1)] by (auto simp: in_keys_where)
  moreover have "map_of (ag_event d) k = Some r" using r tables_okD(2)[OF tok(2)] by (simp add: map_of_Some_iff)
  ultimately show "beyond sc rid n r" using same k by simp
next
  assume b: "beyond sc rid n r"
  then have "r \<in> set (run_events sc rid d)" using r by (auto simp: run_events_set beyond_def)
  then obtain j where j: "j < length (run_events sc rid d)" "run_events sc rid d ! j = r" by (auto simp: in_set_conv_nth)
  then have "seq r = int j" using verify_rows_nth[OF ver(2)] by auto
  then have "r = run_events sc rid B ! j" "j < length (run_events sc rid B)"
    using rows_beyond_agree[OF tok ver same, of j] j len b by (simp_all add: beyond_def)
  then have "r \<in> set (run_events sc rid B)" by simp
  then obtain k' where k': "(k', r) \<in> set (ag_event B)" by (auto simp: run_events_set)
  then have "k' = k" using tables_okD(4)[OF tok(1) k'] tables_okD(4)[OF tok(2) r] by simp
  with k' b show "k \<in> set (keys_where (beyond sc rid n) (ag_event B))"
    using tables_okD(2)[OF tok(1)] by (auto simp: in_keys_where)
qed

text \<open>The row the two logs keep at that position may differ, but not in its hash: what follows it names it.\<close>

lemma kept_hash_agrees:
  assumes tok: "tables_ok E B" "tables_ok E d"
    and ver: "verify_rows E sc rid 0 None (run_events sc rid B) = Inr h" "verify_rows E sc rid 0 None (run_events sc rid d) = Inr h"
    and same: "\<forall>k \<in> set (keys_where (beyond sc rid (int j)) (ag_event B)). map_of (ag_event d) k = map_of (ag_event B) k"
    and len: "length (run_events sc rid d) = length (run_events sc rid B)" and j: "j < length (run_events sc rid B)"
  shows "hash (run_events sc rid d ! j) = hash (run_events sc rid B ! j)"
proof (cases "Suc j < length (run_events sc rid B)")
  case True
  then have "run_events sc rid d ! Suc j = run_events sc rid B ! Suc j"
    by (intro rows_beyond_agree[OF tok ver same]) simp_all
  then show ?thesis
    using verify_rows_nth[OF ver(2), of "Suc j"] verify_rows_nth[OF ver(1), of "Suc j"] True len by simp
next
  case False
  then have l: "length (run_events sc rid B) = Suc j" using j by simp
  then have ne: "run_events sc rid B \<noteq> []" "run_events sc rid d \<noteq> []" using len by auto
  then have "last (run_events sc rid B) = run_events sc rid B ! j" "last (run_events sc rid d) = run_events sc rid d ! j"
    using l len by (simp_all add: last_conv_nth)
  with ne show ?thesis using verify_rows_final[OF ver(1)] verify_rows_final[OF ver(2)] by simp
qed

text \<open>
  A truncation whose run record is still the one it read, and whose rows beyond the event are still
  there, finds the log it read from there on.
\<close>

lemma install_truncate_concurrent:
  assumes t: "truncate_txn E s i run kept t" and okB: "logs_ok E (base t)" and ok: "logs_ok E d"
    and same: "same_records (written t) (base t) d"
  obtains k kept' where "install t d = truncated E (es_scope s) (es_run s) run kept' d"
    and "map_of (ag_run d) (run_key E (es_scope s) (es_run s)) = Some run" and "run_in_scope (es_scope s) (es_run s) run"
    and "map_of (ag_event d) k = Some kept'" and "in_run (es_scope s) (es_run s) kept'"
proof -
  let ?sc = "es_scope s" and ?rid = "es_run s" and ?B = "base t"
  let ?rk = "run_key E ?sc ?rid" and ?P = "beyond ?sc ?rid (seq kept)"
  let ?L = "run_events ?sc ?rid d" and ?LB = "run_events ?sc ?rid ?B"
  let ?K = "keys_where ?P (ag_event ?B)"
  from t have run: "map_of (ag_run ?B) ?rk = Some run" "run_in_scope ?sc ?rid run"
    and kept: "map_of (ag_event ?B) (event_key E ?sc ?rid i) = Some kept" "in_run ?sc ?rid kept"
    by (auto simp: truncate_txn_def)
  have runD: "map_of (ag_run d) ?rk = Some run"
    and evD: "\<forall>k \<in> set ?K. map_of (ag_event d) k = map_of (ag_event ?B) k"
    using t same by (auto simp: truncate_txn_def same_records_def list_all_iff)
  have logB: "next_seq run = int (length ?LB)" "verify_rows E ?sc ?rid 0 None ?LB = Inr (head_hash run)"
    using logs_ok_intact[OF okB run] run(1) by (simp_all add: intact_def)
  have log: "next_seq run = int (length ?L)" "verify_rows E ?sc ?rid 0 None ?L = Inr (head_hash run)"
    using logs_ok_intact[OF ok runD run(2)] runD by (simp_all add: intact_def)
  have len: "length ?L = length ?LB" using log(1) logB(1) by simp
  have tok: "tables_ok E ?B" "tables_ok E d" using ok okB by (simp_all add: logs_ok_def)
  obtain j where j: "j < length ?LB" "?LB ! j = kept"
    using run_events_at_key[OF kept] by (auto simp: in_set_conv_nth)
  have sk: "seq kept = int j" using verify_rows_nth[OF logB(2) j(1)] j(2) by simp
  have mem: "?L ! j \<in> set ?L" using j(1) len by simp
  have "hash (?L ! j) = hash kept"
    using kept_hash_agrees[OF tok logB(2) log(2) evD[unfolded sk] len j(1)] j(2) by simp
  moreover have "seq (?L ! j) = seq kept" using verify_rows_nth[OF log(2)] j(1) len sk by simp
  ultimately have as_kept: "truncated E ?sc ?rid run (?L ! j) d = truncated E ?sc ?rid run kept d"
    by (simp add: truncated_def)
  have "install_table ?K (delete_where ?P (ag_event ?B)) (ag_event d) = filter (\<lambda>kr. fst kr \<notin> set ?K) (ag_event d)"
    using tables_okD(2)[OF tok(1)] by (intro install_deleted) (auto simp: map_of_delete_where in_keys_where)
  also have "\<dots> = delete_where ?P (ag_event d)"
    unfolding delete_where_def using keys_beyond_agree[OF tok logB(2) log(2) evD len] by (intro filter_cong) auto
  finally have "install t d = truncated E ?sc ?rid run (?L ! j) d"
    unfolding as_kept using t by (simp add: install_def install_table_def truncate_txn_def truncated_def nothing_def)
  moreover have "in_run ?sc ?rid (?L ! j)" using mem by (simp add: run_events_set)
  ultimately show thesis
    using runD run(2) run_events_by_id[OF tok(2) mem] by (intro that)
qed

lemma install_truncate_ok:
  assumes t: "truncate_txn E s i run kept t" and okB: "logs_ok E (base t)" and ok: "logs_ok E d"
    and same: "same_records (written t) (base t) d"
  shows "logs_ok E (install t d)"
proof -
  let ?sc = "es_scope s" and ?rid = "es_run s"
  from install_truncate_concurrent[OF assms] obtain k kept' where
    d: "install t d = truncated E ?sc ?rid run kept' d" and run: "map_of (ag_run d) (run_key E ?sc ?rid) = Some run" "run_in_scope ?sc ?rid run"
    and kept: "map_of (ag_event d) k = Some kept'" "in_run ?sc ?rid kept'"
    by metis
  have tok: "tables_ok E d" using ok by (simp add: logs_ok_def)
  have "verify_rows E ?sc ?rid 0 None (run_events ?sc ?rid d) = Inr (head_hash run)"
    using logs_ok_intact[OF ok run] run(1) by (simp add: intact_def)
  note int = intact_truncated(1)[OF tok run this kept]
  show ?thesis
    unfolding d
    by (rule logs_ok_one_run[OF ok tables_ok_truncated[OF tok run] int _ run_events_truncated(2)]) (simp_all add: truncated_def)
qed

lemma install_fork_ok:
  assumes lib: "lib_ok E" and t: "fork_txn E s new_rid kid krs t"
    and kid: "run_scope kid = es_scope s" "run_run_id kid = new_rid" "next_seq kid = int (length krs)" "head_hash kid = h"
    and evs: "traverse (record_to_event E) (rws :: event_row list) = Inr evs"
    and krs: "child_rows E (es_scope s) new_rid 0 None evs = Inr (krs, h)"
    and ok: "logs_ok E d" and same: "same_records (written t) (base t) d"
  shows "logs_ok E (install t d)"
proof -
  let ?sc = "es_scope s"
  let ?rk = "run_key E ?sc (es_run s)" and ?ck = "run_key E ?sc new_rid"
  note t' = t[unfolded fork_txn_def]
  obtain run where run: "map_of (ag_run (base t)) ?rk = Some run" using t' by blast
  have ne: "?rk \<noteq> ?ck" using t' by metis
  have new_all: "all_creatable krs (ag_event (base t))" using t' by blast
  have dist: "distinct (map fst krs)" "\<And>k. k \<in> fst ` set krs \<Longrightarrow> map_of (ag_event (base t)) k = None"
    using all_creatable_distinct[OF new_all] by auto
  have here: "map_of (ag_run d) ?rk = Some run" "map_of (ag_run d) ?ck = None"
    "\<And>k. k \<in> fst ` set krs \<Longrightarrow> map_of (ag_event d) k = None"
    using t' same run dist(2) by (auto simp: same_records_def list_all_iff)
  have tok: "tables_ok E d" using ok by (simp add: logs_ok_def)
  have "install_table (map fst krs) (add_rows krs (ag_event (base t))) (ag_event d) = add_rows krs (ag_event d)"
    by (rule install_added) (simp add: map_of_add_rows[OF dist(1)] map_of_is_SomeI[OF dist(1)])
  then have inst: "install t d = forked E kid krs d"
    using t' run ne here(1) by (simp add: install_def install_table_def forked_def kid nothing_def update_same)
  have decodes: "\<exists>r::event_row. record_to_event E r = Inr e" if "e \<in> set evs" for e
    using traverse_from[OF evs that] by blast
  from child_rows_verify[OF lib, where evs = evs and sc = ?sc and rid = new_rid and n = 0 and p = None] decodes krs
  have ver: "verify_rows E ?sc new_rid 0 None (map snd krs) = Inr h" and len: "length krs = length evs"
    and keys: "list_all (\<lambda>(k, r). k = event_key E ?sc new_rid (event_id r)) krs"
    by auto
  have new: "new_rows E ?sc new_rid krs d"
    unfolding new_rows_def
  proof (intro conjI)
    show "list_all (\<lambda>(k, r). k = event_key E ?sc new_rid (event_id r) \<and> in_run ?sc new_rid r) krs"
      using keys verify_rows_in_run[OF ver] by (fastforce simp: list_all_iff)
    show "distinct (map fst krs)" "list_all (\<lambda>k. map_of (ag_event d) k = None) (map fst krs)"
      using dist(1) here(3) by (auto simp: list_all_iff)
    show "inj_on seq (snd ` set krs)" using verify_rows_distinct(2)[OF ver] by simp
  qed
  note tabs = forked_tables[OF tok here(2) kid(1,2) new]
  have log: "run_events ?sc new_rid (forked E kid krs d) = map snd krs"
    unfolding tabs(5) by (rule seqs_sorted[OF ver])
  have int: "intact E ?sc new_rid (forked E kid krs d)"
    unfolding intact_def log using here(2) ver kid by (simp add: tabs(4) map_add_def run_in_scope_def)
  show ?thesis
    unfolding inst by (rule logs_ok_one_run[OF ok tabs(1) int]) (use tabs(6) in \<open>auto simp: tabs(4) map_add_def split: option.split\<close>)
qed

section \<open>Every method\<close>

lemma keeps_append:
  assumes rely: "log_rely E" and lib: "lib_ok E" and ev: "event_ok E ev"
  shows "keeps (logs_ok E) (append_event E ev)"
  unfolding keeps_def
proof (intro allI impI)
  fix s :: "'s event_store_scheme"
  assume ok: "logs_ok E (db s)"
  obtain r s' where run: "append_event E ev s = (r, s')" by fastforce
  have com: "logs_ok E (db y)" if "append_txn E s ev run row t" "committed E s t y" for t run row y
    using committed_logs_ok[OF rely ok that(2)] install_append_ok[OF lib ev that(1)] by blast
  have "relies E (logs_ok E)" using rely by (simp add: log_rely_def)
  note reads = reach_relies[where P = "logs_ok E", OF this ok]
  from append_event_runs[OF run] show "logs_ok E (db (snd (append_event E ev s)))"
    unfolding run snd_conv using com reads by auto
qed

lemma keeps_truncate:
  assumes rely: "log_rely E"
  shows "keeps (logs_ok E) (truncate_after E i)"
  unfolding keeps_def
proof (intro allI impI)
  fix s :: "'s event_store_scheme"
  assume ok: "logs_ok E (db s)"
  obtain r s' where run: "truncate_after E i s = (r, s')" by fastforce
  have com: "logs_ok E (db y)" if "truncate_txn E s i run kept t" "committed E s t y" for t run kept y
    using committed_logs_ok[OF rely ok that(2)] install_truncate_ok[OF that(1)] by blast
  have "relies E (logs_ok E)" using rely by (simp add: log_rely_def)
  note reads = reach_relies[where P = "logs_ok E", OF this ok]
  from truncate_runs[OF run] show "logs_ok E (db (snd (truncate_after E i s)))"
    unfolding run snd_conv using com reads by auto
qed

lemma keeps_new_event_store:
  assumes r: "relies E (logs_ok E)"
  shows "keeps (logs_ok E) (new_event_store E c rid sc)"
proof -
  have create: "stmt_keeps (logs_ok E) (create_run (run_key E sc' rid') (new_run_row sc' rid' at))" for sc' rid' at
    by (rule stmt_keeps_create_run) (simp_all add: new_run_row_def)
  have run: "keeps (logs_ok E) (ensure_run E)"
    unfolding ensure_run_def
    by (intro keeps_intros keeps_readonly[OF r] readonly_read_run_row r create)
  have init: "keeps (logs_ok E) (event_store_init E)"
    unfolding event_store_init_def
    by (intro keeps_intros keeps_ensure_schema r of_data_logs_ok run keeps_readonly[OF r readonly_verify_integrity]) simp_all
  show ?thesis
    unfolding new_event_store_def by (rule keeps_making[OF init]) (simp add: fresh_event_store_def)
qed

lemma verified_next_seq:
  "verified_rows_and_run E s = (Inr (rws, run), t) \<Longrightarrow> next_seq run = int (length rws)"
  by (auto simp: verified_rows_and_run_def bnd_def with_self_def lift_def throw_def verify_head_def guard_result_def ret_def
      split: prod.splits sum.splits option.splits if_splits)

lemma keeps_fork:
  assumes rely: "log_rely E" and lib: "lib_ok E"
  shows "keeps (logs_ok E) (fork_event_store E new_rid at lbl :: (event_store, exn, event_store) prog)"
  unfolding fork_event_store_def
proof (rule keepsI, rule wp_fork_prefix)
  fix s :: event_store
  let ?I = "\<lambda>_ (t :: event_store). logs_ok E (db t)"
  assume ok: "logs_ok E (db s)"
  have r: "relies E (logs_ok E)" using rely by (simp add: log_rely_def)
  show reads: "logs_ok E (db y)" if "reach E s y" for y using r ok that by (rule reach_relies[where P = "logs_ok E"])
  fix rws parent z c evs krs h created and y :: event_store
  assume v: "verified_rows_and_run E s = (Inr (rws, parent), z)"
    and evs: "traverse (record_to_event E) (take (c + 1) rws) = Inr evs"
    and krs: "child_rows E (es_scope s) new_rid 0 None evs = Inr (krs, h)"
    and y: "reach E s y" "snapshot_since E s (db y)" "transaction y = Some \<lparr>base = db y, work = db y, written = nothing\<rparr>"
  have open_child: "wp (new_event_store E (settings s) new_rid (es_scope s)) ?I ?I u" if "logs_ok E (db u)" for u
    by (rule keeps_wp[where P = "logs_ok E", OF keeps_new_event_store[OF r] that])
  have failed: "wp (fork_failed E new_rid e) Q ?I u" if "logs_ok E (db u)" for e Q u
    by (rule wp_failing[OF readonly_fork_failed throwing_fork_failed reach_refl])
      (rule reach_relies[where P = "logs_ok E", OF r that])
  have com: "logs_ok E (db u)"
    if "committed E s t u" "fork_txn E s new_rid (child_run (es_scope s) (es_run s) new_rid at lbl created parent (int (length krs)) h) krs t" for t u
    by (rule committed_logs_ok[OF rely ok that(1)], rule install_fork_ok[OF lib that(2) _ _ _ _ evs krs])
      (simp_all add: child_run_def)
  show "wp (try_except (fork_in_transaction E new_rid at lbl created rws parent krs h) (fork_failed E new_rid))
      (\<lambda>_. wp (new_event_store E (settings s) new_rid (es_scope s)) ?I ?I) ?I y"
    unfolding wp_try_except
    by (rule fork_body[OF y(1,3,2) verified_next_seq[OF v] refl]) ((rule open_child failed)?, (erule (1) com | erule reads))+
qed

text \<open>One call of a method of any handle, or of a class method, with any outcome.\<close>

inductive log_call :: "('x, 'z) env_scheme \<Rightarrow> tables \<Rightarrow> tables \<Rightarrow> bool" for E :: "('x, 'z) env_scheme" where
  append: "\<lbrakk>event_ok E ev; append_event E ev (s :: event_store) = (r, t)\<rbrakk> \<Longrightarrow> log_call E (db s) (db t)"
| truncate_after: "truncate_after E i (s :: event_store) = (r, t) \<Longrightarrow> log_call E (db s) (db t)"
| fork: "fork_event_store E new_rid at lbl (s :: event_store) = (r, t) \<Longrightarrow> log_call E (db s) (db t)"
| upsert_run: "upsert_run E parent origin lbl created gl frame (s :: event_store) = (r, t) \<Longrightarrow> log_call E (db s) (db t)"
| iter_events: "iter_events E after until (s :: event_store) = (r, t) \<Longrightarrow> log_call E (db s) (db t)"
| get_event: "get_event E i (s :: event_store) = (r, t) \<Longrightarrow> log_call E (db s) (db t)"
| count: "count E (s :: event_store) = (r, t) \<Longrightarrow> log_call E (db s) (db t)"
| get_run: "get_run E (s :: event_store) = (r, t) \<Longrightarrow> log_call E (db s) (db t)"
| verify_integrity: "verify_integrity E (s :: event_store) = (r, t) \<Longrightarrow> log_call E (db s) (db t)"
| server_version: "es_server_version E (s :: event_store) = (r, t) \<Longrightarrow> log_call E (db s) (db t)"
| schema_version: "es_schema_version E (s :: event_store) = (r, t) \<Longrightarrow> log_call E (db s) (db t)"
| close: "es_close E (s :: event_store) = (r, t) \<Longrightarrow> log_call E (db s) (db t)"
| open_store: "new_event_store E c rid sc (u :: server) = (r, v) \<Longrightarrow> log_call E (db u) (db v)"
| run_exists: "run_exists E c rid sc (u :: server) = (r, v) \<Longrightarrow> log_call E (db u) (db v)"
| most_recent: "most_recent_run_id E c sc (u :: server) = (r, v) \<Longrightarrow> log_call E (db u) (db v)"
| inspect: "inspect_run_artifacts E c rid sc (u :: server) = (r, v) \<Longrightarrow> log_call E (db u) (db v)"

inductive_cases log_callE: "log_call E d d'"

lemma keeps_with_connection:
  assumes r: "relies E P" and P: "of_data P" and p: "keeps P p"
  shows "keeps P (with_connection E c p)"
proof -
  have making: "keeps P (new_connection E c :: (server, exn, link) prog)"
    unfolding new_connection_def by (rule keeps_making[OF keeps_connection_init[OF r]]) (simp add: unconnected_def)
  show ?thesis
    unfolding with_connection_def
    by (intro keeps_intros making keeps_ensure_schema r P p)
qed

lemma keeps_upsert_run:
  assumes r: "relies E (logs_ok E)"
  shows "keeps (logs_ok E) (upsert_run E parent origin lbl created gl frame)"
proof -
  have create: "stmt_keeps (logs_ok E) (create_run (run_key E sc rid) \<lparr>run_scope = sc, run_run_id = rid, parent_run_id = parent,
      forked_at_event_id = origin, label = lbl, created_at = created, goal = gl, run_frame_id = frame, next_seq = 0, head_hash = None\<rparr>)"
    for sc rid
    by (rule stmt_keeps_create_run) simp_all
  show ?thesis
    unfolding upsert_run_def Let_def
    by (intro keeps_intros keeps_readonly[OF r] readonly_intros r create stmt_keeps_update_run)
qed

text \<open>What every call keeps, once the calls that write keep it.\<close>

lemma log_call_rule:
  assumes r: "relies E P" and P: "of_data P"
    and append: "\<And>ev. event_ok E ev \<Longrightarrow> keeps P (append_event E ev :: (event_store, exn, unit) prog)"
    and truncate: "\<And>i. keeps P (truncate_after E i :: (event_store, exn, unit) prog)"
    and fork: "\<And>new_rid at lbl. keeps P (fork_event_store E new_rid at lbl :: (event_store, exn, event_store) prog)"
    and upsert: "\<And>a b c d e f. keeps P (upsert_run E a b c d e f :: (event_store, exn, unit) prog)"
    and make: "\<And>c rid sc. keeps P (new_event_store E c rid sc :: (server, exn, event_store) prog)"
    and call: "log_call E d d'" and ok: "P d"
  shows "P d'"
proof -
  have scan: "keeps P (query_scan E (\<lambda>order. select_runs order Q))" for Q
    unfolding query_scan_def select_runs_def by (intro keeps_intros r)
  have reads: "stmt_keeps P (select_run k)" "stmt_keeps P (select_events_per_run sc)"
    "stmt_keeps P (select_run_ids sc rid)" "stmt_keeps P (select_event_ids sc rid)"
    "stmt_keeps P select_schema_version" for k sc rid
    unfolding select_run_def select_events_per_run_def select_run_ids_def select_event_ids_def
    by (rule stmt_keeps_reading)+ (auto simp: stmt_keeps_def select_schema_version_def split: if_splits)
  have opened: "keeps P es_ensure_open" by (rule keeps_pure) (simp add: es_ensure_open_def)
  note methods = truncate fork upsert make keeps_readonly[OF r readonly_iter_events] keeps_readonly[OF r readonly_get_event]
    keeps_readonly[OF r readonly_count] keeps_readonly[OF r readonly_get_run] keeps_readonly[OF r readonly_verify_integrity]
  have closing: "keeps P (es_close E)"
    unfolding es_close_def by (intro keeps_intros r) simp
  have versions: "keeps P (es_server_version E)" "keeps P (es_schema_version E)"
    unfolding es_server_version_def es_schema_version_def link_server_version_def
    by (intro keeps_intros r reads opened)+
  have class_methods: "keeps P (run_exists E c rid sc)" "keeps P (most_recent_run_id E c sc)"
    "keeps P (inspect_run_artifacts E c rid sc)" for c rid sc
    unfolding run_exists_def most_recent_run_id_def inspect_run_artifacts_def
    by (intro keeps_intros keeps_pair keeps_with_connection r P reads scan)+
  note into = keeps_into[where P = P]
  note all = append[THEN into] methods[THEN into] closing[THEN into] versions[THEN into] class_methods[THEN into]
  from call ok show ?thesis
    by cases (hypsubst, (rule all; assumption))+
qed

lemma log_call_keeps:
  assumes rely: "log_rely E" and lib: "lib_ok E" and ok: "logs_ok E d" and call: "log_call E d d'"
  shows "logs_ok E d'"
proof -
  have r: "relies E (logs_ok E)" using rely by (simp add: log_rely_def)
  show ?thesis
    by (rule log_call_rule[where P = "logs_ok E", OF r of_data_logs_ok keeps_append[OF rely lib] keeps_truncate[OF rely]
          keeps_fork[OF rely lib] keeps_upsert_run[OF r] keeps_new_event_store[OF r] call ok])
qed

text \<open>
  Property C5. Every log stays intact. Take any sequence of calls of the event store's methods on any
  handles (opening and closing, appending, truncating, forking, run metadata, reading, the class
  methods), with any arguments the payload encoder accepts, any requests failing at any point, before or
  after their effect, other sessions committing between any two requests (provided they keep the logs
  intact themselves, and a commit is refused when a record it wrote has changed). From tables in which
  every recorded run's log verifies up to its head, every recorded run's log verifies up to its head
  afterwards: no call, whatever interrupts it, leaves a gap, a fork of the chain, or a head that is not that
  of the rows.
\<close>

theorem log_calls_keep_logs:
  assumes "log_rely E" and "lib_ok E" and "logs_ok E d" and "rtranclp (log_call E) d d'"
  shows "logs_ok E d'
     \<and> (\<forall>k run. map_of (ag_run d') k = Some run \<longrightarrow> k = run_key E (run_scope run) (run_run_id run)
          \<and> next_seq run = int (length (run_events (run_scope run) (run_run_id run) d'))
          \<and> verify_rows E (run_scope run) (run_run_id run) 0 None (run_events (run_scope run) (run_run_id run) d') =
              Inr (head_hash run))"
proof -
  from assms(4,3) have ok: "logs_ok E d'"
    by induction (blast intro: log_call_keeps[OF assms(1,2)])+
  then have tok: "tables_ok E d'" by (simp add: logs_ok_def)
  have "k = run_key E (run_scope run) (run_run_id run)" "intact E (run_scope run) (run_run_id run) d'"
    if "map_of (ag_run d') k = Some run" for k run
  proof -
    show key: "k = run_key E (run_scope run) (run_run_id run)" using tables_okD(3)[OF tok map_of_SomeD[OF that]] .
    show "intact E (run_scope run) (run_run_id run) d'"
      by (rule logs_ok_intact[OF ok that[unfolded key]]) (simp add: run_in_scope_def)
  qed
  then show ?thesis using ok by (fastforce simp: intact_def)
qed

lemma quiet_log_rely: "\<lbrakk>quiet E; first_committer_wins E\<rbrakk> \<Longrightarrow> log_rely E"
  by (simp add: log_rely_def quiet_relies)

theorem log_calls_keep_logs_witness:
  "\<exists>d. rtranclp (log_call sample_env) (db sample_store) d \<and> db sample_store1 \<noteq> db sample_store
     \<and> logs_ok sample_env d \<and> length (run_events ''s'' ''r'' d) = 1"
proof -
  have "log_rely sample_env"
    by (rule quiet_log_rely) (use sample_calm sample_first_committer_wins in \<open>simp_all add: calm_def\<close>)
  moreover have "logs_ok sample_env (db sample_store)"
    using sample_attached by (simp add: attached_def logs_ok_def sample_store_def sample_tables_def new_run_row_def)
  moreover have "rtranclp (log_call sample_env) (db sample_store) (db sample_store1)"
    unfolding sample_store1_def
    by (rule r_into_rtranclp, rule log_call.append[OF sample_event_ok]) (rule surjective_pairing)
  ultimately have "logs_ok sample_env (db sample_store1)"
    using log_calls_keep_logs[OF _ sample_lib_ok] by blast
  moreover have "length (run_events ''s'' ''r'' (db sample_store1)) = 1" using sample_store1(5) by auto
  moreover have "run_events ''s'' ''r'' (db sample_store) = []"
    by (simp add: sample_store_def sample_tables_def empty_tables_def run_events_def rows_where_def)
  ultimately show ?thesis
    using \<open>rtranclp (log_call sample_env) (db sample_store) (db sample_store1)\<close> by (metis list.size(3) zero_neq_one)
qed

end
