(* ===== verification/GraphTheorems.thy ===== *)
theory GraphTheorems
  imports GraphSample
begin

text \<open>
  The properties of the projection when nothing goes wrong: its methods implement finite maps, its
  queries are filters of its listings, and the rebuild lifecycle.
\<close>

section \<open>The methods implement finite maps\<close>

text \<open>
  Property C2. Refinement: undisturbed, on a served and well-formed projection, any sequence of calls
  that put and remove objects, relations and patches returns, and what the database then holds for
  the projection is the abstract graph, three finite maps, after the same sequence of map updates. Records
  of other ids, scopes and runs, the status and the event log are as before.
\<close>

theorem graph_calls_refine:
  assumes "calm E" and "float_text_ok (float_text E)" and "served E s" and "graph_ok E (db s)"
    and "separate E (gs_scope s) (gs_run s) I (db s)" and "list_all (op_ok E I) calls"
  shows "\<exists>n y d. for_each (perform E) calls s = (Inr (), s\<lparr>tick := n, db := d, transaction := y\<rparr>)
     \<and> graph_ok E d \<and> separate E (gs_scope s) (gs_run s) I d
     \<and> same_graph_on I (graph_of E (gs_scope s) (gs_run s) d)
         (fold (apply_op E) calls (graph_of E (gs_scope s) (gs_run s) (db s)))
     \<and> only_ids E (gs_scope s) (gs_run s) I (db s) d"
  using perform_all_tracks[OF assms same_graph_on_refl] by blast

theorem graph_calls_refine_witness:
  "\<exists>n y d. for_each (perform sample_env) sample_calls sample_graph = (Inr (), sample_graph\<lparr>tick := n, db := d, transaction := y\<rparr>)
     \<and> g_object (graph_of sample_env ''s'' ''r'' d) ''task#1'' = Some sample_task
     \<and> g_relation (graph_of sample_env ''s'' ''r'' d) ''rel#3'' = Some sample_rel"
proof -
  have ids: "ob_id sample_task = ''task#1''" "ob_id sample_note = ''note#2''" "re_id sample_rel = ''rel#3''"
    by (simp_all add: sample_task_def sample_note_def sample_rel_def)
  have I: "''task#1'' \<in> set sample_ids" "''rel#3'' \<in> set sample_ids" by (simp_all add: sample_ids_def)
  from graph_calls_refine[of sample_env sample_graph "set sample_ids" sample_calls]
  obtain n y d where d: "for_each (perform sample_env) sample_calls sample_graph = (Inr (), sample_graph\<lparr>tick := n, db := d, transaction := y\<rparr>)"
    "same_graph_on (set sample_ids) (graph_of sample_env ''s'' ''r'' d)
       (fold (apply_op sample_env) sample_calls (graph_of sample_env ''s'' ''r'' sample_projection))"
    using sample_calm sample_float_text sample_graph_ok sample_separate sample_calls_ok by auto
  with I have "g_object (graph_of sample_env ''s'' ''r'' d) ''task#1'' = Some sample_task"
    "g_relation (graph_of sample_env ''s'' ''r'' d) ''rel#3'' = Some sample_rel"
    by (simp_all add: same_graph_on_def sample_calls_def ids sample_task_norm decoded_def)
  with d(1) show ?thesis by blast
qed

section \<open>Reading back\<close>

definition ready_for :: "('x, 'z) env_scheme \<Rightarrow> string \<Rightarrow> string \<Rightarrow> string set \<Rightarrow> 's graph_store_scheme \<Rightarrow> bool" where
  "ready_for E sc rid I t \<longleftrightarrow> served E t \<and> graph_ok E (db t) \<and> separate E sc rid I (db t)
     \<and> gs_scope t = sc \<and> gs_run t = rid"

lemma perform_ready_for:
  assumes c: "calm E" and fr: "float_text_ok (float_text E)" and u: "ready_for E sc rid I u" and ok: "op_ok E I what"
  obtains t where "perform E what u = (Inr (), t)" and "ready_for E sc rid I t"
    and "same_graph_on I (graph_of E sc rid (db t)) (apply_op E what (graph_of E sc rid (db u)))"
proof -
  have u': "served E u" "graph_ok E (db u)" "separate E (gs_scope u) (gs_run u) I (db u)" and n: "gs_scope u = sc" "gs_run u = rid"
    using u by (simp_all add: ready_for_def)
  from perform_tracks[OF c fr u' ok]
  obtain m y d where d: "perform E what u = (Inr (), u\<lparr>tick := m, db := d, transaction := y\<rparr>)"
    and t: "tracks E sc rid I (db u) what d" unfolding n by blast
  have "served E (u\<lparr>tick := m, db := d, transaction := y\<rparr>) = served E u"
    using t by (simp add: tracks_def only_ids_def served_def gs_open_def has_status_def)
  with d t u' n show thesis
    by (intro that[of "u\<lparr>tick := m, db := d, transaction := y\<rparr>"]) (simp_all add: tracks_def ready_for_def)
qed

lemma gets_ready_for:
  assumes "calm E" and "ready_for E sc rid I t" and "i \<in> I"
  shows "get_object E i t = (Inr (g_object (graph_of E sc rid (db t)) i), t\<lparr>tick := tick t + 2\<rparr>)"
    and "get_relation E i t = (Inr (g_relation (graph_of E sc rid (db t)) i), t\<lparr>tick := tick t + 2\<rparr>)"
proof -
  have t: "served E t" "graph_ok E (db t)" "separate E sc rid I (db t)" "gs_scope t = sc" "gs_run t = rid"
    using assms(2) by (simp_all add: ready_for_def)
  show "get_object E i t = (Inr (g_object (graph_of E sc rid (db t)) i), t\<lparr>tick := tick t + 2\<rparr>)"
    using wp_runs[OF wp_get_object_calm[OF assms(1) t(1,2)], of i] separate_own[OF t(3) assms(3)] t(4,5) by simp
  show "get_relation E i t = (Inr (g_relation (graph_of E sc rid (db t)) i), t\<lparr>tick := tick t + 2\<rparr>)"
    using wp_runs[OF wp_get_relation_calm[OF assms(1) t(1,2)], of i] separate_own[OF t(3) assms(3)] t(4,5) by simp
qed

text \<open>
  Property C30. Round trip: what \<open>put_object\<close> and \<open>put_relation\<close> store, \<open>get_object\<close> and \<open>get_relation\<close>
  on the same store return, in the form the encoder leaves it, and after \<open>remove_object\<close> the object is
  not found.
\<close>

theorem put_get_round_trip:
  assumes "calm E" and "float_text_ok (float_text E)" and "served E s" and "graph_ok E (db s)"
    and "separate E (gs_scope s) (gs_run s) I (db s)"
    and "op_ok E I (PutObject x)" and "op_ok E I (PutRelation r)" and "ob_id x = i" and "re_id r = j"
  shows "\<exists>s1 s2 s3 t1 t2 t3. put_object E x s = (Inr (), s1)
     \<and> get_object E i s1 = (Inr (decoded (norm_object E x)), t1)
     \<and> put_relation E r s1 = (Inr (), s2)
     \<and> get_relation E j s2 = (Inr (decoded (norm_relation E r)), t2)
     \<and> remove_object E i s2 = (Inr (), s3)
     \<and> get_object E i s3 = (Inr None, t3)"
proof -
  let ?g = "\<lambda>t. graph_of E (gs_scope s) (gs_run s) (db t)"
  have i: "i \<in> I" and j: "j \<in> I" using assms(6-9) by auto
  note step = perform_ready_for[OF assms(1,2)]
  have "ready_for E (gs_scope s) (gs_run s) I s" using assms(3-5) by (simp add: ready_for_def)
  from step[OF this assms(6)] obtain s1 where s1: "put_object E x s = (Inr (), s1)"
    "ready_for E (gs_scope s) (gs_run s) I s1" "same_graph_on I (?g s1) (apply_op E (PutObject x) (?g s))" by auto
  from step[OF s1(2) assms(7)] obtain s2 where s2: "put_relation E r s1 = (Inr (), s2)"
    "ready_for E (gs_scope s) (gs_run s) I s2" "same_graph_on I (?g s2) (apply_op E (PutRelation r) (?g s1))" by auto
  have "op_ok E I (RemoveObject i)" using i by simp
  from step[OF s2(2) this] obtain s3 where s3: "remove_object E i s2 = (Inr (), s3)"
    "ready_for E (gs_scope s) (gs_run s) I s3" "same_graph_on I (?g s3) (apply_op E (RemoveObject i) (?g s2))" by auto
  have "g_object (?g s1) i = decoded (norm_object E x)" "g_relation (?g s2) j = decoded (norm_relation E r)"
    "g_object (?g s3) i = None"
    using s1(3) s2(3) s3(3) i j assms(8,9) by (simp_all add: same_graph_on_def)
  with s1(1) s2(1) s3(1) show ?thesis
    using gets_ready_for(1)[OF assms(1) s1(2) i] gets_ready_for(2)[OF assms(1) s2(2) j] gets_ready_for(1)[OF assms(1) s3(2) i]
    by simp
qed

theorem put_get_round_trip_witness:
  "\<exists>s1 t1. put_object sample_env sample_task sample_graph = (Inr (), s1)
     \<and> get_object sample_env ''task#1'' s1 = (Inr (Some sample_task), t1)"
proof -
  have ok: "op_ok sample_env (set sample_ids) (PutObject sample_task)" "op_ok sample_env (set sample_ids) (PutRelation sample_rel)"
    using sample_calls_ok by (simp_all add: sample_calls_def)
  have ids: "ob_id sample_task = ''task#1''" "re_id sample_rel = ''rel#3''" by (simp_all add: sample_task_def sample_rel_def)
  have sep: "separate sample_env (gs_scope sample_graph) (gs_run sample_graph) (set sample_ids) (db sample_graph)"
    using sample_separate by simp
  have okd: "graph_ok sample_env (db sample_graph)" using sample_graph_ok by simp
  have ft: "float_text_ok (float_text sample_env)" using sample_float_text by simp
  from put_get_round_trip[OF sample_calm ft sample_graph_served okd sep ok ids]
  show ?thesis by (auto simp: sample_task_norm decoded_def)
qed

section \<open>Queries\<close>

text \<open>The order in which the provider lists objects: the framework's counter, then the id.\<close>

definition object_order :: "'x object \<Rightarrow> int \<times> string" where
  "object_order x = (projr (object_counter (ob_id x)), ob_id x)"

lemma vertex_order_object:
  assumes "graph_ok E d" and "r \<in> set (vertex_rows sc rid d)"
  shows "object_order (object_of E r) = vertex_order r"
proof -
  have "r \<in> set (rows_where (present_in sc rid) (ag_vertex d))" and p: "present_in sc rid r"
    using assms(2) by (auto simp: vertex_rows_def rows_where_def)
  with object_of_decodes(2)[OF assms(1) p] have "vertex_ok E r" by blast
  then show ?thesis
    using vertex_rows_decode(1)[OF assms] by (simp add: object_order_def vertex_order_def vertex_ok_def)
qed

lemma listed_objects_sorted:
  assumes "graph_ok E d"
  shows "sorted (map object_order (listed_objects E sc rid d))"
proof -
  have "map object_order (listed_objects E sc rid d) = map vertex_order (vertex_rows sc rid d)"
    using vertex_order_object[OF assms] by (simp add: listed_objects_def)
  then show ?thesis by (simp add: vertex_rows_def ordered_vertices_def)
qed

lemma listed_objects_distinct:
  assumes ok: "graph_ok E d"
  shows "distinct (map ob_id (listed_objects E sc rid d))"
proof -
  have k: "keyed (vertex_row_key E) (ag_vertex d)" using ok by (simp add: graph_ok_def)
  then have keys: "map (vertex_row_key E) (map snd (ag_vertex d)) = map fst (ag_vertex d)"
    by (auto simp: keyed_def list_all_iff)
  have "distinct (map (vertex_row_key E) (map snd (ag_vertex d)))"
    unfolding keys using k by (simp add: keyed_def)
  then have "distinct (map (vertex_row_key E) (rows_where (present_in sc rid) (ag_vertex d)))"
    unfolding rows_where_def by (rule distinct_map_filter)
  then have "distinct (rows_where (present_in sc rid) (ag_vertex d))" by (simp add: distinct_map)
  moreover have "inj_on object_id (set (rows_where (present_in sc rid) (ag_vertex d)))"
  proof (rule inj_onI)
    fix r q assume rq: "r \<in> set (rows_where (present_in sc rid) (ag_vertex d))" "q \<in> set (rows_where (present_in sc rid) (ag_vertex d))"
      "object_id r = object_id q"
    then have "vertex_row_key E r = vertex_row_key E q" by (auto simp: rows_where_def present_in_def vertex_row_key_def)
    with rq(1,2) show "r = q" using vertices.keyed_rows[OF k] by (metis option.inject)
  qed
  moreover have "map ob_id (listed_objects E sc rid d) = map object_id (vertex_rows sc rid d)"
    using vertex_rows_decode(1)[OF ok] by (simp add: listed_objects_def)
  ultimately show ?thesis
    by (simp add: vertex_rows_def ordered_vertices_def distinct_map)
qed

definition reference_query :: "'x object list \<Rightarrow> 'w object_query \<Rightarrow> ('x, 'w) object_query_result" where
  "reference_query xs plan =
     (let rest = (case plan_where plan of None \<Rightarrow> [] | Some ws \<Rightarrow> ws);
          hits = filter (\<lambda>x. wanted (plan_type plan) (ob_type x)) xs in
      if plan_result_mode plan = ''exists'' \<and> rest = []
      then \<lparr>found_objects = [], residual = [], found_any = Some (hits \<noteq> [])\<rparr>
      else \<lparr>found_objects = (case if rest = [] then plan_limit plan else None of None \<Rightarrow> hits | Some n \<Rightarrow> take (nat n) hits),
            residual = rest, found_any = None\<rparr>)"

lemma query_objects_calm:
  assumes c: "calm E" and s: "served E s" and ok: "graph_ok E (db s)" and sc: "scans_all E"
    and n: "case plan_limit plan of None \<Rightarrow> True | Some n \<Rightarrow> 0 \<le> n"
  shows "query_objects E plan s =
    (Inr (reference_query (listed_objects E (gs_scope s) (gs_run s) (db s)) plan), s\<lparr>tick := tick s + 2\<rparr>)"
proof -
  let ?s = "s\<lparr>tick := Suc (tick s)\<rparr>" and ?xs = "listed_objects E (gs_scope s) (gs_run s) (db s)"
  have o: "gs_open ?s" "graph_ok E (db ?s)" using served_open[OF s] ok by simp_all
  obtain rest where rest: "rest = (case plan_where plan of None \<Rightarrow> [] | Some ws \<Rightarrow> ws)" by blast
  obtain lim where lim: "lim = (if rest = [] then plan_limit plan else None)" by blast
  have n': "case lim of None \<Rightarrow> True | Some n \<Rightarrow> 0 \<le> n" using n by (simp add: lim)
  have read: "wp (assert_readable E) Q R s = Q () ?s" for Q R by (rule wp_assert_readable_calm[OF c s])
  have any: "(filter (\<lambda>x. wanted ty (ob_type x)) ?xs \<noteq> []) = (\<exists>x\<in>set ?xs. wanted ty (ob_type x))" for ty
    by (auto simp: filter_empty_conv)
  have "wp (query_objects E plan) Q R s = Q (reference_query ?xs plan) (s\<lparr>tick := tick s + 2\<rparr>)" for Q R
  proof (cases "plan_result_mode plan = ''exists'' \<and> rest = []")
    case True
    then show ?thesis
      by (simp add: query_objects_def wp_bnd read rest[symmetric] Let_def wp_object_exists_calm[OF c o sc] wp_ret
          reference_query_def any)
  next
    case False
    then have f: "(plan_result_mode plan = ''exists'' \<and> rest = []) = False" by blast
    have sel: "wp (select_objects E (plan_type plan) lim) Q' R' ?s = Q'
        (case lim of None \<Rightarrow> filter (\<lambda>x. wanted (plan_type plan) (ob_type x)) ?xs
         | Some n \<Rightarrow> take (nat n) (filter (\<lambda>x. wanted (plan_type plan) (ob_type x)) ?xs)) (s\<lparr>tick := tick s + 2\<rparr>)" for Q' R'
      using wp_select_objects_calm[OF c o n', of "filter (\<lambda>x. wanted (plan_type plan) (ob_type x)) ?xs" "plan_type plan" Q' R'] by simp
    show ?thesis
      unfolding query_objects_def reference_query_def Let_def rest[symmetric] f if_False lim[symmetric]
      by (simp only: wp_bnd read sel wp_ret)
  qed
  then show ?thesis by (rule wp_runs)
qed

text \<open>
  Property C17. Undisturbed queries are equivalent to filtering the listings: \<open>all_objects\<close> lists each
  object of the projection once, ordered by the framework's counter and then by id, and
  \<open>find_objects\<close>, \<open>find_objects_in_types\<close>, \<open>find_relations\<close> and \<open>query_objects\<close> return what the reference
  would pick from the listings. Nothing is written.
\<close>

theorem queries_filter_listings:
  assumes "calm E" and "scans_all E" and "served E s" and "graph_ok E (db s)" and "types \<noteq> []"
    and "case plan_limit plan of None \<Rightarrow> True | Some n \<Rightarrow> 0 \<le> n"
  shows "\<exists>xs ys. all_objects E s = (Inr xs, s\<lparr>tick := tick s + 2\<rparr>)
     \<and> sorted (map object_order xs) \<and> distinct (map ob_id xs)
     \<and> find_objects E ty s = (Inr (filter (\<lambda>x. wanted ty (ob_type x)) xs), s\<lparr>tick := tick s + 2\<rparr>)
     \<and> find_objects_in_types E types s = (Inr (filter (\<lambda>x. ob_type x \<in> set types) xs), s\<lparr>tick := tick s + 2\<rparr>)
     \<and> query_objects E plan s = (Inr (reference_query xs plan), s\<lparr>tick := tick s + 2\<rparr>)
     \<and> all_relations E s = (Inr ys, s\<lparr>tick := tick s + 2\<rparr>)
     \<and> find_relations E src tgt rty s =
         (Inr (filter (\<lambda>y. wanted src (re_source y) \<and> wanted tgt (re_target y) \<and> wanted rty (re_type y)) ys), s\<lparr>tick := tick s + 2\<rparr>)"
proof (intro exI conjI)
  note a = assms(1,3,4)
  show "all_objects E s = (Inr (listed_objects E (gs_scope s) (gs_run s) (db s)), s\<lparr>tick := tick s + 2\<rparr>)"
    by (rule wp_runs[OF wp_all_objects_calm[OF a]])
  show "all_relations E s = (Inr (listed_relations E (gs_scope s) (gs_run s) (db s)), s\<lparr>tick := tick s + 2\<rparr>)"
    by (rule wp_runs[OF wp_all_relations_calm[OF a]])
qed (rule listed_objects_sorted listed_objects_distinct assms wp_runs[OF wp_find_objects_calm[OF assms(1,3,4)]]
    wp_runs[OF wp_find_objects_in_types_calm[OF assms(1,3,4,5)]] query_objects_calm[OF assms(1,3,4,2,6)]
    wp_runs[OF wp_find_relations_calm[OF assms(1,3,4)]])+

lemma sample_scans_all: "scans_all sample_env"
  by (simp add: scans_all_def sample_env_def)

theorem queries_filter_listings_witness:
  "\<exists>xs. all_objects sample_env sample_filled = (Inr xs, sample_filled\<lparr>tick := tick sample_filled + 2\<rparr>)
     \<and> find_objects sample_env (Some ''task'') sample_filled =
        (Inr (filter (\<lambda>x. ob_type x = ''task'') xs), sample_filled\<lparr>tick := tick sample_filled + 2\<rparr>)"
  using queries_filter_listings[OF sample_calm sample_scans_all sample_filled(1,2), of "[''task'']"
      "\<lparr>plan_type = None, plan_where = None, plan_result_mode = ''exists'', plan_limit = Some 1\<rparr>" "Some ''task''" None None None]
  by (auto simp: wanted_def)

text \<open>
  Property C16. An undisturbed \<open>neighborhood\<close> of an object returns exactly the objects within the given
  number of relations of it, whichever way the relations point, in listing order, and the relations
  that touch the ball one step smaller, each once; of an id that is no object, nothing. A
  depth of zero or less is the object alone.
\<close>

theorem neighborhood_is_ball:
  assumes "calm E" and "scans_all E" and "served E s" and "graph_ok E (db s)"
    and "own_vertex E (gs_scope s) (gs_run s) i (db s)"
    and "all_objects E s = (Inr xs, s\<lparr>tick := tick s + 2\<rparr>)" and "all_relations E s = (Inr rels, s\<lparr>tick := tick s + 2\<rparr>)"
    and "get_object E i s = (Inr start, s\<lparr>tick := tick s + 2\<rparr>)"
  shows "\<exists>t ys. neighborhood E i depth s =
       (Inr (if start = None then [] else filter (\<lambda>x. ob_id x \<in> within rels (nat depth) i) xs, ys), s\<lparr>tick := t\<rparr>)
     \<and> mset ys = (if start = None \<or> depth \<le> 0 then {#}
         else mset (filter (\<lambda>y. re_source y \<in> within rels (nat depth - 1) i \<or> re_target y \<in> within rels (nat depth - 1) i) rels))"
proof -
  note a = assms(1,3,4)
  have xs: "xs = listed_objects E (gs_scope s) (gs_run s) (db s)" "rels = listed_relations E (gs_scope s) (gs_run s) (db s)"
    "start = g_object (graph_of E (gs_scope s) (gs_run s) (db s)) i"
    using wp_runs[OF wp_all_objects_calm[OF a]] wp_runs[OF wp_all_relations_calm[OF a]]
      wp_runs[OF wp_get_object_calm[OF a assms(5)]] assms(6-8) by simp_all
  from wp_neighborhood_calm[OF assms(1,3,4,2,5), of depth, folded xs]
  obtain t ys where "(\<forall>Q R. wp (neighborhood E i depth) Q R s = Q
      (if start = None then [] else filter (\<lambda>x. ob_id x \<in> within rels (nat depth) i) xs, ys) (s\<lparr>tick := t\<rparr>))"
    and ys: "mset ys = (if start = None \<or> depth \<le> 0 then {#}
         else mset (filter (\<lambda>y. re_source y \<in> within rels (nat depth - 1) i \<or> re_target y \<in> within rels (nat depth - 1) i) rels))"
    by blast
  then have "neighborhood E i depth s =
       (Inr (if start = None then [] else filter (\<lambda>x. ob_id x \<in> within rels (nat depth) i) xs, ys), s\<lparr>tick := t\<rparr>)"
    by (intro wp_runs) blast
  with ys show ?thesis by blast
qed

theorem neighborhood_is_ball_witness:
  "\<exists>xs t. all_objects sample_env sample_filled = (Inr xs, sample_filled\<lparr>tick := tick sample_filled + 2\<rparr>)
     \<and> neighborhood sample_env ''task#1'' 0 sample_filled =
        (Inr (filter (\<lambda>x. ob_id x = ''task#1'') xs, []), sample_filled\<lparr>tick := t\<rparr>)"
proof -
  have i: "''task#1'' \<in> set sample_ids" by (simp add: sample_ids_def)
  have r: "ready_for sample_env ''s'' ''r'' (set sample_ids) sample_filled"
    using sample_filled(1-5) by (simp add: ready_for_def)
  have own: "own_vertex sample_env (gs_scope sample_filled) (gs_run sample_filled) ''task#1'' (db sample_filled)"
    using separate_own(1)[OF sample_filled(5) i] by (simp add: sample_filled(3,4))
  have "ob_id sample_task = ''task#1''" "ob_id sample_note = ''note#2''" by (simp_all add: sample_task_def sample_note_def)
  then have "g_object (graph_of sample_env ''s'' ''r'' (db sample_filled)) ''task#1'' = Some sample_task"
    using sample_filled(6) i by (simp add: same_graph_on_def sample_calls_def sample_task_norm decoded_def)
  then have got: "get_object sample_env ''task#1'' sample_filled = (Inr (Some sample_task), sample_filled\<lparr>tick := tick sample_filled + 2\<rparr>)"
    using gets_ready_for(1)[OF sample_calm r i] by simp
  note calm_reads = wp_runs[OF wp_all_objects_calm[OF sample_calm sample_filled(1,2)]]
    wp_runs[OF wp_all_relations_calm[OF sample_calm sample_filled(1,2)]]
  from neighborhood_is_ball[OF sample_calm sample_scans_all sample_filled(1,2) own calm_reads got, of 0] calm_reads(1)
  show ?thesis by auto
qed

section \<open>The status gate and the rebuild lifecycle\<close>

text \<open>A call that raises, having written nothing.\<close>

definition refused :: "('s graph_store_scheme, exn, 'a) prog \<Rightarrow> 's graph_store_scheme \<Rightarrow> bool" where
  "refused p s \<longleftrightarrow> (\<exists>e n. p s = (Inl e, s\<lparr>tick := n\<rparr>))"

lemma refused_wp: "(\<And>Q. wp p Q (\<lambda>e t. \<exists>n. t = s\<lparr>tick := n\<rparr>) s) \<Longrightarrow> refused p s"
proof -
  assume "\<And>Q. wp p Q (\<lambda>e t. \<exists>n. t = s\<lparr>tick := n\<rparr>) s"
  from this[of "\<lambda>_ _. False"] show "refused p s"
    by (cases "p s") (auto simp: wp_def refused_def split: sum.splits)
qed

lemma refused_bnd: "refused p s \<Longrightarrow> refused (bnd p f) s"
  by (auto simp: refused_def bnd_def)

lemma wp_projection_row_quiet:
  assumes q: "quiet E" and o: "gs_open s" and R: "\<And>e. R e (s\<lparr>tick := Suc (tick s)\<rparr>)"
    and none: "map_of (ag_projection (db s)) (projection_key E (gs_scope s) (gs_run s)) = None \<Longrightarrow> Q None (s\<lparr>tick := Suc (tick s)\<rparr>)"
    and some: "\<And>row. \<lbrakk>map_of (ag_projection (db s)) (projection_key E (gs_scope s) (gs_run s)) = Some row;
      projection_scope row = gs_scope s; projection_run row = gs_run s\<rbrakk> \<Longrightarrow> Q (Some row) (s\<lparr>tick := Suc (tick s)\<rparr>)"
  shows "wp (projection_row E) Q R s"
  unfolding projection_row_def wp_with_self wp_bnd wp_query
proof (simp add: gs_openD[OF o], unfold select_projection_def, rule wp_reading_quiet[OF q])
  show "wp (case one (only_reply (map_of (ag_projection (db s)) (projection_key E (gs_scope s) (gs_run s)))) of
       None \<Rightarrow> ret None
     | Some row \<Rightarrow> bnd (assert_scoped_row (projection_scope row) (projection_run row) None) (\<lambda>_. ret (Some row))) Q R
     (s\<lparr>tick := Suc (tick s)\<rparr>)"
    using R none some
    by (cases "map_of (ag_projection (db s)) (projection_key E (gs_scope s) (gs_run s))") (simp_all add: wp_rules)
qed (rule R)

lemma assert_readable_refuses:
  assumes q: "quiet E" and s: "\<not> served E s"
  shows "refused (assert_readable E) s"
proof (rule refused_wp)
  fix Q :: "unit \<Rightarrow> 'c graph_store_scheme \<Rightarrow> bool"
  let ?R = "\<lambda>(e :: exn) t. \<exists>n. t = s\<lparr>tick := n\<rparr>"
  let ?s = "s\<lparr>tick := Suc (tick s)\<rparr>"
  have same: "\<exists>n. s = s\<lparr>tick := n\<rparr>" by (rule exI[of _ "tick s"]) simp
  show "wp (assert_readable E) Q ?R s"
  proof (cases "gs_open s")
    case False
    then show ?thesis
      using same by (auto simp: gs_open_def assert_readable_def projection_status_def projection_row_def wp_rules)
  next
    case True
    have later: "\<exists>n. ?s = s\<lparr>tick := n\<rparr>" by blast
    show ?thesis
      unfolding assert_readable_def projection_status_def wp_bnd wp_gs_ensure_open using gs_openD(1)[OF True]
      by (simp, intro wp_projection_row_quiet[OF q True])
        (use s True later in \<open>auto simp: wp_rules served_def has_status_def\<close>)
  qed
qed



text \<open>What another handle sees of one projection.\<close>

definition same_projection :: "'s graph_store_scheme \<Rightarrow> 't graph_store_scheme \<Rightarrow> bool" where
  "same_projection s u \<longleftrightarrow> gs_scope u = gs_scope s \<and> gs_run u = gs_run s \<and> db u = db s"

text \<open>
  Property C15. The rebuild lifecycle, undisturbed: \<open>begin_rebuild\<close> marks the projection, deletes every
  object, relation and patch of its scope and run, and no record of any other; from then on the
  rebuilding handle is served and every other handle is refused. \<open>mark_ready\<close> opens it to all handles,
  \<open>mark_failed\<close> closes it to all, this one too, and records why.
\<close>

theorem rebuild_lifecycle:
  assumes "calm E" and "gs_open s" and "graph_ok E (db s)" and "separate E (gs_scope s) (gs_run s) I (db s)"
    and "edges_at_home sc rid (db s)" and "sc \<noteq> gs_scope s \<or> rid \<noteq> gs_run s"
  shows "\<exists>s1 s2 s3. begin_rebuild E s = (Inr (), s1) \<and> mark_ready E s1 = (Inr (), s2) \<and> mark_failed E why s1 = (Inr (), s3)
     \<and> graph_ok E (db s1) \<and> same_graph_on I (graph_of E (gs_scope s) (gs_run s) (db s1)) empty_graph
     \<and> rows_where (in_vertices sc rid) (ag_vertex (db s1)) = rows_where (in_vertices sc rid) (ag_vertex (db s))
     \<and> rows_where (edge_of sc rid) (ag_relation (db s1)) = rows_where (edge_of sc rid) (ag_relation (db s))
     \<and> rows_where (patch_of sc rid) (ag_patch (db s1)) = rows_where (patch_of sc rid) (ag_patch (db s))
     \<and> ag_run (db s1) = ag_run (db s) \<and> ag_event (db s1) = ag_event (db s)
     \<and> served E s1 \<and> (\<forall>u. same_projection s1 u \<and> \<not> rebuilding_here u \<longrightarrow> \<not> served E (u :: graph_store))
     \<and> served E s2 \<and> (\<forall>u. same_projection s2 u \<and> gs_open u \<longrightarrow> served E (u :: graph_store))
     \<and> (\<forall>u. same_projection s3 u \<longrightarrow> \<not> served E (u :: graph_store)) \<and> \<not> served E s3"
proof -
  let ?sc = "gs_scope s" and ?rid = "gs_run s"
  let ?at = "clock E (tick s)"
  let ?m = "with_status E ?sc ?rid ''rebuilding'' None ?at (db s)"
  let ?s1 = "s\<lparr>rebuilding_here := True, tick := tick s + 4, db := cleared ?sc ?rid ?m\<rparr>"
  have k: "keyed (projection_row_key E) (ag_projection (db s))" using assms(3) by (simp add: graph_ok_def)
  have s1: "begin_rebuild E s = (Inr (), ?s1)" by (rule wp_runs[OF wp_begin_rebuild_calm[OF assms(1,2) k]])
  have ok: "graph_ok E ?m" by (rule graph_ok_with_status[OF assms(3)])
  then have ok1: "graph_ok E (db ?s1)" by (simp add: graph_ok_cleared)
  then have k1: "keyed (projection_row_key E) (ag_projection (db ?s1))" by (simp add: graph_ok_def)
  have o1: "gs_open ?s1" using assms(2) by (simp add: gs_open_def)
  note s2 = wp_runs[OF wp_marks_calm(1)[OF assms(1) o1 k1]] and s3 = wp_runs[OF wp_marks_calm(2)[OF assms(1) o1 k1, of why]]
  have sep: "separate E ?sc ?rid I ?m"
    using assms(4) by (simp add: separate_def own_vertex_def own_relation_def own_patch_def)
  have home: "edges_at_home sc rid ?m" using assms(5) by (simp add: edges_at_home_def)
  note others = cleared_others[OF ok home assms(6)]
  have st: "has_status E ?sc ?rid (db ?s1) x \<longleftrightarrow> x = ''rebuilding''" for x by simp
  show ?thesis
    by (rule exI[of _ ?s1], rule exI, rule exI, intro conjI, rule s1, rule s2, rule s3)
      (use cleared_empty(1)[OF ok sep] ok1 others o1 assms(2) in
        \<open>auto simp: served_def same_projection_def gs_open_def\<close>)
qed

theorem rebuild_lifecycle_witness:
  "\<exists>s1 s2. begin_rebuild sample_env sample_graph = (Inr (), s1) \<and> mark_ready sample_env s1 = (Inr (), s2)
     \<and> served sample_env s1 \<and> served sample_env s2"
proof -
  have "edges_at_home ''z'' ''q'' (db sample_graph)"
    by (simp add: edges_at_home_def rows_where_def) (simp add: sample_projection_def empty_tables_def)
  moreover have "graph_ok sample_env (db sample_graph)"
    "separate sample_env (gs_scope sample_graph) (gs_run sample_graph) (set sample_ids) (db sample_graph)"
    using sample_graph_ok sample_separate by simp_all
  ultimately show ?thesis
    using rebuild_lifecycle[OF sample_calm sample_graph_open, of "set sample_ids" "''z''" "''q''" NoDetail] by auto
qed

section \<open>Counters\<close>

lemma digits_from_ascii: "list_all is_digit ds \<Longrightarrow>
  digits_from n seen ds = (foldl (\<lambda>n c. 10 * n + (case digit_val c of Some d \<Rightarrow> d | None \<Rightarrow> 0)) n ds, seen @ ds, [])"
proof (induction ds arbitrary: n seen)
  case Nil
  then show ?case by (subst digits_from.simps) (simp add: lead_digit_def)
next
  case (Cons c ds)
  then obtain v where "digit_val c = Some v" by (auto simp: is_digit_def)
  with Cons show ?case by (subst digits_from.simps) (simp add: lead_digit_def)
qed

lemma digits_dec_nat: "digits (dec_nat n) = (n, dec_nat n, [])"
  using digits_from_ascii[OF dec_nat_digits, of 0 "[]" n] read_dec_nat[of n] by (simp add: digits_def read_nat_def)

lemma find_counter_of_type: "CHR ''#'' \<notin> set ty \<Longrightarrow> find_counter (ty @ ''#'' @ dec_nat n) = Some (n, dec_nat n)"
proof (induction ty)
  case Nil
  then show ?case by (simp add: counter_here_def starts_with_def digits_dec_nat)
next
  case (Cons c ty)
  then have "counter_here ((c # ty) @ ''#'' @ dec_nat n) = None" by (auto simp: counter_here_def starts_with_def)
  with Cons show ?case by simp
qed

lemma length_dec_nat: "0 < k \<Longrightarrow> length (dec_nat n) \<le> k \<longleftrightarrow> n < 10 ^ k"
proof (induction n arbitrary: k rule: dec_nat.induct)
  case (1 n)
  show ?case
  proof (cases "n < 10")
    case True
    with 1(2) show ?thesis
      using self_le_power[of "10 :: nat" k] by (subst dec_nat.simps) simp
  next
    case False
    obtain j where k: "k = Suc j" using 1(2) by (cases k) auto
    show ?thesis
    proof (cases j)
      case 0
      with False k show ?thesis by (subst dec_nat.simps) simp
    next
      case (Suc i)
      have "length (dec_nat (n div 10)) \<le> j \<longleftrightarrow> n div 10 < 10 ^ j" using 1(1)[OF False, of j] Suc by simp
      also have "\<dots> \<longleftrightarrow> n < 10 ^ k" by (simp add: k div_less_iff_less_mult mult.commute)
      finally show ?thesis using False by (subst dec_nat.simps) (simp add: k)
    qed
  qed
qed

lemma char_count_dec_nat: "char_count (dec_nat n) = length (dec_nat n)"
proof -
  have "char_nat c < 128" if "is_digit c" for c
    using that by (auto simp: is_digit_def digit_val_def Let_def split: if_splits)
  then have "filter (\<lambda>c. char_nat c < 128 \<or> 192 \<le> char_nat c) (dec_nat n) = dec_nat n"
    using dec_nat_digits[of n] by (auto simp: filter_id_conv list_all_iff)
  then show ?thesis by (simp add: char_count_def)
qed

lemma object_counter_of_type:
  assumes "CHR ''#'' \<notin> set ty"
  shows "n < 10 ^ max_str_digits \<Longrightarrow> object_counter (ty @ ''#'' @ dec_nat n) = Inr (int n)"
    and "10 ^ max_str_digits \<le> n \<Longrightarrow> \<exists>m. object_counter (ty @ ''#'' @ dec_nat n) = Inl (ValueError m)"
proof -
  have "0 < max_str_digits" by (simp add: max_str_digits_def)
  note l = length_dec_nat[OF this, of n]
  show "n < 10 ^ max_str_digits \<Longrightarrow> object_counter (ty @ ''#'' @ dec_nat n) = Inr (int n)"
    and "10 ^ max_str_digits \<le> n \<Longrightarrow> \<exists>m. object_counter (ty @ ''#'' @ dec_nat n) = Inl (ValueError m)"
    using l find_counter_of_type[OF assms, of n] by (auto simp: object_counter_def char_count_dec_nat not_le)
qed

text \<open>
  Property C37. Bounds of the counter: an id \<open>type#n\<close> is stored with the counter \<open>n\<close> as long as \<open>n\<close> fits
  the engine's 64-bit integers. From \<open>2 ^ 63\<close> on the engine refuses the object, and from \<open>10 ^ 4300\<close>
  on \<open>int\<close> does; both leave the database as it is.
\<close>

theorem put_object_counter_bounds:
  assumes "calm E" and "served E s" and "graph_ok E (db s)" and "object_to_record E x = Inr f"
    and "fits_int64 (ob_version x)" and "ob_id x = ty @ ''#'' @ dec_nat n" and "CHR ''#'' \<notin> set ty"
  shows "(int n < 2 ^ 63 \<and> n < 10 ^ max_str_digits \<longrightarrow> put_object E x s =
       (Inr (), s\<lparr>tick := tick s + 2, db := put_vertex E (object_content f (gs_scope s) (gs_run s) (int n)) (db s)\<rparr>))
     \<and> (2 ^ 63 \<le> int n \<and> n < 10 ^ max_str_digits \<longrightarrow>
       put_object E x s = (Inl (refusal E (Suc (tick s))), s\<lparr>tick := tick s + 2\<rparr>))
     \<and> (10 ^ max_str_digits \<le> n \<longrightarrow> (\<exists>m. put_object E x s = (Inl (ValueError m), s\<lparr>tick := Suc (tick s)\<rparr>)))"
proof (intro conjI impI)
  note count = object_counter_of_type[OF assms(7), of n, folded assms(6)]
  have read: "assert_writable E s = (Inr (), s\<lparr>tick := Suc (tick s)\<rparr>)"
    by (rule wp_runs[OF wp_assert_writable_calm[OF assms(1,2)]])
  have f: "version f = Some (ob_version x)" using assms(4) by (auto simp: object_to_record_def)
  let ?r = "object_content f (gs_scope s) (gs_run s) (int n)"
  have fits: "vertex_fits ?r \<longleftrightarrow> int n < 2 ^ 63"
    using assms(5) by (simp add: vertex_fits_def object_content_def f) (simp add: fits_int64_def)
  show "put_object E x s = (Inr (), s\<lparr>tick := tick s + 2, db := put_vertex E ?r (db s)\<rparr>)"
    if "int n < 2 ^ 63 \<and> n < 10 ^ max_str_digits"
    by (rule wp_runs[OF wp_put_object_calm[OF assms(1-4)]]) (use that count(1) fits in simp_all)
  show "\<exists>m. put_object E x s = (Inl (ValueError m), s\<lparr>tick := Suc (tick s)\<rparr>)" if "10 ^ max_str_digits \<le> n"
    using count(2)[OF that] by (auto simp: put_object_def bnd_def with_self_def lift_def read)
  show "put_object E x s = (Inl (refusal E (Suc (tick s))), s\<lparr>tick := tick s + 2\<rparr>)"
    if n: "2 ^ 63 \<le> int n \<and> n < 10 ^ max_str_digits"
  proof -
    let ?s = "s\<lparr>tick := Suc (tick s)\<rparr>"
    have o: "\<not> link_closed ?s" "session_open ?s" using gs_openD[OF served_open[OF assms(2)]] by simp_all
    have "upsert_vertex k ?r e d = Refused e" for k e d using fits n by (simp add: upsert_vertex_def)
    moreover have "outcome E m = Proceeds" "others E m d = d" for m d
      using assms(1) by (simp_all add: calm_def fault_free_def quiet_def)
    ultimately have "query E (upsert_vertex k ?r) ?s = (Inl (refusal E (Suc (tick s))), s\<lparr>tick := tick s + 2\<rparr>)" for k
      using o by (simp add: query_def bnd_def need_session_def link_ensure_open_def request_def arrived_def Let_def)
    then show ?thesis
      using count(1) n by (simp add: put_object_def bnd_def with_self_def lift_def read assms(4))
  qed
qed

theorem put_object_counter_bounds_witness:
  "\<exists>s1. put_object sample_env sample_task sample_graph = (Inr (), s1)
   \<and> put_object sample_env (sample_task\<lparr>ob_id := ''task#'' @ dec_nat (2 ^ 63)\<rparr>) sample_graph =
      (Inl (Foreign ''QueryError'' ''refused''), sample_graph\<lparr>tick := 2\<rparr>)"
proof -
  have i: "ob_id sample_task = ''task'' @ ''#'' @ dec_nat 1" "fits_int64 (ob_version sample_task)"
    by (simp add: sample_task_def, code_simp) (simp add: sample_task_def fits_int64_def)
  let ?x = "sample_task\<lparr>ob_id := ''task#'' @ dec_nat (2 ^ 63)\<rparr>"
  have i2: "ob_id ?x = ''task'' @ ''#'' @ dec_nat (2 ^ 63)" "fits_int64 (ob_version ?x)" using i(2) by simp_all
  obtain f where f: "object_to_record sample_env sample_task = Inr f" using sample_encodes(1) encodesD by blast
  then have f2: "\<exists>f. object_to_record sample_env ?x = Inr f" by (auto simp: object_to_record_def)
  have big: "(2 :: nat) ^ 63 < 10 ^ max_str_digits"
  proof -
    have "(2 :: nat) ^ 63 < 10 ^ 20" by simp
    also have "(10 :: nat) ^ 20 \<le> 10 ^ max_str_digits" by (rule power_increasing) (simp_all add: max_str_digits_def)
    finally show ?thesis .
  qed
  then have one: "(1 :: nat) < 10 ^ max_str_digits" by (rule less_trans[rotated]) simp
  have g: "graph_ok sample_env (db sample_graph)" using sample_graph_ok by simp
  have r: "refusal sample_env n = Foreign ''QueryError'' ''refused''" for n by (simp add: sample_env_def)
  show ?thesis
    using put_object_counter_bounds[OF sample_calm sample_graph_served g f i(2,1)]
      f2 put_object_counter_bounds[OF sample_calm sample_graph_served g _ i2(2,1)] big one r by auto
qed

section \<open>Opening\<close>

text \<open>
  Property C24. Constructing a graph store, undisturbed, on a database of a supported schema version
  installs the schema and, when the scope and run have none, a projection record with status
  \<open>ready\<close>; an existing projection keeps its status and its contents. The new handle is open, and served
  exactly when the stored status is \<open>ready\<close>.
\<close>

theorem new_graph_store_opens:
  assumes "calm E" and "rid \<noteq> []" and "sc \<noteq> []" and "openable E c (db s)" and "projection_own E sc rid (db s)"
  shows "\<exists>g t. new_graph_store E c rid sc s = (Inr g, t) \<and> db g = db t \<and> gs_open g
     \<and> gs_scope g = sc \<and> gs_run g = rid
     \<and> ag_vertex (db t) = ag_vertex (db s) \<and> ag_relation (db t) = ag_relation (db s)
     \<and> ag_patch (db t) = ag_patch (db s) \<and> ag_run (db t) = ag_run (db s) \<and> ag_event (db t) = ag_event (db s)
     \<and> (map_of (ag_projection (db s)) (projection_key E sc rid) \<noteq> None \<longrightarrow> ag_projection (db t) = ag_projection (db s))
     \<and> (served E g \<longleftrightarrow> (map_of (ag_projection (db s)) (projection_key E sc rid) = None \<or> has_status E sc rid (db s) ''ready''))"
proof -
  from new_graph_store_calm[OF assms]
  obtain g n at at' where g: "new_graph_store E c rid sc s =
      (Inr g, s\<lparr>db := with_projection E sc rid at' (installed E at (db s)), tick := n\<rparr>)"
    "db g = with_projection E sc rid at' (installed E at (db s))" "gs_scope g = sc" "gs_run g = rid" "gs_open g" "\<not> rebuilding_here g"
    by blast
  let ?t = "s\<lparr>db := with_projection E sc rid at' (installed E at (db s)), tick := n\<rparr>"
  have same: "ag_projection (installed E at (db s)) = ag_projection (db s)" "ag_patch (installed E at (db s)) = ag_patch (db s)"
    "ag_vertex (installed E at (db s)) = ag_vertex (db s)" "ag_relation (installed E at (db s)) = ag_relation (db s)"
    "ag_run (installed E at (db s)) = ag_run (db s)" "ag_event (installed E at (db s)) = ag_event (db s)"
    by (simp_all add: installed_def)
  show ?thesis
  proof (cases "map_of (ag_projection (db s)) (projection_key E sc rid) = None")
    case True
    then show ?thesis
      using g same by (intro exI[of _ g] exI[of _ ?t]) (simp add: with_projection_def served_def)
  next
    case False
    then obtain row where row: "map_of (ag_projection (db s)) (projection_key E sc rid) = Some row" by blast
    then have "with_projection E sc rid at' (installed E at (db s)) = installed E at (db s)"
      by (simp add: with_projection_def same)
    then show ?thesis
      using g same by (intro exI[of _ g] exI[of _ ?t]) (simp add: served_def has_status_def row)
  qed
qed

theorem new_graph_store_opens_witness:
  "\<exists>g t. new_graph_store sample_env sample_config ''r'' ''s'' \<lparr>db = empty_tables, tick = 0\<rparr> = (Inr g, t)
     \<and> db g = db t \<and> served sample_env g"
proof -
  have "projection_own sample_env ''s'' ''r'' empty_tables"
    by (simp add: projection_own_def keyed_def empty_tables_def)
  moreover have "map_of (ag_projection empty_tables) k = None" for k by (simp add: empty_tables_def)
  ultimately show ?thesis
    using sample_openable new_graph_store_opens[of sample_env "''r''" "''s''" sample_config "\<lparr>db = empty_tables, tick = 0\<rparr>"] sample_calm
    by auto
qed

end
