(* ===== verification/Closing.thy ===== *)
theory Closing
  imports EventStore GraphStore
begin

text \<open>
  The contract of \<open>close\<close> that the pack harness relies on, whatever requests fail, and that the
  connection and both stores keep: closing marks the object, and a marked object is left alone.
\<close>

locale closable =
  fixes close :: "('s, exn, unit) prog" and closed :: "'s \<Rightarrow> bool"
  assumes closes: "close s = (r, t) \<Longrightarrow> closed t"
    and stays: "closed s \<Longrightarrow> close s = (Inr (), s)"
begin

lemma close_again: "close s = (r, t) \<Longrightarrow> close t = (Inr (), t)"
  by (rule stays) (rule closes)

lemma closed_after: "closed (snd (close s))"
  by (cases "close s") (simp add: closes)

lemma close_keeps_closed: "\<lbrakk>closed s; close s = (r, t)\<rbrakk> \<Longrightarrow> t = s \<and> r = Inr ()"
  by (simp add: stays)

end

text \<open>Closing the connection leaves a store's own mark as it is.\<close>

lemma link_close_marks:
  "link_closed (snd (link_close E t))"
  "es_closed (snd (link_close E u)) = es_closed (u :: 's event_store_scheme)"
  "gs_closed (snd (link_close E v)) = gs_closed (v :: 'g graph_store_scheme)"
proof -
  have "wp (link_close E) (\<lambda>_ t'. link_closed t') (\<lambda>_ t'. link_closed t') t"
    "wp (link_close E) (\<lambda>_ u'. es_closed u' = es_closed u) (\<lambda>_ u'. es_closed u' = es_closed u) u"
    "wp (link_close E) (\<lambda>_ v'. gs_closed v' = gs_closed v) (\<lambda>_ v'. gs_closed v' = gs_closed v) v"
    by (auto simp: link_close_def wp_rules ping_def wp_request arrived_def split: call_outcome.splits step.splits)
  then show "link_closed (snd (link_close E t))"
    "es_closed (snd (link_close E u)) = es_closed (u :: 's event_store_scheme)"
    "gs_closed (snd (link_close E v)) = gs_closed (v :: 'g graph_store_scheme)"
    unfolding wp_any .
qed

interpretation link_closing: closable "link_close E" link_closed for E
proof
  show "link_close E s = (r, t) \<Longrightarrow> link_closed t" for s r t
    using link_close_marks(1)[of E s] by simp
  show "link_closed s \<Longrightarrow> link_close E s = (Inr (), s)" for s
    by (simp add: link_close_def bnd_def get_state_def ret_def)
qed

interpretation event_closing: closable "es_close E" es_closed for E
proof
  show "es_close E s = (r, t) \<Longrightarrow> es_closed t" for s r t
    using link_close_marks(2)[of E "s\<lparr>es_closed := True\<rparr>"]
    by (auto simp: es_close_def bnd_def get_state_def modify_def ret_def split: if_splits)
  show "es_closed s \<Longrightarrow> es_close E s = (Inr (), s)" for s
    by (simp add: es_close_def bnd_def get_state_def ret_def)
qed

interpretation graph_closing: closable "gs_close E" gs_closed for E
proof
  show "gs_close E s = (r, t) \<Longrightarrow> gs_closed t" for s r t
    using link_close_marks(3)[of E "s\<lparr>gs_closed := True\<rparr>"]
    by (auto simp: gs_close_def bnd_def get_state_def modify_def ret_def split: if_splits)
  show "gs_closed s \<Longrightarrow> gs_close E s = (Inr (), s)" for s
    by (simp add: gs_close_def bnd_def get_state_def ret_def)
qed

end
