(* ===== verification/GraphFaults.thy ===== *)
theory GraphFaults
  imports GraphTheorems Closing
begin

text \<open>
  The properties of the projection that hold whatever fails: a write is whole or absent, a
  read writes nothing, the invariant of the tables survives every sequence of calls, a closed handle is
  inert.
\<close>

section \<open>Writes are whole or absent\<close>

text \<open>The program ends in \<open>d1\<close> when it returns, and in \<open>d0\<close> or \<open>d1\<close> when it raises.\<close>

definition whole :: "tables \<Rightarrow> tables \<Rightarrow> ('s graph_store_scheme, exn, unit) prog \<Rightarrow> 's graph_store_scheme \<Rightarrow> bool" where
  "whole d0 d1 p s \<longleftrightarrow> wp p (\<lambda>_ t. db t = d1) (\<lambda>_ t. db t = d0 \<or> db t = d1) s"

lemma wp_assert_writable_quiet:
  assumes q: "quiet E" and Q: "\<And>n. Q () (s\<lparr>tick := n\<rparr>)" and R: "\<And>e n. R e (s\<lparr>tick := n\<rparr>)"
  shows "wp (assert_writable E) Q R s"
proof (cases "gs_open s")
  case False
  have "R e s" for e using R[of e "tick s"] by simp
  with False show ?thesis
    by (auto simp: gs_open_def assert_writable_def assert_readable_def projection_status_def projection_row_def wp_rules)
next
  case True
  show ?thesis
    unfolding assert_writable_def assert_readable_def projection_status_def wp_bnd wp_gs_ensure_open using gs_openD(1)[OF True]
    by (simp, intro wp_projection_row_quiet[OF q True]) (simp_all add: wp_rules Q R)
qed

lemma whole_checked:
  assumes q: "quiet E" and p: "\<And>n. whole (db s) d1 p (s\<lparr>tick := n\<rparr>)"
  shows "whole (db s) d1 (bnd (assert_writable E) (\<lambda>_. p)) s"
  unfolding whole_def wp_bnd
  by (rule wp_assert_writable_quiet[OF q]) (use p in \<open>simp_all add: whole_def\<close>)

lemma whole_query:
  assumes q: "quiet E" and d0: "db s = d0" and f: "\<And>e x d w. f e d0 = Done x d w \<Longrightarrow> d = d1"
  shows "whole d0 d1 (query E f) s"
  unfolding whole_def wp_query
  by (auto intro!: wp_request_quiet[OF q] dest: f simp: d0)

lemma whole_bnd_lift: "whole d0 d1 (f x) s \<Longrightarrow> whole d0 d1 (bnd (lift (Inr x)) f) s"
  by (simp add: whole_def wp_rules)

lemma whole_with_self: "whole d0 d1 (p s) s \<Longrightarrow> whole d0 d1 (with_self p) s"
  by (simp add: whole_def wp_rules)

lemma whole_put_object:
  assumes q: "quiet E" and ok: "graph_ok E (db s)" and f: "object_to_record E x = Inr f"
    and n: "object_counter (ob_id x) = Inr n" and fits: "vertex_fits (object_content f (gs_scope s) (gs_run s) n)"
  shows "whole (db s) (put_vertex E (object_content f (gs_scope s) (gs_run s) n) (db s)) (put_object E x) s"
proof -
  have "object_id f = ob_id x" using f by (auto simp: object_to_record_def)
  then have "vertex_key E (gs_scope s) (gs_run s) (ob_id x) = vertex_row_key E (object_content f (gs_scope s) (gs_run s) n)"
    by (simp add: vertex_row_key_def object_content_def)
  then show ?thesis
    unfolding put_object_def n f
    by (intro whole_checked[OF q] whole_with_self whole_bnd_lift whole_query[OF q])
      (simp_all add: upsert_vertex_Done[OF ok fits])
qed

lemma whole_remove_object:
  assumes q: "quiet E" and ok: "graph_ok E (db s)" and own: "own_vertex E (gs_scope s) (gs_run s) i (db s)"
  shows "whole (db s) (removed E (gs_scope s) (gs_run s) i (db s)) (remove_object E i) s"
  unfolding remove_object_def
proof (intro whole_checked[OF q] whole_with_self)
  fix n
  let ?s = "s\<lparr>tick := n\<rparr>" and ?k = "vertex_key E (gs_scope s) (gs_run s) i"
  have names: "gs_scope ?s = gs_scope s" "gs_run ?s = gs_run s" by simp_all
  let ?rest = "\<lambda>r. case one r of None \<Rightarrow> ret ()
     | Some row \<Rightarrow>
         bnd (assert_scoped_row (vertex_scope row) (vertex_run row) (Some (object_id row, i))) (\<lambda>_.
         bnd (lift (placeholder_content (gs_scope s) (gs_run s) i)) (\<lambda>content. query E (upsert_vertex ?k content)))"
  have rest: "whole (db s) (removed E (gs_scope s) (gs_run s) i (db s)) (?rest (select_reply (listed E) (map_of (ag_vertex (db s)) ?k)))
     (s\<lparr>tick := m\<rparr>)" for m
  proof (cases "map_of (ag_vertex (db s)) ?k")
    case None
    then show ?thesis by (simp add: whole_def wp_rules removed_def)
  next
    case (Some r)
    then have r: "vertex_scope r = gs_scope s" "vertex_run r = gs_run s" "object_id r = i"
      and v: "vertex_ok E r" using own graph_ok_vertexD[OF ok] by (auto simp: own_vertex_def)
    then have c: "object_counter i = Inr (object_seq r)" by (auto simp: vertex_ok_def)
    have "fits_int64 (object_seq r)" using v by (simp add: vertex_ok_def vertex_fits_def)
    then have fits: "vertex_fits (stub (gs_scope s) (gs_run s) i (object_seq r))" by simp
    show ?thesis
      unfolding Some placeholder_stub[OF c]
      by (simp add: whole_def wp_bnd wp_lift wp_assert_scoped_row r)
        (rule whole_query[OF q, unfolded whole_def], simp_all add: removed_def Some upsert_vertex_Done[OF ok fits])
  qed
  have "wp (request E (select_vertex (listed E) ?k)) (\<lambda>r. wp (?rest r) (\<lambda>_ t. db t = removed E (gs_scope s) (gs_run s) i (db s))
      (\<lambda>_ t. db t = db s \<or> db t = removed E (gs_scope s) (gs_run s) i (db s)))
    (\<lambda>_ t. db t = db s \<or> db t = removed E (gs_scope s) (gs_run s) i (db s)) ?s"
    unfolding select_vertex_def by (rule wp_reading_quiet[OF q]) (use rest in \<open>simp_all add: whole_def\<close>)
  then show "whole (db s) (removed E (gs_scope s) (gs_run s) i (db s))
     (bnd (query E (select_vertex (listed E) (vertex_key E (gs_scope ?s) (gs_run ?s) i)))
       (\<lambda>r. case one r of None \<Rightarrow> ret ()
     | Some row \<Rightarrow>
         bnd (assert_scoped_row (vertex_scope row) (vertex_run row) (Some (object_id row, i))) (\<lambda>_.
         bnd (lift (placeholder_content (gs_scope ?s) (gs_run ?s) i)) (\<lambda>content.
           query E (upsert_vertex (vertex_key E (gs_scope ?s) (gs_run ?s) i) content))))) ?s"
    unfolding names by (simp add: whole_def wp_bnd wp_query)
qed

lemma whole_removes:
  assumes q: "quiet E"
  shows "whole (db s) ((db s)\<lparr>ag_relation := AList.delete (relation_key E (gs_scope s) (gs_run s) i) (ag_relation (db s))\<rparr>)
      (remove_relation E i) s"
    and "whole (db s) ((db s)\<lparr>ag_patch := AList.delete (patch_key E (gs_scope s) (gs_run s) i) (ag_patch (db s))\<rparr>)
      (remove_patch E i) s"
  unfolding remove_relation_def remove_patch_def
  by (intro whole_checked[OF q] whole_with_self whole_query[OF q], simp_all add: delete_relation_def delete_patch_def)+

lemma whole_put_patch:
  assumes q: "quiet E" and ok: "graph_ok E (db s)" and fr: "float_text_ok (float_text E)"
    and f: "patch_to_record E pa = Inr f" and v: "fits_int64 (pa_expected_version pa)"
  shows "whole (db s) (put_patch_row E (patch_content f (gs_scope s) (gs_run s)) (db s)) (put_patch E pa) s"
proof -
  let ?r = "patch_content f (gs_scope s) (gs_run s)"
  note k = patch_row_facts[OF fr f]
  have "room_for patch_clash (patch_row_key E ?r) ?r (ag_patch (db s))"
    using ok by (intro patches.room) (simp add: graph_ok_def)
  then have up: "upsert_patch (patch_row_key E ?r) ?r e (db s) = Done () (put_patch_row E ?r (db s)) nothing" for e
    using v k(3) by (simp add: upsert_patch_def put_patch_row_def) (simp add: patch_content_def)
  have session: "whole (db s) d1 (bnd need_session (\<lambda>_. p)) t" if "whole (db s) d1 p t" "db t = db s" for d1 p t
    using that by (simp add: whole_def wp_rules)
  show ?thesis
    unfolding put_patch_def f
    by (intro whole_checked[OF q] session whole_with_self whole_bnd_lift whole_query[OF q])
      (simp_all add: up k(2)[symmetric])
qed

text \<open>Inside \<open>put_relation\<close>: the tables and the records the transaction has written so far.\<close>

definition edging :: "tables \<Rightarrow> string \<Rightarrow> string \<Rightarrow> tables \<Rightarrow> touched \<Rightarrow> 's graph_store_scheme \<Rightarrow> bool" where
  "edging d0 sc rid u w s \<longleftrightarrow> db s = d0 \<and> gs_scope s = sc \<and> gs_run s = rid
     \<and> transaction s = Some \<lparr>base = d0, work = u, written = w\<rparr>"

lemma wp_edging:
  assumes q: "quiet E" and s: "edging d0 sc rid u w s"
    and Q: "\<And>e x d w' t. \<lbrakk>f e u = Done x d w'; edging d0 sc rid d (also_written w w') t\<rbrakk> \<Longrightarrow> Q x t"
    and R: "\<And>e t. db t = d0 \<Longrightarrow> R e t"
  shows "wp (txn_request E f) Q R s"
proof -
  have t: "transaction s = Some \<lparr>base = d0, work = u, written = w\<rparr>" using s by (simp add: edging_def)
  show ?thesis
    by (rule wp_txn_request_quiet[OF q t]) (use s in \<open>auto intro!: Q R simp: edging_def\<close>)
qed

lemma also_nothing [simp]: "also_written w nothing = w" "nothing\<lparr>t_vertex := []\<rparr> = nothing"
  by (simp_all add: also_written_def nothing_def)

lemma wp_placeholder_edging:
  fixes s :: "'s graph_store_scheme"
  assumes q: "quiet E" and s: "edging d0 sc rid u w s" and ok: "graph_ok E u" and own: "own_vertex E sc rid i u"
    and Q: "\<And>t. edging d0 sc rid (stubbed E sc rid i u) (also_written w (nothing\<lparr>t_vertex := stub_keys E sc rid i u\<rparr>)) t \<Longrightarrow> Q () t"
    and R: "\<And>e t. db t = d0 \<Longrightarrow> R e t"
  shows "wp (ensure_placeholder E (vertex_key E sc rid i) i) Q R s"
proof -
  let ?k = "vertex_key E sc rid i"
  have n: "gs_scope s = sc" "gs_run s = rid" using s by (simp_all add: edging_def)
  show ?thesis
    unfolding ensure_placeholder_def wp_with_self wp_bnd n
  proof (rule wp_edging[OF q s _ R])
    fix e x d w' and t :: "'s graph_store_scheme"
    assume "select_vertex (listed E) ?k e u = Done x d w'" and t: "edging d0 sc rid d (also_written w w') t"
    then have x: "x = select_reply (listed E) (map_of (ag_vertex u) ?k)" "d = u" "w' = nothing"
      by (auto simp: select_vertex_def reading_def)
    have t: "edging d0 sc rid u w t" using t x by simp
    then have tn: "gs_scope t = sc" "gs_run t = rid" "db t = d0" by (simp_all add: edging_def)
    show "wp (case one x of
         None \<Rightarrow> bnd (lift (placeholder_content sc rid i)) (\<lambda>content. txn_request E (create_vertex ?k content))
       | Some row \<Rightarrow> assert_scoped_row (vertex_scope row) (vertex_run row) (Some (object_id row, i))) Q R t"
    proof (cases "map_of (ag_vertex u) ?k")
      case (Some r)
      then have "edging d0 sc rid (stubbed E sc rid i u) (also_written w (nothing\<lparr>t_vertex := stub_keys E sc rid i u\<rparr>)) t"
        using t by (simp add: stubbed_def stub_keys_def)
      with Some own show ?thesis
        by (simp add: x wp_rules tn own_vertex_def Q)
    next
      case None
      show ?thesis
      proof (cases "object_counter i")
        case (Inl e)
        then show ?thesis using None R tn by (simp add: x wp_rules placeholder_content_def)
      next
        case (Inr m)
        have "wp (txn_request E (create_vertex ?k (stub sc rid i m))) Q R t"
          by (rule wp_edging[OF q t _ R])
            (auto simp: create_vertex_def stubbed_def stub_keys_def None Inr put_vertex_def split: if_splits intro!: Q)
        then show ?thesis by (simp add: x None wp_rules placeholder_stub[OF Inr])
      qed
    qed
  qed
qed

text \<open>The two edge writes and the commit of a call that no other session disturbs.\<close>

lemma wp_edge_edging:
  assumes q: "quiet E" and t: "edging d0 sc rid d w t"
    and installed: "install \<lparr>base = d0, work = d\<lparr>ag_relation := AList.update k r (AList.delete k (ag_relation d))\<rparr>,
        written = also_written (also_written w (nothing\<lparr>t_relation := [k]\<rparr>)) (nothing\<lparr>t_relation := [k]\<rparr>)\<rparr> d0 = after"
  shows "wp (txn_request E (delete_relation k)) (\<lambda>_. wp (txn_request E (insert_relation k r))
    (\<lambda>_. wp (commit E) (\<lambda>_ t. db t = after) (\<lambda>_ t. db t = d0 \<or> db t = after)) (\<lambda>_ t. db t = d0 \<or> db t = after))
    (\<lambda>_ t. db t = d0 \<or> db t = after) t"
proof (rule wp_edging[OF q t])
  let ?R = "\<lambda>_ t. db t = d0 \<or> db t = after"
  have commits: "wp (commit E) (\<lambda>_ t. db t = after) ?R v"
    if "edging d0 sc rid (d\<lparr>ag_relation := AList.update k r (AList.delete k (ag_relation d))\<rparr>)
      (also_written (also_written w (nothing\<lparr>t_relation := [k]\<rparr>)) (nothing\<lparr>t_relation := [k]\<rparr>)) v" for v
    by (rule wp_commit_quiet[OF q]) (use that installed in \<open>auto simp: edging_def\<close>)
  fix e x d' w' u
  assume "delete_relation k e d = Done x d' w'" and u: "edging d0 sc rid d' (also_written w w') u"
  then have d: "d' = d\<lparr>ag_relation := AList.delete k (ag_relation d)\<rparr>" "w' = nothing\<lparr>t_relation := [k]\<rparr>"
    by (auto simp: delete_relation_def)
  show "wp (txn_request E (insert_relation k r)) (\<lambda>_. wp (commit E) (\<lambda>_ t. db t = after) ?R) ?R u"
    by (rule wp_edging[OF q u]) (auto simp: insert_relation_def d split: if_splits intro!: commits)
qed simp

lemma whole_put_relation:
  assumes q: "quiet E" and ok: "graph_ok E (db s)"
    and sep: "separate E (gs_scope s) (gs_run s) I (db s)" "re_source rel \<in> I" "re_target rel \<in> I"
    and ids: "id_ok (re_source rel)" "id_ok (re_target rel)"
    and f: "relation_to_record E rel = Inr f"
  shows "whole (db s) (related E (gs_scope s) (gs_run s) f (db s)) (put_relation E rel) s"
proof -
  let ?sc = "gs_scope s" and ?rid = "gs_run s" and ?d = "db s"
  let ?a = "re_source rel" and ?b = "re_target rel"
  let ?d1 = "stubbed E ?sc ?rid ?a ?d"
  let ?d2 = "stubbed E ?sc ?rid ?b ?d1"
  let ?r = "edge_row E ?sc ?rid f"
  let ?k = "relation_row_key E ?r"
  let ?w1 = "also_written nothing (nothing\<lparr>t_vertex := stub_keys E ?sc ?rid ?a ?d\<rparr>)"
  let ?w2 = "also_written ?w1 (nothing\<lparr>t_vertex := stub_keys E ?sc ?rid ?b ?d1\<rparr>)"
  let ?after = "related E ?sc ?rid f ?d"
  let ?R = "\<lambda>(e :: exn) t. db t = ?d \<or> db t = ?after"
  have ff: "source f = ?a" "target f = ?b" "relation_id f = re_id rel"
    using f by (auto simp: relation_to_record_def)
  have k: "relation_key E ?sc ?rid (re_id rel) = ?k"
    by (simp add: relation_row_key_def edge_row_def relation_content_def ff)
  have row: "relation_content f ?sc ?rid (vertex_key E ?sc ?rid ?a) (vertex_key E ?sc ?rid ?b) = ?r"
    by (simp add: edge_row_def ff)
  have sep1: "separate E ?sc ?rid I ?d1" by (rule separate_stubbed[OF sep(1,2)])
  have installed: "install \<lparr>base = ?d, work = ?d2\<lparr>ag_relation := AList.update ?k ?r (AList.delete ?k (ag_relation ?d2))\<rparr>,
      written = also_written (also_written ?w2 (nothing\<lparr>t_relation := [?k]\<rparr>)) (nothing\<lparr>t_relation := [?k]\<rparr>)\<rparr> ?d = ?after"
    using install_edge[OF _ ids refl, where E = E and sc = ?sc and rid = ?rid and d = ?d and r = ?r]
    by (simp add: related_def ff also_written_def nothing_def)
  note edges = wp_edge_edging[OF q, where ?d0.0 = ?d and d = ?d2 and w = ?w2 and k = ?k and r = ?r and after = ?after]
  have inner: "wp (put_relation_in_transaction E rel) (\<lambda>_ t. db t = ?after) ?R t" if t: "edging ?d ?sc ?rid ?d nothing t" for t
  proof -
    have n: "gs_scope t = ?sc" "gs_run t = ?rid" using t by (simp_all add: edging_def)
    show ?thesis
      unfolding put_relation_in_transaction_def wp_with_self Let_def wp_bnd n k f wp_lift sum.case row
      by (intro wp_placeholder_edging[OF q t ok separate_own(1)[OF sep(1,2)]]
          wp_placeholder_edging[OF q _ graph_ok_stubbed[OF ok ids(1)] separate_own(1)[OF sep1 sep(3)]])
        (rule edges disjI1 installed | assumption)+
  qed
  have cancelled: "wp (cancel_safely E) (\<lambda>_. wp (throw e) (\<lambda>_ t. db t = ?after) ?R) ?R t" if "?R e t" for e t
    using that by (auto simp: wp_rules ping_def intro!: wp_reading_quiet[OF q])
  show ?thesis
    unfolding put_relation_def
  proof (rule whole_checked[OF q])
    fix n
    let ?s = "s\<lparr>tick := n\<rparr>"
    have "wp (begin_transaction E) (\<lambda>_. edging ?d ?sc ?rid ?d nothing) ?R ?s"
      unfolding wp_begin_transaction by (auto intro!: wp_reading_quiet[OF q] simp: edging_def)
    then have "wp (begin_transaction E) (\<lambda>_. wp (put_relation_in_transaction E rel) (\<lambda>_ t. db t = ?after)
        (\<lambda>e. wp (cancel_safely E) (\<lambda>_. wp (throw e) (\<lambda>_ t. db t = ?after) ?R) ?R)) ?R ?s"
      by (rule wp_conseq) (auto intro: wp_conseq[OF inner] cancelled)
    then show "whole ?d ?after (bnd (begin_transaction E) (\<lambda>_. try_except (put_relation_in_transaction E rel)
       (\<lambda>e. bnd (cancel_safely E) (\<lambda>_. throw e)))) ?s"
      by (simp add: whole_def wp_bnd wp_try_except)
  qed
qed

lemma perform_whole:
  assumes q: "quiet E" and fr: "float_text_ok (float_text E)" and ok: "graph_ok E (db s)"
    and sep: "separate E (gs_scope s) (gs_run s) I (db s)" and what: "op_ok E I what"
  shows "\<exists>d1. whole (db s) d1 (perform E what) s \<and> tracks E (gs_scope s) (gs_run s) I (db s) what d1"
proof (cases what)
  case (PutObject x)
  then obtain f n where f: "object_to_record E x = Inr f" and n: "object_counter (ob_id x) = Inr n" "fits_int64 n"
    and x: "ob_id x \<in> I" "fits_int64 (ob_version x)" using what by (auto simp: id_ok_def)
  have fits: "vertex_fits (object_content f (gs_scope s) (gs_run s) n)"
    using f n x by (auto simp: vertex_fits_def object_content_def object_to_record_def)
  show ?thesis
    using whole_put_object[OF q ok f n(1) fits] tracks_put_object[OF ok sep fr f n(1) x(1) fits]
    by (auto simp: PutObject)
next
  case (RemoveObject i)
  then have i: "i \<in> I" using what by simp
  show ?thesis
    using whole_remove_object[OF q ok separate_own(1)[OF sep i]] tracks_remove_object[OF ok sep i]
    by (auto simp: RemoveObject)
next
  case (PutRelation x)
  then obtain f where f: "relation_to_record E x = Inr f"
    and x: "re_id x \<in> I" "re_source x \<in> I" "re_target x \<in> I" "id_ok (re_source x)" "id_ok (re_target x)"
    using what by auto
  show ?thesis
    using whole_put_relation[OF q ok sep x(2-5) f] tracks_put_relation[OF ok sep fr f x] by (auto simp: PutRelation)
next
  case (RemoveRelation i)
  then have "i \<in> I" using what by simp
  then show ?thesis
    using whole_removes(1)[OF q, of s i] tracks_removes(1)[OF ok sep] by (auto simp: RemoveRelation)
next
  case (PutPatch x)
  then obtain f where f: "patch_to_record E x = Inr f" and x: "pa_id x \<in> I" "fits_int64 (pa_expected_version x)"
    using what by auto
  show ?thesis
    using whole_put_patch[OF q ok fr f x(2)] tracks_put_patch[OF ok sep fr f x(1)] by (auto simp: PutPatch)
next
  case (RemovePatch i)
  then have "i \<in> I" using what by simp
  then show ?thesis
    using whole_removes(2)[OF q, of s i] tracks_removes(2)[OF ok sep] by (auto simp: RemovePatch)
qed

text \<open>
  Property C11. While no other session writes, whichever requests fail, before or after their effect, a
  call that puts or removes an object, a relation or a patch either raises and leaves the database as
  it was, or makes exactly its change, entirely; when it returns, the change is made. In
  particular \<open>put_relation\<close>, a transaction over up to three records, is never half done.
\<close>

theorem graph_write_all_or_nothing:
  assumes "quiet E" and "float_text_ok (float_text E)" and "graph_ok E (db s)"
    and "separate E (gs_scope s) (gs_run s) I (db s)" and "op_ok E I what" and "perform E what s = (r, s')"
  shows "(db s' = db s \<and> (\<exists>e. r = Inl e)) \<or> tracks E (gs_scope s) (gs_run s) I (db s) what (db s')"
proof -
  obtain d1 where d1: "whole (db s) d1 (perform E what) s" "tracks E (gs_scope s) (gs_run s) I (db s) what d1"
    using perform_whole[OF assms(1-5)] by blast
  then show ?thesis
    using assms(6) by (cases r) (auto simp: whole_def wp_def)
qed

lemma faulty_codecs [simp]:
  "loads (E\<lparr>outcome := f\<rparr>) = loads E" "parse_json (E\<lparr>outcome := f\<rparr>) = parse_json E"
  "adapted (E\<lparr>outcome := f\<rparr>) = adapted E" "canonical_json (E\<lparr>outcome := f\<rparr>) = canonical_json E"
proof -
  show l: "loads (E\<lparr>outcome := f\<rparr>) = loads E" by (simp add: fun_eq_iff loads_def)
  show "parse_json (E\<lparr>outcome := f\<rparr>) = parse_json E" by (simp add: fun_eq_iff parse_json_def l)
  show a: "adapted (E\<lparr>outcome := f\<rparr>) = adapted E" by (simp add: fun_eq_iff adapted_def l)
  show "canonical_json (E\<lparr>outcome := f\<rparr>) = canonical_json E" by (simp add: fun_eq_iff canonical_json_def a)
qed

lemma faulty_same [simp]:
  "object_to_record (E\<lparr>outcome := f\<rparr>) = object_to_record E" "relation_to_record (E\<lparr>outcome := f\<rparr>) = relation_to_record E"
  "patch_to_record (E\<lparr>outcome := f\<rparr>) = patch_to_record E" "object_from_record (E\<lparr>outcome := f\<rparr>) = object_from_record E"
  "record_to_relation (E\<lparr>outcome := f\<rparr>) = record_to_relation E" "patch_from_record (E\<lparr>outcome := f\<rparr>) = patch_from_record E"
  "vertex_key (E\<lparr>outcome := f\<rparr>) = vertex_key E" "relation_key (E\<lparr>outcome := f\<rparr>) = relation_key E"
  "patch_key (E\<lparr>outcome := f\<rparr>) = patch_key E" "projection_key (E\<lparr>outcome := f\<rparr>) = projection_key E"
  by (simp_all add: fun_eq_iff object_to_record_def relation_to_record_def patch_to_record_def object_from_record_def
      record_to_relation_def patch_from_record_def vertex_key_def relation_key_def patch_key_def projection_key_def)

lemma faulty_ok [simp]:
  "op_ok (E\<lparr>outcome := f\<rparr>) I what = op_ok E I what" "separate (E\<lparr>outcome := f\<rparr>) sc rid I d = separate E sc rid I d"
  "graph_ok (E\<lparr>outcome := f\<rparr>) d = graph_ok E d" "quiet (E\<lparr>outcome := f\<rparr>) = quiet E"
  by (cases what, simp_all add: separate_def own_vertex_def own_relation_def own_patch_def graph_ok_def vertex_ok_def edge_ok_def
      vertex_row_key_def relation_row_key_def patch_row_key_def projection_row_key_def keyed_def quiet_def)

theorem graph_write_all_or_nothing_witness:
  "\<exists>r s'. put_relation (sample_env\<lparr>outcome := (\<lambda>n. if n = 8 then FailsAfter (TimeoutError ''late'') else Proceeds)\<rparr>) sample_rel sample_graph = (r, s')
    \<and> (db s' = sample_projection
      \<or> g_relation (graph_of sample_env ''s'' ''r'' (db s')) ''rel#3'' = Some sample_rel)"
proof -
  let ?E = "sample_env\<lparr>outcome := (\<lambda>n. if n = 8 then FailsAfter (TimeoutError ''late'') else Proceeds)\<rparr>"
  obtain r s' where run: "perform ?E (PutRelation sample_rel) sample_graph = (r, s')" by fastforce
  have q: "quiet sample_env" using sample_calm by (simp add: calm_def)
  have op: "op_ok sample_env (set sample_ids) (PutRelation sample_rel)"
    using sample_calls_ok by (simp add: sample_calls_def)
  have i: "''rel#3'' \<in> set sample_ids" "re_id sample_rel = ''rel#3''" by (simp_all add: sample_ids_def sample_rel_def)
  have nr: "norm_relation ?E sample_rel = norm_relation sample_env sample_rel"
    by (simp add: norm_relation_def norm_val_def)
  have "g_relation (graph_of sample_env ''s'' ''r'' d) ''rel#3'' = Some sample_rel"
    if "tracks ?E ''s'' ''r'' (set sample_ids) d0 (PutRelation sample_rel) d" for d0 d
    using that i by (simp add: tracks_def same_graph_on_def nr sample_task_norm decoded_def graph_of_def)
  then show ?thesis
    using graph_write_all_or_nothing[of ?E sample_graph "set sample_ids" "PutRelation sample_rel" r s'] run q op
      sample_float_text sample_graph_ok sample_separate
    by auto
qed

section \<open>Reads write nothing\<close>

lemma stmt_keeps_selects [keeps_intros]:
  "stmt_keeps P (select_vertex b k)" "stmt_keeps P (select_vertices V limit)" "stmt_keeps P (select_relations R)"
  "stmt_keeps P (select_relation b k)" "stmt_keeps P (select_patch b k)" "stmt_keeps P (select_patches Q)"
  "stmt_keeps P (select_projection k)"
  by (auto simp: stmt_keeps_def select_vertex_def select_vertices_def select_relations_def select_relation_def
      select_patch_def select_patches_def select_projection_def reading_def split: option.splits if_splits)

lemma keeps_scans [keeps_intros]:
  "relies E P \<Longrightarrow> keeps P (query_scan E (\<lambda>scan. select_one_vertex scan V))"
  "relies E P \<Longrightarrow> keeps P (query_scan E (\<lambda>scan. select_relations_unordered scan R))"
  unfolding query_scan_def select_one_vertex_def select_relations_unordered_def
  by (rule keeps_with_self, rule keeps_query, assumption, rule stmt_keeps_reading)+

lemma keeps_walk [keeps_intros]: "relies E P \<Longrightarrow> keeps P (walk E n seen frontier rels)"
  by (induction n arbitrary: seen frontier rels) (auto simp: Let_def intro!: keeps_intros)

lemma keeps_reads:
  assumes "relies E P"
  shows "keeps P (get_object E i)" "keeps P (all_objects E)" "keeps P (get_relation E i)" "keeps P (all_relations E)"
    "keeps P (get_patch E i)" "keeps P (all_patches E)" "keeps P (query_objects E plan)" "keeps P (find_objects E ty)"
    "keeps P (find_objects_in_types E types)" "keeps P (find_relations E src tgt rty)" "keeps P (neighborhood E i depth)"
    "keeps P (projection_status E)"
  unfolding get_object_def all_objects_def get_relation_def all_relations_def get_patch_def all_patches_def
    query_objects_def find_objects_def find_objects_in_types_def find_relations_def neighborhood_def projection_status_def
    select_objects_def object_exists_def objects_by_logical_ids_def relations_by_logical_ids_def Let_def
  by (intro keeps_intros assms)+

lemma keeps_same: "keeps (\<lambda>d. d = db s) p \<Longrightarrow> db (snd (p s)) = db s"
  by (simp add: keeps_def)

text \<open>
  The reading methods never write: while no other session does, the database after any of
  them is the database before, whichever requests fail and whatever the rows hold.
\<close>

theorem graph_reads_write_nothing:
  assumes "quiet E"
  shows "db (snd (get_object E i s)) = db s \<and> db (snd (all_objects E s)) = db s
     \<and> db (snd (get_relation E i s)) = db s \<and> db (snd (all_relations E s)) = db s
     \<and> db (snd (get_patch E i s)) = db s \<and> db (snd (all_patches E s)) = db s
     \<and> db (snd (query_objects E plan s)) = db s \<and> db (snd (find_objects E ty s)) = db s
     \<and> db (snd (find_objects_in_types E types s)) = db s \<and> db (snd (find_relations E src tgt rty s)) = db s
     \<and> db (snd (neighborhood E i depth s)) = db s \<and> db (snd (projection_status E s)) = db s"
proof -
  have "relies E (\<lambda>d. d = db s)" using assms by (simp add: relies_def quiet_def)
  note reads = keeps_reads[OF this]
  show ?thesis by (intro conjI; rule keeps_same, rule reads)
qed

theorem graph_reads_write_nothing_witness:
  "db (snd (neighborhood (sample_env\<lparr>outcome := (\<lambda>n. if n = 2 then FailsAfter (TimeoutError ''late'') else Proceeds)\<rparr>)
     ''task#1'' 3 sample_graph)) = sample_projection"
proof -
  let ?E = "sample_env\<lparr>outcome := (\<lambda>n. if n = 2 then FailsAfter (TimeoutError ''late'') else Proceeds)\<rparr>"
  have "quiet ?E" using sample_calm by (simp add: calm_def)
  from graph_reads_write_nothing[OF this, where s = sample_graph and i = "''task#1''" and depth = 3
      and plan = "\<lparr>plan_type = None, plan_where = (None :: string list option), plan_result_mode = [], plan_limit = None\<rparr>"
      and ty = None and types = "[]" and src = None and tgt = None and rty = None]
  show ?thesis by simp
qed

section \<open>The invariant\<close>

text \<open>One call of a public method, with any outcome.\<close>

inductive graph_call :: "('x, 'z) env_scheme \<Rightarrow> graph_store \<Rightarrow> graph_store \<Rightarrow> bool" for E :: "('x, 'z) env_scheme" where
  writing: "perform E what s = (r, t) \<Longrightarrow> graph_call E s t"
| get_object: "get_object E i s = (r, t) \<Longrightarrow> graph_call E s t"
| all_objects: "all_objects E s = (r, t) \<Longrightarrow> graph_call E s t"
| get_relation: "get_relation E i s = (r, t) \<Longrightarrow> graph_call E s t"
| all_relations: "all_relations E s = (r, t) \<Longrightarrow> graph_call E s t"
| get_patch: "get_patch E i s = (r, t) \<Longrightarrow> graph_call E s t"
| all_patches: "all_patches E s = (r, t) \<Longrightarrow> graph_call E s t"
| query_objects: "query_objects E (plan :: string object_query) s = (r, t) \<Longrightarrow> graph_call E s t"
| find_objects: "find_objects E ty s = (r, t) \<Longrightarrow> graph_call E s t"
| find_objects_in_types: "find_objects_in_types E types s = (r, t) \<Longrightarrow> graph_call E s t"
| find_relations: "find_relations E src tgt rty s = (r, t) \<Longrightarrow> graph_call E s t"
| neighborhood: "neighborhood E i depth s = (r, t) \<Longrightarrow> graph_call E s t"
| projection_status: "projection_status E s = (r, t) \<Longrightarrow> graph_call E s t"
| clear: "gs_clear E s = (r, t) \<Longrightarrow> graph_call E s t"
| begin_rebuild: "begin_rebuild E s = (r, t) \<Longrightarrow> graph_call E s t"
| mark_ready: "mark_ready E s = (r, t) \<Longrightarrow> graph_call E s t"
| mark_failed: "mark_failed E why s = (r, t) \<Longrightarrow> graph_call E s t"
| close: "gs_close E s = (r, t) \<Longrightarrow> graph_call E s t"

inductive_cases graph_callE: "graph_call E s t"

lemma keeps_lifecycle:
  assumes rely: "graph_rely E" and fr: "float_text_ok (float_text E)"
  shows "keeps (graph_ok E) (begin_rebuild E)" "keeps (graph_ok E) (mark_ready E)" "keeps (graph_ok E) (mark_failed E why)"
    "keeps (graph_ok E) (gs_close E)"
proof -
  note keeps = keeps_operations[OF rely fr] graph_rely_relies[OF rely]
  show "keeps (graph_ok E) (begin_rebuild E)" "keeps (graph_ok E) (mark_ready E)" "keeps (graph_ok E) (mark_failed E why)"
    "keeps (graph_ok E) (gs_close E)"
    unfolding begin_rebuild_def mark_ready_def mark_failed_def gs_close_def
    by (intro keeps_intros keeps; simp)+
qed

lemma graph_call_keeps:
  assumes rely: "graph_rely E" and fr: "float_text_ok (float_text E)" and ok: "graph_ok E (db s)" and call: "graph_call E s t"
  shows "graph_ok E (db t)"
proof -
  have writes: "keeps (graph_ok E) (perform E what)" for what
    by (cases what) (simp_all add: keeps_operations[OF rely fr] put_relation_keeps[OF rely fr])
  note reads = keeps_reads[OF graph_rely_relies[OF rely]]
  from call show ?thesis
    by cases (rule keeps_into[where P = "graph_ok E" and s = s, OF _ _ ok], rule writes reads keeps_operations[OF rely fr] keeps_lifecycle[OF rely fr], assumption)+
qed



section \<open>A closed handle\<close>

text \<open>The call raises \<open>ClosedStoreError\<close> and sends nothing.\<close>

definition says_closed :: "('s graph_store_scheme, exn, 'a) prog \<Rightarrow> 's graph_store_scheme \<Rightarrow> bool" where
  "says_closed p s \<longleftrightarrow> p s = (Inl (ClosedStoreError ''the SurrealGraphStore is closed''), s)"

lemma says_closed_guards: "gs_closed s \<Longrightarrow> says_closed gs_ensure_open s" "gs_closed s \<Longrightarrow> says_closed (assert_readable E) s"
  by (simp_all add: says_closed_def assert_readable_def gs_ensure_open_def bnd_def)

lemma says_closed_bnd: "says_closed p s \<Longrightarrow> says_closed (bnd p f) s"
  by (simp add: says_closed_def bnd_def)



end
