(* ===== verification/Replay.thy ===== *)
theory Replay
  imports Runtime Lifecycle
begin

text \<open>
  Replaying a log into a projection: the undisturbed run, which makes the projection the graph of the
  log, and what is left behind when any request fails.
\<close>

section \<open>Undisturbed\<close>

text \<open>
  What the provider relies on of ActiveGraph's \<open>Graph\<close>: replaying an event makes calls on the graph
  store, in an order that depends on the event only, and nothing else.
\<close>

definition replays_with ::
  "('x, 'z) env_scheme \<Rightarrow> ('x, 'g) graph_api \<Rightarrow> ('x event \<Rightarrow> 'x graph_op list)
    \<Rightarrow> (string \<Rightarrow> 'g) \<Rightarrow> ('g \<Rightarrow> 'x event \<Rightarrow> 'g) \<Rightarrow> ('g \<Rightarrow> 'x event list \<Rightarrow> 'g) \<Rightarrow> bool" where
  "replays_with E api calls init step seeded \<longleftrightarrow>
     (\<forall>rid. new_graph api rid = ret (init rid))
     \<and> (\<forall>g ev. replay_event api g ev = bnd (for_each (perform E) (calls ev)) (\<lambda>_. ret (step g ev)))
     \<and> (\<forall>g evs. reseed_ids api g evs = ret (seeded g evs))"

lemma wp_iter_events_calm:
  assumes c: "calm E" and att: "attached E s"
    and evs: "traverse (record_to_event E) (run_events (es_scope s) (es_run s) (db s)) = Inr evs"
  shows "wp (iter_events E None None) Q R s = Q evs (s\<lparr>tick := tick s + 2\<rparr>)"
proof -
  have o: "\<not> es_closed s" "\<not> link_closed s" "session_open s" using att by (simp_all add: attached_def)
  obtain run where run: "map_of (ag_run (db s)) (run_key E (es_scope s) (es_run s)) = Some run"
    "run_in_scope (es_scope s) (es_run s) run"
    "next_seq run = int (length (run_events (es_scope s) (es_run s) (db s)))"
    "verify_rows E (es_scope s) (es_run s) 0 None (run_events (es_scope s) (es_run s) (db s)) = Inr (head_hash run)"
    using attachedE[OF att] by metis
  have "filter (between None None) xs = xs" for xs by (simp add: between_def)
  then show ?thesis
    by (simp add: iter_events_def wp_bnd wp_with_self wp_lift wp_verified_calm[OF c o run] boundary_seq_def evs)
qed

lemma attached_frame:
  assumes "attached E s" and "ag_run d = ag_run (db s)" "ag_event d = ag_event (db s)"
  shows "attached E (s\<lparr>db := d, tick := n\<rparr>)"
proof -
  have "run_events sc rid d = run_events sc rid (db s)" for sc rid using assms(3) by (simp add: run_events_def)
  moreover have "tables_ok E d = tables_ok E (db s)" using assms(2,3) by (simp add: tables_ok_def)
  moreover from calculation(1) have "intact E sc rid d = intact E sc rid (db s)" for sc rid
    using assms(2) by (cases "map_of (ag_run (db s)) (run_key E sc rid)") (simp_all add: intact_def)
  ultimately show ?thesis
    using assms by (simp add: attached_def)
qed

definition replayable :: "('x, 'z) env_scheme \<Rightarrow> string set \<Rightarrow> 's workspace_scheme \<Rightarrow> bool" where
  "replayable E I w \<longleftrightarrow>
     attached E (events_now w) \<and> gs_open (graph_now w) \<and> graph_ok E (db w)
     \<and> separate E (gs_scope (graph_obj w)) (gs_run (graph_obj w)) I (db w)
     \<and> es_run (events_obj w) = gs_run (graph_obj w) \<and> es_scope (events_obj w) = gs_scope (graph_obj w)"

text \<open>
  A replay under way: the projection is this store's to read, and stands for the graph \<open>h\<close>; the log
  is the one the replay began with.
\<close>

definition replaying ::
  "('x, 'z) env_scheme \<Rightarrow> string set \<Rightarrow> string \<Rightarrow> string \<Rightarrow> event_store \<Rightarrow> tables \<Rightarrow> 'x graph \<Rightarrow> 's workspace_scheme \<Rightarrow> bool" where
  "replaying E I sc rid es d0 h u \<longleftrightarrow>
     served E (graph_now u) \<and> gs_scope (graph_obj u) = sc \<and> gs_run (graph_obj u) = rid
     \<and> graph_ok E (db u) \<and> separate E sc rid I (db u) \<and> same_graph_on I (graph_of E sc rid (db u)) h
     \<and> ag_run (db u) = ag_run d0 \<and> ag_event (db u) = ag_event d0 \<and> events_obj u = es"

lemma served_frame:
  "ag_projection d = ag_projection (db s) \<Longrightarrow> served E (s\<lparr>tick := n, db := d, transaction := y\<rparr>) = served E s"
  by (simp add: served_def gs_open_def has_status_def)

lemma replaying_calls:
  assumes c: "calm E" and fr: "float_text_ok (float_text E)" and u: "replaying E I sc rid es d0 h u"
    and ok: "list_all (op_ok E I) calls"
  shows "\<exists>v. on_graph (bnd (for_each (perform E) calls) (\<lambda>_. ret x)) u = (Inr x, v)
    \<and> replaying E I sc rid es d0 (fold (apply_op E) calls h) v"
proof -
  let ?g = "graph_now u"
  have names: "gs_scope ?g = sc" "gs_run ?g = rid" using u by (simp_all add: replaying_def)
  have "served E ?g" "graph_ok E (db ?g)" "separate E (gs_scope ?g) (gs_run ?g) I (db ?g)"
    "same_graph_on I (graph_of E (gs_scope ?g) (gs_run ?g) (db ?g)) h"
    using u by (simp_all add: replaying_def)
  from perform_all_tracks[OF c fr this(1-3) ok this(4)]
  obtain n y d' where run: "for_each (perform E) calls ?g = (Inr (), ?g\<lparr>tick := n, db := d', transaction := y\<rparr>)"
    and d': "graph_ok E d'" "separate E sc rid I d'" "only_ids E sc rid I (db ?g) d'"
      "same_graph_on I (graph_of E sc rid d') (fold (apply_op E) calls h)"
    unfolding names by blast
  let ?g' = "?g\<lparr>tick := n, db := d', transaction := y\<rparr>"
  have "on_graph (bnd (for_each (perform E) calls) (\<lambda>_. ret x)) u = (Inr x, with_graph ?g' u)"
    by (simp add: on_graph_def bnd_def run ret_def)
  moreover have "served E ?g' = served E ?g"
    by (rule served_frame) (use d'(3) in \<open>simp add: only_ids_def\<close>)
  then have "served E ?g'" using u unfolding replaying_def by blast
  then have "replaying E I sc rid es d0 (fold (apply_op E) calls h) (with_graph ?g' u)"
    using u d' by (simp add: replaying_def only_ids_def)
  ultimately show ?thesis by blast
qed

lemma replaying_events:
  assumes c: "calm E" and fr: "float_text_ok (float_text E)" and api: "replays_with E api calls init step seeded"
  shows "\<lbrakk>replaying E I sc rid es d0 h u; list_all (op_ok E I) (concat (map calls evs))\<rbrakk> \<Longrightarrow>
    \<exists>v. replay_events api g evs u = (Inr (foldl step g evs), v)
      \<and> replaying E I sc rid es d0 (fold (apply_op E) (concat (map calls evs)) h) v"
proof (induction evs arbitrary: u g h)
  case Nil
  then show ?case by (simp add: ret_def)
next
  case (Cons ev evs)
  then have ok: "list_all (op_ok E I) (calls ev)" "list_all (op_ok E I) (concat (map calls evs))"
    by (simp_all add: list_all_iff)
  have ev: "replay_event api g ev = bnd (for_each (perform E) (calls ev)) (\<lambda>_. ret (step g ev))"
    using api by (simp add: replays_with_def)
  from replaying_calls[OF c fr Cons.prems(1) ok(1), of "step g ev"]
  obtain v where "on_graph (bnd (for_each (perform E) (calls ev)) (\<lambda>_. ret (step g ev))) u = (Inr (step g ev), v)
    \<and> replaying E I sc rid es d0 (fold (apply_op E) (calls ev) h) v"
    by (rule exE)
  then have v: "on_graph (replay_event api g ev) u = (Inr (step g ev), v)"
    "replaying E I sc rid es d0 (fold (apply_op E) (calls ev) h) v"
    unfolding ev by (rule conjunct1, rule conjunct2)
  from Cons.IH[OF v(2) ok(2), of "step g ev"]
  obtain v' where v': "replay_events api (step g ev) evs v = (Inr (foldl step (step g ev) evs), v')
    \<and> replaying E I sc rid es d0 (fold (apply_op E) (concat (map calls evs)) (fold (apply_op E) (calls ev) h)) v'"
    by (rule exE)
  have "replay_events api g (ev # evs) u = (Inr (foldl step g (ev # evs)), v')"
    using v(1) v' by (simp add: bnd_def)
  moreover have "fold (apply_op E) (concat (map calls (ev # evs))) h = fold (apply_op E) (concat (map calls evs)) (fold (apply_op E) (calls ev) h)"
    by simp
  ultimately show ?case using v' by (intro exI[of _ v']) simp
qed

lemma replay_begun:
  assumes c: "calm E" and w: "replayable E I w" and names: "gs_scope (graph_obj w) = sc" "gs_run (graph_obj w) = rid"
    and evs: "traverse (record_to_event E) (run_events sc rid (db w)) = Inr evs"
  shows "\<exists>w1 w2 es. on_graph (begin_rebuild E) w = (Inr (), w1) \<and> on_events (iter_events E None None) w1 = (Inr evs, w2)
    \<and> replaying E I sc rid es (db w) empty_graph w2"
proof -
  let ?g = "graph_now w"
  have g: "gs_open ?g" "graph_ok E (db w)" "separate E sc rid I (db w)" "attached E (events_now w)"
    and en: "es_run (events_obj w) = rid" "es_scope (events_obj w) = sc"
    using w names by (simp_all add: replayable_def)
  have k: "keyed (projection_row_key E) (ag_projection (db ?g))" using g(2) by (simp add: graph_ok_def)
  let ?d1 = "cleared sc rid (with_status E sc rid ''rebuilding'' None (clock E (tick w)) (db w))"
  let ?g1 = "?g\<lparr>rebuilding_here := True, tick := tick w + 4, db := ?d1\<rparr>"
  let ?w1 = "with_graph ?g1 w"
  have begun: "on_graph (begin_rebuild E) w = (Inr (), ?w1)"
    using wp_runs[OF wp_begin_rebuild_calm[OF c g(1) k]] by (simp add: on_graph_def names)
  have "attached E ((events_now w)\<lparr>db := ?d1, tick := tick w + 4\<rparr>)"
    by (rule attached_frame[OF g(4)]) simp_all
  then have att: "attached E (events_now ?w1)" by (simp add: events_now_def)
  have "run_events sc rid ?d1 = run_events sc rid (db w)" by (simp add: run_events_def)
  then have "traverse (record_to_event E) (run_events (es_scope (events_now ?w1)) (es_run (events_now ?w1)) (db (events_now ?w1))) = Inr evs"
    using evs en by simp
  from wp_runs[OF wp_iter_events_calm[OF c att this]]
  have read: "on_events (iter_events E None None) ?w1 = (Inr evs, with_events ((events_now ?w1)\<lparr>tick := tick (events_now ?w1) + 2\<rparr>) ?w1)"
    by (simp only: on_events_def prod.case)
  have "separate E sc rid I (with_status E sc rid ''rebuilding'' None (clock E (tick w)) (db w))"
    using g(3) by (simp add: separate_def own_vertex_def own_relation_def own_patch_def)
  note empty = cleared_empty[OF graph_ok_with_status[OF g(2)] this]
  have "replaying E I sc rid (events_obj (with_events ((events_now ?w1)\<lparr>tick := tick (events_now ?w1) + 2\<rparr>) ?w1)) (db w) empty_graph
      (with_events ((events_now ?w1)\<lparr>tick := tick (events_now ?w1) + 2\<rparr>) ?w1)"
    using g(1) empty graph_ok_cleared[OF graph_ok_with_status[OF g(2)]] names
    by (simp add: replaying_def served_def) (simp add: graph_now_def gs_open_def)
  with begun read show ?thesis by blast
qed

lemma replay_readied:
  assumes c: "calm E" and v: "replaying E I sc rid es d0 h v"
  shows "\<exists>w'. on_graph (mark_ready E) v = (Inr (), w') \<and> has_status E sc rid (db w') ''ready''
    \<and> served E (graph_now w') \<and> graph_ok E (db w') \<and> same_graph_on I (graph_of E sc rid (db w')) h
    \<and> ag_run (db w') = ag_run d0 \<and> ag_event (db w') = ag_event d0"
proof -
  have vs: "served E (graph_now v)" "graph_ok E (db v)" "gs_scope (graph_obj v) = sc" "gs_run (graph_obj v) = rid"
    "same_graph_on I (graph_of E sc rid (db v)) h" "ag_run (db v) = ag_run d0" "ag_event (db v) = ag_event d0"
    using v by (simp_all only: replaying_def)
  have k: "keyed (projection_row_key E) (ag_projection (db (graph_now v)))" using vs(2) by (simp add: graph_ok_def)
  let ?g = "(graph_now v)\<lparr>tick := tick v + 1, db := with_status E sc rid ''ready'' None (clock E (tick v)) (db v), rebuilding_here := False\<rparr>"
  have "on_graph (mark_ready E) v = (Inr (), with_graph ?g v)"
    using wp_runs[OF wp_marks_calm(1)[OF c served_open[OF vs(1)] k]] by (simp add: on_graph_def vs(3,4))
  moreover have "served E ?g" using served_open[OF vs(1)] by (simp add: served_def gs_open_def vs(3,4))
  moreover have "graph_of E sc rid (with_status E sc rid ''ready'' None at (db v)) = graph_of E sc rid (db v)" for at
    by (simp add: graph_of_def)
  ultimately show ?thesis
    using vs(5-7) graph_ok_with_status[OF vs(2)] by (intro exI[of _ "with_graph ?g v"]) simp
qed

lemma replaying_idle: "replaying E I sc rid es d0 h (with_graph (graph_now u) u) = replaying E I sc rid es d0 h u"
  by (simp add: replaying_def)

lemma replay_calm:
  assumes c: "calm E" and fr: "float_text_ok (float_text E)" and api: "replays_with E api calls init step seeded"
    and w: "replayable E I w" and names: "gs_scope (graph_obj w) = sc" "gs_run (graph_obj w) = rid"
    and evs: "traverse (record_to_event E) (run_events sc rid (db w)) = Inr evs"
    and plain: "\<not> compacted evs" and ok: "list_all (op_ok E I) (concat (map calls evs))"
  shows "\<exists>w'. replay_graph E api w = (Inr (seeded (foldl step (init rid) evs) evs), w')
    \<and> has_status E sc rid (db w') ''ready'' \<and> served E (graph_now w') \<and> graph_ok E (db w')
    \<and> same_graph_on I (graph_of E sc rid (db w')) (fold (apply_op E) (concat (map calls evs)) empty_graph)
    \<and> ag_run (db w') = ag_run (db w) \<and> ag_event (db w') = ag_event (db w)"
proof -
  obtain w1 w2 es where begun: "on_graph (begin_rebuild E) w = (Inr (), w1)"
    "on_events (iter_events E None None) w1 = (Inr evs, w2)" and w2: "replaying E I sc rid es (db w) empty_graph w2"
    using replay_begun[OF c w names evs] by blast
  let ?w3 = "with_graph (graph_now w2) w2"
  have "replaying E I sc rid es (db w) empty_graph ?w3" using w2 by (simp only: replaying_idle)
  from replaying_events[OF c fr api this ok, of "init rid"]
  obtain v where all: "replay_events api (init rid) evs ?w3 = (Inr (foldl step (init rid) evs), v)"
    and v: "replaying E I sc rid es (db w) (fold (apply_op E) (concat (map calls evs)) empty_graph) v" by blast
  let ?v = "with_graph (graph_now v) v"
  have "replaying E I sc rid es (db w) (fold (apply_op E) (concat (map calls evs)) empty_graph) ?v"
    using v by (simp only: replaying_idle)
  from replay_readied[OF c this]
  obtain w' where ready: "on_graph (mark_ready E) ?v = (Inr (), w')"
    and w': "has_status E sc rid (db w') ''ready'' \<and> served E (graph_now w') \<and> graph_ok E (db w')
      \<and> same_graph_on I (graph_of E sc rid (db w')) (fold (apply_op E) (concat (map calls evs)) empty_graph)
      \<and> ag_run (db w') = ag_run (db w) \<and> ag_event (db w') = ag_event (db w)" by blast
  have en: "es_run (events_obj w) = rid" "es_scope (events_obj w) = sc"
    using w names by (simp_all add: replayable_def)
  have "new_graph api rid = ret (init rid)" "reseed_ids api g evs = ret (seeded g evs)" for g
    using api by (simp_all add: replays_with_def)
  then have made: "on_graph (new_graph api rid) w2 = (Inr (init rid), ?w3)"
    and seeded: "on_graph (reseed_ids api g evs) v = (Inr (seeded g evs), ?v)" for g
    by (simp_all add: on_graph_def ret_def)
  have "replay_body E api w = (Inr (seeded (foldl step (init rid) evs) evs), w')"
    using plain by (simp add: replay_body_def with_self_def bnd_def begun en made all seeded ready) (simp add: ret_def)
  then have "replay_graph E api w = (Inr (seeded (foldl step (init rid) evs) evs), w')"
    using en names by (simp add: replay_graph_def with_self_def try_except_def)
  with w' show ?thesis by blast
qed

end
