(* ===== verification/Separation.thy ===== *)
theory Separation
  imports LogSafety GraphFaults Replay
begin

text \<open>
  The two stores share one database and write different tables of it. The locale \<open>table_part\<close> is what a
  group of tables promises about transactions; programs whose statements stay off a group keep every
  property of it, transactions included. It is interpreted for the tables of the log and for those of the
  projection, and each store's methods are shown to stay off the other's.
\<close>

section \<open>A part of the tables\<close>

text \<open>\<open>view\<close>: what a group of tables holds. \<open>clear\<close>: a set of written keys has none of the group.\<close>

definition stays_off :: "(tables \<Rightarrow> 'v) \<Rightarrow> (touched \<Rightarrow> bool) \<Rightarrow> 'a stmt \<Rightarrow> bool" where
  "stays_off view clear f \<longleftrightarrow> (\<forall>e d x d' w. f e d = Done x d' w \<longrightarrow> view d' = view d \<and> clear w)"

definition seen_by :: "(tables \<Rightarrow> 'v) \<Rightarrow> (tables \<Rightarrow> bool) \<Rightarrow> bool" where
  "seen_by view P \<longleftrightarrow> (\<forall>d d'. view d = view d' \<longrightarrow> P d = P d')"

definition clear_txn :: "(touched \<Rightarrow> bool) \<Rightarrow> 's link_scheme \<Rightarrow> bool" where
  "clear_txn clear s \<longleftrightarrow> (case transaction s of None \<Rightarrow> True | Some t \<Rightarrow> clear (written t))"

text \<open>The program keeps \<open>P\<close>, and the open transaction, if there is one, clear of the group.\<close>

definition spares :: "(touched \<Rightarrow> bool) \<Rightarrow> (tables \<Rightarrow> bool) \<Rightarrow> ('s link_scheme, 'e, 'a) prog \<Rightarrow> bool" where
  "spares clear P p \<longleftrightarrow> (\<forall>s. clear_txn clear s \<and> P (db s) \<longrightarrow> clear_txn clear (snd (p s)) \<and> P (db (snd (p s))))"

named_theorems spares_intros "programs that stay off a group of tables"

lemma seen_byD: "\<lbrakk>seen_by view P; view d = view d'\<rbrakk> \<Longrightarrow> P d = P d'"
  unfolding seen_by_def by blast

lemma clear_txn_update [simp]:
  "clear_txn clear (s\<lparr>db := d\<rparr>) = clear_txn clear s" "clear_txn clear (s\<lparr>tick := n\<rparr>) = clear_txn clear s"
  "clear_txn clear (s\<lparr>transaction := None\<rparr>)" "clear_txn clear (arrived E s) = clear_txn clear s"
  "clear_txn clear (s\<lparr>transaction := Some t\<rparr>) = clear (written t)"
  by (simp_all add: clear_txn_def arrived_def)

lemma sparesI:
  "(\<And>s. \<lbrakk>clear_txn clear s; P (db s)\<rbrakk> \<Longrightarrow>
     wp p (\<lambda>_ t. clear_txn clear t \<and> P (db t)) (\<lambda>_ t. clear_txn clear t \<and> P (db t)) s) \<Longrightarrow> spares clear P p"
  by (simp add: spares_def wp_any)

lemma spares_wp:
  "\<lbrakk>spares clear P p; clear_txn clear s; P (db s)\<rbrakk> \<Longrightarrow>
   wp p (\<lambda>_ t. clear_txn clear t \<and> P (db t)) (\<lambda>_ t. clear_txn clear t \<and> P (db t)) s"
  by (simp add: spares_def wp_any)

lemma spares_basic [spares_intros]:
  "spares clear P (ret x)" "spares clear P (throw e)" "spares clear P (lift r)" "spares clear P (get_state f)"
  "spares clear P need_session" "spares clear P (now E)"
  by (rule sparesI, simp add: wp_rules split: sum.split)+

lemma spares_bnd [spares_intros]: "\<lbrakk>spares clear P p; \<And>x. spares clear P (f x)\<rbrakk> \<Longrightarrow> spares clear P (bnd p f)"
  by (rule sparesI) (auto simp: wp_rules intro!: wp_conseq[OF spares_wp] spares_wp)

lemma spares_try_except [spares_intros]:
  "\<lbrakk>spares clear P p; \<And>e. spares clear P (h e)\<rbrakk> \<Longrightarrow> spares clear P (try_except p h)"
  by (rule sparesI) (auto simp: wp_rules intro!: wp_conseq[OF spares_wp] spares_wp)

lemma spares_control [spares_intros]:
  "(\<And>t. spares clear P (p t)) \<Longrightarrow> spares clear P (with_self p)"
  "\<lbrakk>b \<Longrightarrow> spares clear P q; \<not> b \<Longrightarrow> spares clear P r\<rbrakk> \<Longrightarrow> spares clear P (if b then q else r)"
  "\<lbrakk>spares clear P q; \<And>x. spares clear P (f x)\<rbrakk> \<Longrightarrow> spares clear P (case z of None \<Rightarrow> q | Some x \<Rightarrow> f x)"
  "(\<And>a b. spares clear P (g a b)) \<Longrightarrow> spares clear P (case y of (a, b) \<Rightarrow> g a b)"
  by (auto simp: spares_def with_self_def split: option.split prod.split)

lemma spares_modify [spares_intros]:
  "(\<And>s. db (f s) = db s) \<Longrightarrow> (\<And>s. transaction (f s) = transaction s) \<Longrightarrow> spares clear P (modify f)"
  by (simp add: spares_def modify_def clear_txn_def)

lemma spares_for_each [spares_intros]: "(\<And>x. spares clear P (f x)) \<Longrightarrow> spares clear P (for_each f xs)"
  by (induction xs) (auto intro!: spares_intros)

lemma spares_keeps: "\<lbrakk>keeps P p; \<And>s. transaction (snd (p s)) = transaction s\<rbrakk> \<Longrightarrow> spares clear P p"
  by (simp add: spares_def keeps_def clear_txn_def)

locale table_part =
  fixes view :: "tables \<Rightarrow> 'v" and clear :: "touched \<Rightarrow> bool"
  assumes view_install: "clear (written t) \<Longrightarrow> view (install t d) = view d"
    and view_schema: "view (d\<lparr>defined := x, ag_schema := y\<rparr>) = view d"
    and clear_nothing: "clear nothing"
    and clear_also: "\<lbrakk>clear a; clear b\<rbrakk> \<Longrightarrow> clear (also_written a b)"
begin

lemma off_reading [spares_intros]: "stays_off view clear (reading f)"
  by (simp add: stays_off_def reading_def clear_nothing)

lemma off_keeps: "\<lbrakk>seen_by view P; stays_off view clear f\<rbrakk> \<Longrightarrow> stmt_keeps P f"
  unfolding stmt_keeps_def stays_off_def using seen_byD by metis

lemma seen_of_data: "seen_by view P \<Longrightarrow> of_data P"
  unfolding of_data_def using seen_byD view_schema by metis

lemma spares_request [spares_intros]:
  assumes "relies E P" and "seen_by view P" and "stays_off view clear f"
  shows "spares clear P (request E f)"
  using off_keeps[OF assms(2,3)] assms(1)
  by (intro sparesI) (force simp: wp_request relies_def stmt_keeps_def arrived_def split: call_outcome.split step.split)

lemma spares_query [spares_intros]:
  "\<lbrakk>relies E P; seen_by view P; stays_off view clear f\<rbrakk> \<Longrightarrow> spares clear P (query E f)"
  unfolding query_def by (intro spares_intros spares_request)

lemma spares_txn_request [spares_intros]:
  assumes "relies E P" and "stays_off view clear f"
  shows "spares clear P (txn_request E f)"
  using assms clear_also
  by (intro sparesI) (auto simp: wp_txn_request relies_def arrived_def stays_off_def clear_txn_def
      split: option.splits call_outcome.split step.split)

lemma spares_commit [spares_intros]:
  assumes "relies E P" and "seen_by view P"
  shows "spares clear P (commit E)"
proof (rule sparesI)
  fix s :: "'s link_scheme"
  assume s: "clear_txn clear s" "P (db s)"
  then have o: "P (others E (tick s) (db s))" using assms(1) by (simp add: relies_def)
  have "P (install t (others E (tick s) (db s)))" if "transaction s = Some t" for t
    using o s(1) that view_install seen_byD[OF assms(2)] by (metis clear_txn_def option.simps(5))
  with s o show "wp (commit E) (\<lambda>_ t. clear_txn clear t \<and> P (db t)) (\<lambda>_ t. clear_txn clear t \<and> P (db t)) s"
    by (auto simp: wp_commit arrived_def clear_txn_def split: option.splits call_outcome.split)
qed

lemma spares_cancel_safely [spares_intros]:
  assumes "relies E P" and "seen_by view P"
  shows "spares clear P (cancel_safely E)"
  using assms
  by (intro sparesI) (auto simp: wp_rules ping_def wp_request reading_def relies_def arrived_def clear_txn_def
      split: call_outcome.split step.split)

text \<open>A method that begins its own transaction and stays off the group in it.\<close>

lemma keeps_transaction:
  fixes f :: "unit \<Rightarrow> ('s link_scheme, exn, 'a) prog"
  assumes r: "relies E P" and p: "\<And>x. spares clear P (f x)"
  shows "keeps P (bnd (begin_transaction E) f)"
proof (rule keepsI)
  fix s :: "'s link_scheme"
  assume "P (db s)"
  then have o: "P (others E n (db s))" for n using r by (simp add: relies_def)
  have "wp (f ()) (\<lambda>_ t. P (db t)) (\<lambda>_ t. P (db t)) u" if "clear_txn clear u" "P (db u)" for u
    by (rule wp_conseq[OF spares_wp[OF p that]]) auto
  then show "wp (bnd (begin_transaction E) f) (\<lambda>_ t. P (db t)) (\<lambda>_ t. P (db t)) s"
    using o \<open>P (db s)\<close>
    by (simp add: wp_rules wp_request reading_def arrived_def clear_nothing split: call_outcome.split)
qed

end

section \<open>The tables of the log and those of the projection\<close>

definition log_part :: "tables \<Rightarrow> run_row table \<times> event_row table" where
  "log_part d = (ag_run d, ag_event d)"

definition off_log :: "touched \<Rightarrow> bool" where
  "off_log w \<longleftrightarrow> t_run w = [] \<and> t_event w = []"

definition graph_part :: "tables \<Rightarrow> vertex_row table \<times> relation_row table \<times> patch_row table \<times> projection_row table" where
  "graph_part d = (ag_vertex d, ag_relation d, ag_patch d, ag_projection d)"

definition off_graph :: "touched \<Rightarrow> bool" where
  "off_graph w \<longleftrightarrow> t_vertex w = [] \<and> t_relation w = []"

lemma install_none [simp]: "install_table [] w c = c"
  by (simp add: install_table_def)

interpretation logs: table_part log_part off_log
  by unfold_locales (simp_all add: log_part_def off_log_def install_def nothing_def also_written_def)

interpretation graphs: table_part graph_part off_graph
  by unfold_locales (simp_all add: graph_part_def off_graph_def install_def nothing_def also_written_def)

text \<open>Each invariant is one of its part.\<close>

lemma logs_ok_seen: "seen_by log_part (logs_ok E)"
  unfolding seen_by_def log_part_def using logs_ok_cong by (metis prod.inject)

lemma graph_ok_seen: "seen_by graph_part (graph_ok E)"
  by (auto simp: seen_by_def graph_part_def graph_ok_def)


section \<open>The event store stays off the projection\<close>

lemma log_statements_off_graph [spares_intros]:
  "stays_off graph_part off_graph (select_run k)" "stays_off graph_part off_graph (create_run k r)"
  "stays_off graph_part off_graph (merge_run k g)" "stays_off graph_part off_graph (update_only_run k g)"
  "stays_off graph_part off_graph (select_event k)" "stays_off graph_part off_graph (create_event k e)"
  "stays_off graph_part off_graph (delete_events_after sc rid n)"
  "stays_off graph_part off_graph (select_run_events sc rid)" "stays_off graph_part off_graph (count_run_events sc rid)"
  "stays_off graph_part off_graph (select_schema_version)" "stays_off graph_part off_graph (select_runs order Q)"
  "stays_off graph_part off_graph (select_events_per_run sc)" "stays_off graph_part off_graph (select_run_ids sc rid)"
  "stays_off graph_part off_graph (select_event_ids sc rid)"
  by (auto simp: stays_off_def graph_part_def off_graph_def nothing_def reading_def Let_def select_run_def create_run_def
      merge_run_def update_only_run_def select_event_def create_event_def delete_events_after_def select_run_events_def
      count_run_events_def select_schema_version_def select_runs_def select_events_per_run_def select_run_ids_def
      select_event_ids_def split: if_splits option.splits)

lemma spares_log_guards [spares_intros]:
  "spares clear P es_ensure_open" "spares clear P (assert_expected_head row)" "spares clear P (hook h)"
  by (simp_all add: spares_def es_ensure_open_def assert_expected_head_def hook_def ret_def lift_def bnd_def need_session_def
      link_ensure_open_def split: option.split)

lemma spares_log_reads [spares_intros]:
  assumes "relies E P" and "seen_by graph_part P"
  shows "spares off_graph P (transaction_run_row E)" "spares off_graph P (read_run_row E)"
    "spares off_graph P (raise_if_concurrent E e)" "spares off_graph P (destination_exists E rid)"
    "spares off_graph P (rethrow_write_error E c e)" "spares off_graph P (fork_failed E rid e)"
  unfolding transaction_run_row_def read_run_row_def raise_if_concurrent_def destination_exists_def
    rethrow_write_error_def fork_failed_def
  by (intro spares_intros assms)+

lemma keeps_log_transactions:
  assumes r: "relies E P" and v: "seen_by graph_part P"
  shows "keeps P (append_event E ev)" "keeps P (truncate_after E i)"
proof -
  have opened: "keeps P es_ensure_open" by (rule keeps_pure) (simp add: es_ensure_open_def)
  have "spares off_graph P (append_in_transaction E ev f)" for f
    unfolding append_in_transaction_def by (intro spares_intros r v)
  then show "keeps P (append_event E ev)"
    unfolding append_event_def
    by (intro keeps_bnd[OF keeps_basic(3)] keeps_bnd[OF opened] graphs.keeps_transaction spares_bnd[OF spares_try_except]
        spares_log_reads spares_control spares_modify r v) simp_all
  have "spares off_graph P (truncate_in_transaction E i)"
    unfolding truncate_in_transaction_def by (intro spares_intros r v)
  then show "keeps P (truncate_after E i)"
    unfolding truncate_after_def
    by (intro keeps_bnd[OF opened] graphs.keeps_transaction spares_bnd[OF spares_try_except]
        spares_log_reads spares_control spares_modify r v) simp_all
qed

lemma keeps_log_openings:
  assumes r: "relies E P" and v: "seen_by graph_part P"
  shows "keeps P (new_event_store E c rid sc)" "keeps P (upsert_run E a b l d g f)"
proof -
  note statements = graphs.off_keeps[OF v, OF log_statements_off_graph(2)] graphs.off_keeps[OF v, OF log_statements_off_graph(4)]
  have "keeps P (ensure_run E)"
    unfolding ensure_run_def by (intro keeps_intros keeps_readonly[OF r] readonly_read_run_row r statements)
  then have init: "keeps P (event_store_init E)"
    unfolding event_store_init_def
    by (intro keeps_intros keeps_ensure_schema r graphs.seen_of_data[OF v] keeps_readonly[OF r readonly_verify_integrity]) simp_all
  show "keeps P (new_event_store E c rid sc)"
    unfolding new_event_store_def by (rule keeps_making[OF init]) (simp add: fresh_event_store_def)
  show "keeps P (upsert_run E a b l d g f)"
    unfolding upsert_run_def Let_def
    by (intro keeps_intros keeps_readonly[OF r] readonly_intros r statements)
qed

lemma making_transaction: "transaction (snd (making fresh p s)) = transaction s"
  by (simp add: making_def split: prod.split sum.split)

lemma keeps_log_fork:
  assumes r: "relies E P" and v: "seen_by graph_part P"
  shows "keeps P (fork_event_store E new_rid at lbl)"
proof -
  have opened: "keeps P es_ensure_open" "keeps P (assert_expected_head row)" for row
    by (rule keeps_pure, simp add: es_ensure_open_def assert_expected_head_def)+
  have child: "spares off_graph P (new_event_store E c new_rid sc)" for c sc
    by (rule spares_keeps[OF keeps_log_openings(1)[OF r v]]) (simp add: new_event_store_def making_transaction)
  have body: "spares off_graph P (fork_in_transaction E new_rid at lbl created rws parent krs h)" for created rws parent krs h
    unfolding fork_in_transaction_def by (intro spares_intros r v)
  show ?thesis
    unfolding fork_event_store_def fork_prefix_def
    by (intro keeps_intros opened keeps_readonly[OF r] readonly_intros r body child spares_intros v graphs.keeps_transaction)
qed

text \<open>So every call of the event store leaves each property of the projection's tables as it is.\<close>

lemma log_call_spares:
  assumes r: "relies E P" and v: "seen_by graph_part P" and call: "log_call E d d'" and ok: "P d"
  shows "P d'"
  by (rule log_call_rule[where P = P, OF r graphs.seen_of_data[OF v] keeps_log_transactions[OF r v] keeps_log_fork[OF r v]
        keeps_log_openings(2,1)[OF r v] call ok])

section \<open>The graph store stays off the logs\<close>

lemma graph_statements_off_log [spares_intros]:
  "stays_off log_part off_log (select_vertex b k)" "stays_off log_part off_log (create_vertex k v)"
  "stays_off log_part off_log (upsert_vertex k v)" "stays_off log_part off_log (delete_vertices_where V)"
  "stays_off log_part off_log (delete_relation k)" "stays_off log_part off_log (insert_relation k r)"
  "stays_off log_part off_log (delete_relations_where R)" "stays_off log_part off_log (upsert_patch k p)"
  "stays_off log_part off_log (delete_patch k)" "stays_off log_part off_log (delete_patches_where Q)"
  "stays_off log_part off_log (create_projection k j)" "stays_off log_part off_log (upsert_projection k j)"
  by (auto simp: stays_off_def log_part_def off_log_def nothing_def reading_def Let_def select_vertex_def create_vertex_def
      upsert_vertex_def delete_vertices_where_def delete_relation_def insert_relation_def delete_relations_where_def
      upsert_patch_def delete_patch_def delete_patches_where_def create_projection_def upsert_projection_def
      split: if_splits)

lemma spares_graph_guards [spares_intros]:
  "spares clear P gs_ensure_open" "spares clear P (assert_scoped_row sc rid l)"
  by (simp_all add: spares_def gs_ensure_open_def assert_scoped_row_def)

lemma keeps_graph_writes:
  assumes r: "relies E P" and v: "seen_by log_part P"
  shows "keeps P (perform E what)" "keeps P (gs_clear E)" "keeps P (set_projection_status E st err)"
proof -
  note statements = graph_statements_off_log[THEN logs.off_keeps[OF v]]
  have "spares off_log P (ensure_placeholder E k i)" for k i
    unfolding ensure_placeholder_def by (intro spares_intros r v)
  then have "spares off_log P (put_relation_in_transaction E rel)" for rel
    unfolding put_relation_in_transaction_def Let_def by (intro spares_intros r v)
  then have "keeps P (put_relation E rel)" for rel
    unfolding put_relation_def
    by (intro keeps_bnd[OF keeps_assert(2)] logs.keeps_transaction spares_try_except spares_bnd[OF logs.spares_cancel_safely]
        spares_basic r v)
  moreover have "keeps P (put_object E x)" "keeps P (remove_object E i)" "keeps P (remove_relation E i)"
    "keeps P (put_patch E pa)" "keeps P (remove_patch E i)" for x i pa
    unfolding put_object_def remove_object_def remove_relation_def put_patch_def remove_patch_def
    by (intro keeps_intros r statements)+
  ultimately show "keeps P (perform E what)" by (cases what) simp_all
  show "keeps P (gs_clear E)"
    unfolding gs_clear_def by (intro keeps_intros r) (auto intro: statements)
  show "keeps P (set_projection_status E st err)"
    unfolding set_projection_status_def by (intro keeps_intros r statements)
qed

lemma keeps_graph_lifecycle:
  assumes r: "relies E P" and v: "seen_by log_part P"
  shows "keeps P (begin_rebuild E)" "keeps P (mark_ready E)" "keeps P (mark_failed E why)" "keeps P (gs_close E)"
    "keeps P (new_graph_store E c rid sc)"
proof -
  note writes = keeps_graph_writes[OF r v]
  show "keeps P (begin_rebuild E)" "keeps P (mark_ready E)" "keeps P (mark_failed E why)" "keeps P (gs_close E)"
    unfolding begin_rebuild_def mark_ready_def mark_failed_def gs_close_def
    by (intro keeps_intros writes r; simp)+
  have "stmt_keeps P (create_projection k j)" for k j by (rule logs.off_keeps[OF v graph_statements_off_log(11)])
  then have "keeps P (ensure_projection_record E)"
    unfolding ensure_projection_record_def by (intro keeps_intros r)
  then have init: "keeps P (graph_store_init E)"
    unfolding graph_store_init_def
    by (intro keeps_intros keeps_ensure_schema r logs.seen_of_data[OF v]) simp_all
  show "keeps P (new_graph_store E c rid sc)"
    unfolding new_graph_store_def by (rule keeps_making[OF init]) (simp add: fresh_graph_store_def)
qed

lemma graph_call_spares:
  assumes r: "relies E P" and v: "seen_by log_part P" and call: "graph_call E s t" and ok: "P (db s)"
  shows "P (db t)"
  using call
  by cases (rule keeps_into[where P = P and s = s, OF _ _ ok], rule keeps_graph_writes[OF r v] keeps_reads[OF r]
      keeps_graph_lifecycle[OF r v], assumption)+

section \<open>Replay\<close>

lemma keeps_on_stores [keeps_intros]:
  "keeps P p \<Longrightarrow> keeps P (on_graph p)" "keeps P q \<Longrightarrow> keeps P (on_events q)"
  by (simp_all add: keeps_def on_graph_def on_events_def split: prod.split) (metis now_fields snd_conv)+

lemma keeps_replay:
  assumes r: "relies E P" and api: "replays_with E api calls init step seeded"
    and perform: "\<And>what. keeps P (perform E what :: (graph_store, exn, unit) prog)"
    and cycle: "keeps P (begin_rebuild E :: (graph_store, exn, unit) prog)" "keeps P (mark_ready E :: (graph_store, exn, unit) prog)"
      "\<And>why. keeps P (mark_failed E why :: (graph_store, exn, unit) prog)"
  shows "keeps P (replay_graph E api)"
proof -
  have ev: "replay_event api g e = bnd (for_each (perform E) (calls e)) (\<lambda>_. ret (step g e))" for g e
    using api by (simp add: replays_with_def)
  have events: "keeps P (replay_events api g evs)" for g evs
    by (induction evs arbitrary: g) (auto simp: ev intro!: keeps_intros perform)
  have ends: "keeps P (new_graph api rid)" "keeps P (reseed_ids api g evs)" for rid g evs
    using api by (auto simp: replays_with_def intro: keeps_intros)
  show ?thesis
    unfolding replay_graph_def replay_body_def
    by (intro keeps_intros keeps_readonly[OF r readonly_iter_events] events ends cycle)
qed

end
