(* ===== verification/ReplaySafety.thy ===== *)
theory ReplaySafety
  imports Replay GraphFaults
begin

text \<open>
  What a replay leaves behind when requests fail: calls that leave the handle's own fields alone, calls
  that leave the status record alone, and the phases of \<open>replay_graph\<close>.
\<close>

section \<open>Calls that leave the handle's own fields alone\<close>

lemma masked_graph:
  assumes "masked t = masked s"
  shows "gs_scope t = gs_scope s" "gs_run t = gs_run s" "gs_closed t = gs_closed s" "rebuilding_here t = rebuilding_here s"
  using arg_cong[OF assms, of gs_scope] arg_cong[OF assms, of gs_run] arg_cong[OF assms, of gs_closed]
    arg_cong[OF assms, of rebuilding_here] by (simp_all add: masked_def)

lemma untouching_guards [untouching_intros]:
  "untouching gs_ensure_open" "untouching (assert_scoped_row sc rid l)" "untouching (assert_readable E)" "untouching (assert_writable E)"
proof -
  show g: "untouching gs_ensure_open" "untouching (assert_scoped_row sc rid l)" for sc rid l
    by (simp_all add: untouching_def gs_ensure_open_def assert_scoped_row_def)
  show "untouching (assert_readable E)" "untouching (assert_writable E)"
    unfolding assert_writable_def assert_readable_def projection_status_def projection_row_def
    by (intro untouching_intros g)+
qed

lemma untouching_perform: "untouching (perform E what)"
proof (cases what)
  case (PutRelation x)
  then show ?thesis
    unfolding PutRelation perform.simps put_relation_def put_relation_in_transaction_def ensure_placeholder_def Let_def
    by (intro untouching_intros)
qed (auto simp: put_object_def remove_object_def remove_relation_def put_patch_def remove_patch_def intro!: untouching_intros)

section \<open>The status record\<close>

lemma keeps_snd: "keeps P p \<Longrightarrow> P (db s) \<Longrightarrow> P (db (snd (p s)))"
  by (simp add: keeps_def)

lemma status_kept_by_perform:
  assumes q: "quiet E"
  shows "keeps (\<lambda>d. ag_projection d = p) (perform E what)"
proof -
  have r: "relies E (\<lambda>d. ag_projection d = p)" using q by (simp add: relies_def quiet_def)
  have s: "stmt_keeps (\<lambda>d. ag_projection d = p) (upsert_vertex k v)" "stmt_keeps (\<lambda>d. ag_projection d = p) (upsert_patch k pr)"
    "stmt_keeps (\<lambda>d. ag_projection d = p) (delete_relation k)" "stmt_keeps (\<lambda>d. ag_projection d = p) (delete_patch k)" for k v pr
    by (auto simp: stmt_keeps_def upsert_vertex_def upsert_patch_def delete_relation_def delete_patch_def split: if_splits)
  have c: "keeps (\<lambda>d. ag_projection d = p) (commit E)"
    using r by (auto simp: keeps_def commit_def Let_def arrived_def relies_def install_def split: option.split call_outcome.split)
  show ?thesis
    by (cases what) (auto simp: put_object_def remove_object_def put_relation_def put_relation_in_transaction_def
        ensure_placeholder_def remove_relation_def put_patch_def remove_patch_def Let_def intro!: keeps_intros r s c)
qed

definition named :: "string \<Rightarrow> string \<Rightarrow> 's workspace_scheme \<Rightarrow> bool" where
  "named sc rid u \<longleftrightarrow> gs_scope (graph_obj u) = sc \<and> gs_run (graph_obj u) = rid"

definition unready :: "('x, 'z) env_scheme \<Rightarrow> string \<Rightarrow> string \<Rightarrow> 's workspace_scheme \<Rightarrow> bool" where
  "unready E sc rid u \<longleftrightarrow> named sc rid u \<and> \<not> has_status E sc rid (db u) ''ready''"

lemma has_status_cong: "ag_projection d = ag_projection d' \<Longrightarrow> has_status E sc rid d st = has_status E sc rid d' st"
  by (simp add: has_status_def)

lemma on_graph_unready:
  assumes p: "untouching p" "\<And>x. keeps (\<lambda>d. ag_projection d = x) p" and u: "unready E sc rid u"
  shows "wp (on_graph p) (\<lambda>_. unready E sc rid) (\<lambda>_. unready E sc rid) u"
proof -
  let ?t = "snd (p (graph_now u))"
  have "masked ?t = masked (graph_now u)" using p(1) unfolding untouching_def by blast
  note names = masked_graph(1,2)[OF this]
  have "ag_projection (db ?t) = ag_projection (db u)"
    by (rule keeps_snd[OF p(2)]) simp
  then have "unready E sc rid (with_graph ?t u)"
    using u names has_status_cong[where E = E and d = "db ?t" and d' = "db u"] by (simp add: unready_def named_def)
  then show ?thesis by (simp add: wp_on_graph wp_any)
qed

text \<open>\<open>replay_graph\<close> up to \<open>mark_ready\<close>: the projection has been emptied and filled from the log.\<close>

definition replay_contents ::
  "('x, 'z) env_scheme \<Rightarrow> ('x, 'g) graph_api \<Rightarrow> ('s workspace_scheme, exn, 'g) prog" where
  "replay_contents E api = with_self (\<lambda>w.
     bnd (on_graph (begin_rebuild E)) (\<lambda>_.
     bnd (on_events (iter_events E None None)) (\<lambda>evs.
     if compacted evs then
       throw (UnsupportedCompactedRunError
         ''runtime.snapshot replay is outside the uncompacted preview contract'')
     else
       bnd (on_graph (new_graph api (es_run (events_obj w)))) (\<lambda>g.
       bnd (replay_events api g evs) (\<lambda>g. on_graph (reseed_ids api g evs))))))"

lemma replay_body_split:
  "replay_body E api = bnd (replay_contents E api) (\<lambda>g. bnd (on_graph (mark_ready E)) (\<lambda>_. ret g))"
  by (auto simp: fun_eq_iff replay_body_def replay_contents_def with_self_def bnd_def throw_def split: prod.splits sum.splits)

lemma set_status_quiet:
  assumes q: "quiet E" and other: "st \<noteq> ''ready''"
    and Q: "\<And>t. \<lbrakk>masked t = masked s; \<not> has_status E (gs_scope s) (gs_run s) (db t) ''ready''\<rbrakk> \<Longrightarrow> Q () t"
    and R: "\<And>e t. \<lbrakk>masked t = masked s; db t = db s \<or> \<not> has_status E (gs_scope s) (gs_run s) (db t) ''ready''\<rbrakk> \<Longrightarrow> R e t"
  shows "wp (set_projection_status E st err) Q R s"
  unfolding set_projection_status_def wp_with_self wp_bnd wp_now wp_query
  by (auto intro!: wp_request_quiet[OF q] Q R simp: upsert_projection_def has_status_def projection_content_def other split: if_splits)

lemma clear_keeps_status: "quiet E \<Longrightarrow> keeps (\<lambda>d. ag_projection d = x) (gs_clear E)"
  unfolding gs_clear_def
  by (intro keeps_intros)
    (auto simp: relies_def quiet_def stmt_keeps_def delete_relations_where_def delete_patches_where_def delete_vertices_where_def Let_def)

lemma untouching_clear [untouching_intros]: "untouching (gs_clear E)"
  unfolding gs_clear_def by (intro untouching_intros)

lemma begin_rebuild_quiet:
  assumes q: "quiet E" and Q: "\<And>t. \<lbrakk>gs_scope t = gs_scope s; gs_run t = gs_run s; \<not> has_status E (gs_scope s) (gs_run s) (db t) ''ready''\<rbrakk> \<Longrightarrow> Q () t"
    and R: "\<And>e t. \<lbrakk>gs_scope t = gs_scope s; gs_run t = gs_run s; db t = db s \<or> \<not> has_status E (gs_scope s) (gs_run s) (db t) ''ready''\<rbrakk> \<Longrightarrow> R e t"
  shows "wp (begin_rebuild E) Q R s"
proof -
  have clear: "wp (gs_clear E) Q R t"
    if t: "gs_scope t = gs_scope s" "gs_run t = gs_run s" "\<not> has_status E (gs_scope s) (gs_run s) (db t) ''ready''" for t
  proof -
    let ?t = "snd (gs_clear E t)"
    have "masked ?t = masked t" using untouching_clear[of E] unfolding untouching_def by blast
    note names = masked_graph(1,2)[OF this]
    have "ag_projection (db ?t) = ag_projection (db t)"
      by (rule keeps_snd[OF clear_keeps_status[OF q]]) simp
    then have "\<not> has_status E (gs_scope s) (gs_run s) (db ?t) ''ready''" using t(3) has_status_cong by blast
    then have "wp (gs_clear E) (\<lambda>_ u. u = ?t) (\<lambda>_ u. u = ?t) t \<and> Q () ?t \<and> (\<forall>e. R e ?t)"
      using Q R names t(1,2) by (simp add: wp_any)
    then show ?thesis by (auto intro: wp_conseq)
  qed
  show ?thesis
  proof (cases "gs_closed s")
    case True
    then show ?thesis using R[of s] by (simp add: begin_rebuild_def wp_bnd wp_gs_ensure_open)
  next
    case False
    have "wp (set_projection_status E ''rebuilding'' None) (\<lambda>_ t. wp (gs_clear E) Q R (t\<lparr>rebuilding_here := True\<rparr>)) R s"
    proof (rule set_status_quiet[OF q])
      fix t assume t: "masked t = masked s" "\<not> has_status E (gs_scope s) (gs_run s) (db t) ''ready''"
      show "wp (gs_clear E) Q R (t\<lparr>rebuilding_here := True\<rparr>)"
        by (rule clear) (use t masked_graph[OF t(1)] in simp_all)
    next
      fix e t assume t: "masked t = masked s" "db t = db s \<or> \<not> has_status E (gs_scope s) (gs_run s) (db t) ''ready''"
      show "R e t" by (rule R) (use t masked_graph[OF t(1)] in simp_all)
    qed simp
    with False show ?thesis by (simp add: begin_rebuild_def wp_bnd wp_gs_ensure_open wp_modify)
  qed
qed

lemma replay_events_unready:
  assumes q: "quiet E" and api: "replays_with E api calls init step seeded" and u: "unready E sc rid u"
  shows "wp (replay_events api g evs) (\<lambda>_. unready E sc rid) (\<lambda>_. unready E sc rid) u"
  using u
proof (induction evs arbitrary: g u)
  case Nil
  then show ?case by (simp add: wp_ret)
next
  case (Cons ev evs)
  have ev: "replay_event api g ev = bnd (for_each (perform E) (calls ev)) (\<lambda>_. ret (step g ev))"
    using api by (simp add: replays_with_def)
  have "untouching (replay_event api g ev)" unfolding ev by (intro untouching_intros untouching_perform)
  moreover have "keeps (\<lambda>d. ag_projection d = x) (replay_event api g ev)" for x
    unfolding ev by (intro keeps_intros status_kept_by_perform[OF q])
  ultimately have "wp (on_graph (replay_event api g ev)) (\<lambda>_. unready E sc rid) (\<lambda>_. unready E sc rid) u"
    by (rule on_graph_unready[OF _ _ Cons.prems])
  then show ?case
    unfolding replay_events.simps wp_bnd by (rule wp_conseq) (auto intro: Cons.IH)
qed

lemma iter_events_unready:
  assumes q: "quiet E" and u: "unready E sc rid u"
  shows "wp (on_events (iter_events E None None)) (\<lambda>_. unready E sc rid) (\<lambda>_. unready E sc rid) u"
proof -
  let ?t = "snd (iter_events E None None (events_now u))"
  have "reach E (events_now u) ?t" using readonly_iter_events[of E None None] unfolding readonly_def by blast
  from reach_quiet[OF q this] have "unready E sc rid (with_events ?t u)" using u by (simp add: unready_def named_def)
  then show ?thesis by (simp add: wp_on_events wp_any)
qed

lemma replay_contents_unready:
  assumes q: "quiet E" and api: "replays_with E api calls init step seeded"
    and names: "gs_scope (graph_obj w) = sc" "gs_run (graph_obj w) = rid"
  shows "wp (replay_contents E api) (\<lambda>_. unready E sc rid) (\<lambda>_ u. unready E sc rid u \<or> named sc rid u \<and> db u = db w) w"
proof -
  let ?R = "\<lambda>(_ :: exn) u. unready E sc rid u \<or> named sc rid u \<and> db u = db w"
  have new: "new_graph api r = ret (init r)" and reseed: "reseed_ids api g evs = ret (seeded g evs)" for r g evs
    using api by (simp_all add: replays_with_def)
  have pure: "wp (on_graph (ret x)) Q R u = Q x (with_graph (graph_now u) u)" for x Q R u
    by (simp add: wp_on_graph wp_ret)
  have idle: "unready E sc rid (with_graph (graph_now u) u)" if "unready E sc rid u" for u
    using that by (simp add: unready_def named_def)
  have after: "wp (on_events (iter_events E None None)) (\<lambda>evs. wp (if compacted evs then throw x else
       bnd (on_graph (new_graph api r)) (\<lambda>g. bnd (replay_events api g evs) (\<lambda>g. on_graph (reseed_ids api g evs))))
     (\<lambda>_. unready E sc rid) ?R) ?R u" if u: "unready E sc rid u" for u x r
  proof (rule wp_conseq[OF iter_events_unready[OF q u]])
    fix evs t assume t: "unready E sc rid t"
    show "wp (if compacted evs then throw x else
       bnd (on_graph (new_graph api r)) (\<lambda>g. bnd (replay_events api g evs) (\<lambda>g. on_graph (reseed_ids api g evs))))
     (\<lambda>_. unready E sc rid) ?R t"
      unfolding wp_if wp_throw wp_bnd new reseed pure
      by (auto simp: t intro!: wp_conseq[OF replay_events_unready[OF q api idle[OF t]]] idle)
  qed blast
  show ?thesis
    unfolding replay_contents_def wp_with_self wp_bnd wp_on_graph[of "begin_rebuild E"]
  proof (rule begin_rebuild_quiet[OF q])
    fix t :: graph_store
    assume t: "gs_scope t = gs_scope (graph_now w)" "gs_run t = gs_run (graph_now w)"
      "\<not> has_status E (gs_scope (graph_now w)) (gs_run (graph_now w)) (db t) ''ready''"
    then have u: "unready E sc rid (with_graph t w)" using names by (simp add: unready_def named_def)
    show "wp (on_events (iter_events E None None)) (\<lambda>evs. wp (if compacted evs then throw (UnsupportedCompactedRunError
         ''runtime.snapshot replay is outside the uncompacted preview contract'') else
       bnd (on_graph (new_graph api (es_run (events_obj w)))) (\<lambda>g. bnd (replay_events api g evs) (\<lambda>g. on_graph (reseed_ids api g evs))))
     (\<lambda>_. unready E sc rid) ?R) ?R (with_graph t w)"
      by (rule after[OF u])
  next
    fix e and t :: graph_store
    assume "gs_scope t = gs_scope (graph_now w)" "gs_run t = gs_run (graph_now w)"
      "db t = db (graph_now w) \<or> \<not> has_status E (gs_scope (graph_now w)) (gs_run (graph_now w)) (db t) ''ready''"
    then show "unready E sc rid (with_graph t w) \<or> named sc rid (with_graph t w) \<and> db (with_graph t w) = db w"
      using names by (auto simp: unready_def named_def)
  qed
qed

definition graph_tables :: "tables \<Rightarrow> vertex_row table \<times> relation_row table \<times> patch_row table" where
  "graph_tables d = (ag_vertex d, ag_relation d, ag_patch d)"

lemma mark_ready_tables:
  assumes q: "quiet E"
  shows "wp (mark_ready E) (\<lambda>_ _. True) (\<lambda>_ t. gs_scope t = gs_scope s \<and> gs_run t = gs_run s \<and> graph_tables (db t) = graph_tables (db s)) s"
  unfolding mark_ready_def set_projection_status_def wp_bnd wp_gs_ensure_open wp_with_self wp_now wp_query wp_modify
  by (auto intro!: wp_request_quiet[OF q] simp: upsert_projection_def graph_tables_def split: if_splits)

lemma mark_failed_quiet:
  assumes q: "quiet E"
  shows "wp (mark_failed E why) (\<lambda>_ t. \<not> has_status E (gs_scope s) (gs_run s) (db t) ''ready'')
    (\<lambda>_ t. db t = db s \<or> \<not> has_status E (gs_scope s) (gs_run s) (db t) ''ready'') s"
  unfolding mark_failed_def wp_bnd wp_gs_ensure_open
  by (auto intro!: set_status_quiet[OF q] simp: wp_modify)

definition replay_failed_at ::
  "('x, 'z) env_scheme \<Rightarrow> ('x, 'g) graph_api \<Rightarrow> string \<Rightarrow> string \<Rightarrow> 's workspace_scheme \<Rightarrow> 's workspace_scheme \<Rightarrow> bool" where
  "replay_failed_at E api sc rid w u \<longleftrightarrow> \<not> has_status E sc rid (db u) ''ready'' \<or> graph_tables (db u) = graph_tables (db w)
     \<or> (\<exists>g v. replay_contents E api w = (Inr g, v) \<and> graph_tables (db u) = graph_tables (db v))"

lemma replay_body_failed:
  assumes q: "quiet E" and api: "replays_with E api calls init step seeded"
    and names: "gs_scope (graph_obj w) = sc" "gs_run (graph_obj w) = rid"
    and run: "replay_body E api w = (Inl e, u)"
  shows "replay_failed_at E api sc rid w u \<and> named sc rid u"
proof -
  note contents = replay_contents_unready[OF q api names]
  show ?thesis
  proof (cases "replay_contents E api w")
    case (Pair r v)
    show ?thesis
    proof (cases r)
      case (Inl e')
      then have "unready E sc rid v \<or> named sc rid v \<and> db v = db w" using wp_InlD[OF contents] Pair by blast
      moreover have "u = v" using run Pair Inl by (simp add: replay_body_split bnd_def)
      ultimately show ?thesis by (auto simp: replay_failed_at_def unready_def graph_tables_def)
    next
      case (Inr g)
      then have "named sc rid v" using wp_InrD[OF contents] Pair by (auto simp: unready_def)
      then have "wp (on_graph (mark_ready E)) (\<lambda>_ _. True) (\<lambda>_ t. graph_tables (db t) = graph_tables (db v) \<and> named sc rid t) v"
        unfolding wp_on_graph by (intro wp_conseq[OF mark_ready_tables[OF q]]) (simp_all add: named_def)
      moreover obtain e' where "on_graph (mark_ready E) v = (Inl e', u)"
        using run Pair Inr by (auto simp: replay_body_split bnd_def ret_def split: prod.splits sum.splits)
      ultimately have "graph_tables (db u) = graph_tables (db v) \<and> named sc rid u" by (rule wp_InlD)
      then show ?thesis using Pair Inr by (auto simp: replay_failed_at_def)
    qed
  qed
qed

lemma replay_graph_failed:
  assumes q: "quiet E" and api: "replays_with E api calls init step seeded"
    and names: "gs_scope (graph_obj w) = sc" "gs_run (graph_obj w) = rid"
    and run: "replay_graph E api w = (Inl e, w')"
  shows "replay_failed_at E api sc rid w w'"
proof (cases "es_run (events_obj w) = rid \<and> es_scope (events_obj w) = sc")
  case False
  then have "w' = w" using run names by (auto simp: replay_graph_def with_self_def throw_def split: if_splits)
  then show ?thesis by (simp add: replay_failed_at_def)
next
  case True
  obtain r u where body: "replay_body E api w = (r, u)" by fastforce
  then obtain e' where r: "r = Inl e'" using run True names
    by (cases r) (auto simp: replay_graph_def with_self_def try_except_def)
  note failed = replay_body_failed[OF q api names body[unfolded r]]
  have "wp (suppress (on_graph (mark_failed E (OfException e'))))
      (\<lambda>_ t. db t = db u \<or> \<not> has_status E sc rid (db t) ''ready'') (\<lambda>_ _. False) u"
    unfolding wp_suppress wp_on_graph
    by (rule wp_conseq[OF mark_failed_quiet[OF q]]) (use failed in \<open>auto simp: named_def\<close>)
  moreover obtain r' v where "on_graph (mark_failed E (OfException e')) u = (r', v)" by fastforce
  then have v: "suppress (on_graph (mark_failed E (OfException e'))) u = (Inr (), v)"
    by (cases r') (simp_all add: suppress_def try_except_def ret_def)
  ultimately have "db v = db u \<or> \<not> has_status E sc rid (db v) ''ready''" by (rule wp_InrD)
  moreover have "w' = v"
    using run True names body r v by (simp add: replay_graph_def with_self_def try_except_def bnd_def throw_def)
  ultimately show ?thesis using failed by (auto simp: replay_failed_at_def)
qed

end
