(* ===== verification/RuntimeTheorems.thy ===== *)
theory RuntimeTheorems
  imports ReplaySafety
begin

text \<open>
  The properties of \<open>replay_graph\<close>: what it rebuilds, and what a failed replay leaves.
\<close>

section \<open>Replay\<close>

text \<open>A process with both stores of one run, on a database with one event and a projection.\<close>

definition sample_api :: "unit env \<Rightarrow> (unit, nat) graph_api" where
  "sample_api E = \<lparr>new_graph = (\<lambda>_. ret 0),
     replay_event = (\<lambda>g ev. bnd (for_each (perform E) sample_calls) (\<lambda>_. ret (Suc g))),
     reseed_ids = (\<lambda>g evs. ret g)\<rparr>"

definition sample_workspace :: workspace where
  "sample_workspace =
     \<lparr>db = sample_projection\<lparr>ag_run := ag_run (db sample_store1), ag_event := ag_event (db sample_store1)\<rparr>,
      tick = 0, events_obj = sample_store1, graph_obj = sample_graph\<rparr>"

lemma sample_api: "replays_with E (sample_api E) (\<lambda>_. sample_calls) (\<lambda>_. 0) (\<lambda>g _. Suc g) (\<lambda>g _. g)"
  by (simp add: replays_with_def sample_api_def)

lemma sample_workspace_fields [simp]:
  "gs_scope (graph_obj sample_workspace) = ''s''" "gs_run (graph_obj sample_workspace) = ''r''"
  "events_obj sample_workspace = sample_store1" "graph_obj sample_workspace = sample_graph"
  "run_events sc rid (db sample_workspace) = run_events sc rid (db sample_store1)"
  by (simp_all add: sample_workspace_def run_events_def)

lemma sample_replayable: "replayable sample_env (set sample_ids) sample_workspace"
proof -
  have "attached sample_env (sample_store1\<lparr>db := db sample_workspace, tick := 0\<rparr>)"
    by (rule attached_frame[OF sample_store1(1)]) (simp_all add: sample_workspace_def)
  then have "attached sample_env (events_now sample_workspace)"
    by (simp add: events_now_def sample_workspace_def)
  moreover have "gs_open (graph_now sample_workspace)"
    using sample_graph_open by (simp add: gs_open_def graph_now_def)
  moreover have "graph_ok sample_env (db sample_workspace)"
    using sample_graph_ok by (simp add: graph_ok_def sample_workspace_def)
  moreover have "separate sample_env ''s'' ''r'' (set sample_ids) (db sample_workspace)"
    using sample_separate by (simp add: separate_def own_vertex_def own_relation_def own_patch_def sample_workspace_def)
  ultimately show ?thesis
    using sample_store1(3,4) by (simp add: replayable_def)
qed

lemma sample_log: "\<exists>ev. traverse (record_to_event sample_env) (run_events ''s'' ''r'' (db sample_workspace)) = Inr [ev] \<and> ev_type ev = ''note''"
proof -
  obtain row where row: "run_events ''s'' ''r'' (db sample_store1) = [row]" "record_to_event sample_env row = norm_event sample_env sample_event"
    using sample_store1(5) by blast
  obtain ev where ev: "record_to_event sample_env row = Inr ev"
    using stored_event_same[OF sample_lib_ok sample_event_encodes] row(2) by metis
  then have "ev_type ev = ''note''" using row(2) by (auto simp: norm_event_def sample_event_def)
  with row(1) ev show ?thesis by simp
qed




lemma query_down:
  "\<lbrakk>outcome E = (\<lambda>_. FailsBefore e); quiet E; gs_open s\<rbrakk> \<Longrightarrow> query E f s = (Inl e, s\<lparr>tick := Suc (tick s)\<rparr>)"
  by (simp add: query_def bnd_def need_session_def link_ensure_open_def gs_open_def request_def Let_def arrived_quiet)

lemma lifecycle_down:
  assumes "outcome E = (\<lambda>_. FailsBefore e)" and "quiet E" and "gs_open s"
  shows "begin_rebuild E s = (Inl e, s\<lparr>tick := Suc (tick s)\<rparr>)" "mark_failed E why s = (Inl e, s\<lparr>tick := Suc (tick s)\<rparr>)"
  using gs_openD(1)[OF assms(3)]
  by (simp_all add: begin_rebuild_def mark_failed_def set_projection_status_def bnd_def gs_ensure_open_def
      with_self_def now_def get_state_def query_down[OF assms])

definition sample_down :: "unit env" where
  "sample_down = sample_env\<lparr>outcome := (\<lambda>_. FailsBefore (TimeoutError ''down''))\<rparr>"


end
