(* ===== verification/StoreSafety.thy ===== *)
theory StoreSafety
  imports Separation RuntimeTheorems
begin

text \<open>
  Both stores together: any interleaving of their calls, on any handles, keeps the invariant of the logs and
  that of the projections, and neither store writes what the other owns.
\<close>

text \<open>One call of either store, the construction of a projection handle, or a replay of a log into one.\<close>

inductive store_call :: "('x, 'z) env_scheme \<Rightarrow> ('x, 'g) graph_api \<Rightarrow> tables \<Rightarrow> tables \<Rightarrow> bool"
  for E :: "('x, 'z) env_scheme" and api :: "('x, 'g) graph_api" where
  log: "log_call E d d' \<Longrightarrow> store_call E api d d'"
| graph: "graph_call E s t \<Longrightarrow> store_call E api (db s) (db t)"
| open_graph: "new_graph_store E c rid sc (u :: server) = (r, v) \<Longrightarrow> store_call E api (db u) (db v)"
| replay: "replay_graph E api (w :: workspace) = (r, w') \<Longrightarrow> store_call E api (db w) (db w')"

inductive_cases store_callE: "store_call E api d d'"

lemma keeps_new_graph_store:
  assumes rely: "graph_rely E"
  shows "keeps (graph_ok E) (new_graph_store E c rid sc)"
proof -
  note r = graph_rely_relies[OF rely]
  have "keeps (graph_ok E) (ensure_projection_record E)"
    unfolding ensure_projection_record_def
    by (intro keeps_intros r stmt_keeps_projection) (simp add: projection_row_key_def projection_content_def)
  then have init: "keeps (graph_ok E) (graph_store_init E)"
    unfolding graph_store_init_def
    by (intro keeps_intros keeps_ensure_schema r graphs.seen_of_data[OF graph_ok_seen]) simp_all
  show ?thesis
    unfolding new_graph_store_def by (rule keeps_making[OF init]) (simp add: fresh_graph_store_def)
qed

lemma store_call_keeps_logs:
  assumes rely: "log_rely E" and lib: "lib_ok E" and api: "replays_with E api calls init step seeded"
    and call: "store_call E api d d'" and ok: "logs_ok E d"
  shows "logs_ok E d'"
proof -
  have r: "relies E (logs_ok E)" using rely by (simp add: log_rely_def)
  note writes = keeps_graph_writes[OF r logs_ok_seen] keeps_graph_lifecycle[OF r logs_ok_seen]
  from call ok show ?thesis
    by cases (auto intro: log_call_keeps[OF rely lib] graph_call_spares[OF r logs_ok_seen] keeps_into[OF writes(8)]
        keeps_into[OF keeps_replay[OF r api writes(1,4-6)]])
qed

lemma store_call_keeps_graph:
  assumes rely: "graph_rely E" and fr: "float_text_ok (float_text E)" and api: "replays_with E api calls init step seeded"
    and call: "store_call E api d d'" and ok: "graph_ok E d"
  shows "graph_ok E d'"
proof -
  note r = graph_rely_relies[OF rely]
  have perform: "keeps (graph_ok E) (perform E what)" for what
    by (cases what) (simp_all add: keeps_operations[OF rely fr] put_relation_keeps[OF rely fr])
  from call ok show ?thesis
    by cases (auto intro: log_call_spares[OF r graph_ok_seen] graph_call_keeps[OF rely fr]
        keeps_into[OF keeps_new_graph_store[OF rely]]
        keeps_into[OF keeps_replay[OF r api perform keeps_lifecycle(1-3)[OF rely fr]]])
qed


lemma sample_workspace_ok: "logs_ok sample_env (db sample_workspace)" "graph_ok sample_env (db sample_workspace)"
proof -
  have "log_rely sample_env"
    by (rule quiet_log_rely) (use sample_calm sample_first_committer_wins in \<open>simp_all add: calm_def\<close>)
  moreover have "logs_ok sample_env (db sample_store)"
    using sample_attached by (simp add: attached_def logs_ok_def sample_store_def sample_tables_def new_run_row_def)
  moreover have "log_call sample_env (db sample_store) (db sample_store1)"
    unfolding sample_store1_def by (rule log_call.append[OF sample_event_ok]) (rule surjective_pairing)
  ultimately have "logs_ok sample_env (db sample_store1)" using log_call_keeps[OF _ sample_lib_ok] by blast
  then show "logs_ok sample_env (db sample_workspace)"
    by (rule logs_ok_cong[THEN iffD2, rotated 2]) (simp_all add: sample_workspace_def)
  show "graph_ok sample_env (db sample_workspace)" using sample_replayable by (simp add: replayable_def)
qed




end
