(* ===== verification/Waiting.thy ===== *)
theory Waiting
  imports RuntimeTheorems
begin

text \<open>
  The properties of the waiting loops: they end, within a number of probes bounded by the timeout, and
  what each of their outcomes means.
\<close>

text \<open>
  What the loops rely on of the clock and of \<open>sleep\<close>: from reading \<open>r\<close> on, the clock does not run
  backwards, and each pass through the loop, which sleeps for 0.2 seconds, advances it by as much.
\<close>

definition pause :: int where "pause = 200000000"

definition clock_from :: "nat \<Rightarrow> (nat \<Rightarrow> int) \<Rightarrow> bool" where
  "clock_from r instants \<longleftrightarrow> instants r \<le> instants (Suc r) \<and> (\<forall>k>r. instants k + pause \<le> instants (Suc k))"

lemma clock_from_grows:
  assumes "clock_from r instants"
  shows "instants r + int k * pause \<le> instants (Suc r + k)"
proof (induction k)
  case 0
  then show ?case using assms by (simp add: clock_from_def)
next
  case (Suc k)
  have "instants (Suc r + k) + pause \<le> instants (Suc (Suc r + k))"
    using assms by (simp add: clock_from_def)
  with Suc show ?case by (simp add: distrib_right)
qed

lemma wp_making_any:
  "\<lbrakk>\<And>x d n. Q x (s\<lparr>db := d, tick := n\<rparr>); \<And>e d n. R e (s\<lparr>db := d, tick := n\<rparr>)\<rbrakk> \<Longrightarrow> wp (making fresh p) Q R s"
  "\<lbrakk>\<And>x d n. Q' x (s\<lparr>db := d, tick := n\<rparr>); \<And>e d n. R e (s\<lparr>db := d, tick := n\<rparr>)\<rbrakk> \<Longrightarrow> wp (calling obj q) Q' R s"
  by (simp_all add: wp_def making_def calling_def split: prod.split sum.split)

lemma probe_readings: "readings (snd (probe E c s)) = readings s"
proof -
  let ?Q = "\<lambda>_ t. readings t = readings s"
  have close: "wp (bnd (calling conn (link_close E)) (\<lambda>_. ret x)) ?Q ?Q t" if "readings t = readings s" for conn x t
    unfolding wp_bnd wp_ret by (rule wp_making_any) (simp_all add: that)
  have "wp (probe E c) ?Q ?Q s"
    unfolding probe_def new_connection_def wp_bnd wp_try_except
    by (rule wp_making_any) (auto simp: wp_ret wp_bnd wp_try_except intro!: wp_making_any)
  then show ?thesis by (simp only: wp_any)
qed

text \<open>One loop covers both: it goes on while a probe's answer is not the one waited for.\<close>

lemma wait_loops_end:
  fixes wait :: "waiter \<Rightarrow> ((exn + unit) \<times> waiter) option"
  assumes clock: "clock_from r instants"
    and step: "\<And>s. wait s = (if \<not> instants (readings s) < deadline then Some (late, s\<lparr>readings := Suc (readings s)\<rparr>)
       else case probe E c (s\<lparr>readings := Suc (readings s)\<rparr>) of
         (Inl e, t) \<Rightarrow> Some (Inl e, t) | (Inr up, t) \<Rightarrow> if up = answer then Some (Inr (), t) else wait t)"
    and n: "deadline \<le> instants r + int n * pause"
  shows "\<lbrakk>readings s = Suc r + k; k \<le> n\<rbrakk> \<Longrightarrow> \<exists>y t. wait s = Some (y, t) \<and> readings t \<le> Suc (Suc r + n)"
proof (induction "n - k" arbitrary: s k)
  case 0
  then have "instants r + int n * pause \<le> instants (readings s)" using clock_from_grows[OF clock, of n] by simp
  then have "wait s = Some (late, s\<lparr>readings := Suc (readings s)\<rparr>)" using n by (subst step) simp
  with 0 show ?case by simp
next
  case (Suc m)
  obtain z t where probe: "probe E c (s\<lparr>readings := Suc (readings s)\<rparr>) = (z, t)" by fastforce
  have t: "readings t = Suc r + Suc k" using probe_readings[of E c "s\<lparr>readings := Suc (readings s)\<rparr>"] probe Suc.prems by simp
  have m: "m = n - Suc k" "Suc k \<le> n" using Suc.hyps(2) by simp_all
  obtain y u where next': "wait t = Some (y, u)" "readings u \<le> Suc (Suc r + n)"
    using Suc.hyps(1)[OF m(1) t m(2)] by blast
  show ?case
  proof (cases "instants (readings s) < deadline")
    case False
    then show ?thesis using Suc.prems m(2) by (subst step) simp
  next
    case True
    show ?thesis
    proof (cases z)
      case (Inl e)
      then show ?thesis using True probe t m(2) by (subst step) simp
    next
      case (Inr up)
      then show ?thesis using True probe t m(2) next' by (subst step) simp
    qed
  qed
qed

lemma wait_ready_loop:
  "wait_ready E instants c deadline s = (if \<not> instants (readings s) < deadline
     then Some (Inl (TimeoutError ''SurrealDB did not become ready before the deadline''), s\<lparr>readings := Suc (readings s)\<rparr>)
     else case probe E c (s\<lparr>readings := Suc (readings s)\<rparr>) of
       (Inl e, t) \<Rightarrow> Some (Inl e, t)
     | (Inr up, t) \<Rightarrow> if up = True then Some (Inr (), t) else wait_ready E instants c deadline t)"
  by (subst wait_ready.simps) (auto split: prod.split sum.split)

lemma wait_unavailable_loop:
  "wait_unavailable E instants c deadline s = (if \<not> instants (readings s) < deadline
     then Some (Inl (TimeoutError ''SurrealDB remained available past the deadline''), s\<lparr>readings := Suc (readings s)\<rparr>)
     else case probe E c (s\<lparr>readings := Suc (readings s)\<rparr>) of
       (Inl e, t) \<Rightarrow> Some (Inl e, t)
     | (Inr up, t) \<Rightarrow> if up = False then Some (Inr (), t) else wait_unavailable E instants c deadline t)"
  by (subst wait_unavailable.simps) (auto split: prod.split sum.split)



text \<open>The end of a loop that waits for \<open>answer\<close>: a probe gave the answer, or raised, or it was late.\<close>

fun loop_end ::
  "('x, 'z) env_scheme \<Rightarrow> (nat \<Rightarrow> int) \<Rightarrow> surreal_config \<Rightarrow> int \<Rightarrow> bool \<Rightarrow> exn \<Rightarrow> (exn + unit) \<times> waiter \<Rightarrow> bool" where
  "loop_end E instants c deadline answer late (Inr _, t) \<longleftrightarrow> (\<exists>u. probe E c u = (Inr answer, t))"
| "loop_end E instants c deadline answer late (Inl e, t) \<longleftrightarrow>
     (\<exists>u. probe E c u = (Inl e, t)) \<or> (\<exists>k. deadline \<le> instants k \<and> readings t = Suc k \<and> e = late)"

lemma loop_end_step:
  assumes more: "\<And>u. go u = Some y \<Longrightarrow> loop_end E instants c deadline answer late y"
    and run: "(if \<not> instants (readings s) < deadline then Some (Inl late, s\<lparr>readings := Suc (readings s)\<rparr>)
       else case probe E c (s\<lparr>readings := Suc (readings s)\<rparr>) of
         (Inl e, t) \<Rightarrow> Some (Inl e, t) | (Inr up, t) \<Rightarrow> if up = answer then Some (Inr (), t) else go t) = Some y"
  shows "loop_end E instants c deadline answer late y"
proof -
  obtain z u where probe: "probe E c (s\<lparr>readings := Suc (readings s)\<rparr>) = (z, u)" by fastforce
  show ?thesis
  proof (cases "instants (readings s) < deadline")
    case False
    then have "y = (Inl late, s\<lparr>readings := Suc (readings s)\<rparr>)" using run by simp
    with False show ?thesis by (auto simp: not_less)
  next
    case True
    with run probe have body: "(case z of Inl e \<Rightarrow> Some (Inl e, u)
      | Inr up \<Rightarrow> if up = answer then Some (Inr (), u) else go u) = Some y" by (simp split: sum.splits)
    show ?thesis
    proof (cases z)
      case (Inl e)
      with body probe show ?thesis by auto
    next
      case (Inr up)
      with body probe more show ?thesis by (cases "up = answer") auto
    qed
  qed
qed

lemma loop_ends:
  "wait_ready E instants c deadline s = Some y \<Longrightarrow> loop_end E instants c deadline True
     (TimeoutError ''SurrealDB did not become ready before the deadline'') y"
  "wait_unavailable E instants c deadline s = Some y \<Longrightarrow> loop_end E instants c deadline False
     (TimeoutError ''SurrealDB remained available past the deadline'') y"
proof -
  show "loop_end E instants c deadline True (TimeoutError ''SurrealDB did not become ready before the deadline'') y"
    if "wait_ready E instants c deadline s = Some y"
  proof (rule wait_ready.raw_induct[where P = "\<lambda>E instants c deadline s y. loop_end E instants c deadline True
      (TimeoutError ''SurrealDB did not become ready before the deadline'') y", OF _ that], goal_cases)
    case (1 go E instants c deadline s y)
    from 1(2) show ?case
      by (intro loop_end_step[where go = "go E instants c deadline", OF 1(1)]) (auto split: prod.splits sum.splits if_splits)
  qed
  show "loop_end E instants c deadline False (TimeoutError ''SurrealDB remained available past the deadline'') y"
    if "wait_unavailable E instants c deadline s = Some y"
  proof (rule wait_unavailable.raw_induct[where P = "\<lambda>E instants c deadline s y. loop_end E instants c deadline False
      (TimeoutError ''SurrealDB remained available past the deadline'') y", OF _ that], goal_cases)
    case (1 go E instants c deadline s y)
    from 1(2) show ?case
      by (intro loop_end_step[where go = "go E instants c deadline", OF 1(1)]) (auto split: prod.splits sum.splits if_splits)
  qed
qed

text \<open>
  Property C39. What the loops' outcomes mean: \<open>wait_until_ready\<close> returns only after a probe that
  connected, got the server's version and closed, \<open>wait_until_unavailable\<close> only after one that did not;
  each raises only when the clock had reached the deadline, or when closing a probe's
  connection raised.
\<close>

theorem wait_outcomes:
  shows "(wait_until_ready E instants c timeout s = Some (Inr (), t) \<longrightarrow> (\<exists>u. probe E c u = (Inr True, t)))
     \<and> (wait_until_unavailable E instants c timeout s = Some (Inr (), t) \<longrightarrow> (\<exists>u. probe E c u = (Inr False, t)))
     \<and> (wait_until_ready E instants c timeout s = Some (Inl e, t) \<longrightarrow>
          (\<exists>u. probe E c u = (Inl e, t)) \<or> (\<exists>k. instants (readings s) + timeout \<le> instants k \<and> readings t = Suc k
            \<and> e = TimeoutError ''SurrealDB did not become ready before the deadline''))
     \<and> (wait_until_unavailable E instants c timeout s = Some (Inl e, t) \<longrightarrow>
          (\<exists>u. probe E c u = (Inl e, t)) \<or> (\<exists>k. instants (readings s) + timeout \<le> instants k \<and> readings t = Suc k
            \<and> e = TimeoutError ''SurrealDB remained available past the deadline''))"
  unfolding wait_until_ready_def wait_until_unavailable_def
  by (intro conjI impI; drule loop_ends; simp)

lemma probe_calm:
  assumes c: "calm E" and ws: "blocking_websocket E (endpoint c)"
  shows "probe E c s = (Inr True, s\<lparr>tick := tick s + 9\<rparr>)"
proof -
  let ?u = "unconnected c s"
  have "connection_init E ?u = (Inr (), ?u\<lparr>tick := tick ?u + 6, session_open := True\<rparr>)"
    by (rule wp_runs[OF wp_connection_init_calm[OF assms(1)]]) (simp add: unconnected_def ws)
  then have made: "new_connection E c s = (Inr (?u\<lparr>tick := tick s + 6, session_open := True\<rparr>), s\<lparr>tick := tick s + 6\<rparr>)"
    by (simp add: new_connection_def making_def unconnected_def)
  have version: "link_server_version E t = (Inr (normalized_version connection_version_match (reported_version E)), t\<lparr>tick := Suc (tick t)\<rparr>)" for t :: link
    by (rule wp_runs) (simp add: link_server_version_def wp_rules wp_reading_calm[OF c])
  have close: "link_close E t = (Inr (), t\<lparr>link_closed := True, session_open := False, tick := tick t + 2\<rparr>)"
    if "\<not> link_closed t" "session_open t" for t :: link
    by (rule wp_runs) (simp add: link_close_def wp_rules that wp_ping_calm[OF c] eval_nat_numeral)
  show ?thesis
    by (simp add: probe_def bnd_def try_except_def made ret_def calling_def version close unconnected_def)
qed

theorem wait_outcomes_witness:
  "\<exists>u t. wait_until_ready sample_env (\<lambda>k. int k * pause) sample_config 1000000000
      \<lparr>db = empty_tables, tick = 0, readings = 0\<rparr> = Some (Inr (), t) \<and> probe sample_env sample_config u = (Inr True, t)"
proof -
  let ?s = "\<lparr>db = empty_tables, tick = 0, readings = 0\<rparr> :: waiter"
  have "blocking_websocket sample_env (endpoint sample_config)" by (simp add: sample_env_def)
  note probe = probe_calm[OF sample_calm this]
  have "wait_until_ready sample_env (\<lambda>k. int k * pause) sample_config 1000000000 ?s = Some (Inr (), ?s\<lparr>tick := 9, readings := 2\<rparr>)"
    unfolding wait_until_ready_def by (subst wait_ready.simps) (simp add: probe pause_def)
  then obtain t where "wait_until_ready sample_env (\<lambda>k. int k * pause) sample_config 1000000000 ?s = Some (Inr (), t)" by blast
  then show ?thesis using wait_outcomes[of sample_env "\<lambda>k. int k * pause" sample_config 1000000000 ?s t] by blast
qed

text \<open>
  A run of note: \<open>wait_until_unavailable\<close> can raise where the server has become unavailable: when it
  vanishes after a probe has connected, the version query raises and so does closing the
  connection; the loop's \<open>return\<close> is then replaced by the error of \<open>close\<close>.
\<close>

theorem wait_unavailable_raises_when_gone:
  assumes "quiet E" and "blocking_websocket E (endpoint c)"
    and "\<forall>n. outcome E n = (if n < tick s + 6 then Proceeds else FailsBefore e)"
    and "instants (Suc (readings s)) < instants (readings s) + timeout"
  shows "wait_until_unavailable E instants c timeout s =
    Some (Inl e, s\<lparr>readings := readings s + 2, tick := tick s + 9\<rparr>)"
proof -
  let ?u = "unconnected c s"
  have ping: "ping E t = (if tick t < tick s + 6 then Inr () else Inl e, t\<lparr>tick := Suc (tick t)\<rparr>)" for t :: link
    using assms(3) by (simp add: ping_def request_def Let_def arrived_quiet[OF assms(1)] reading_def)
  have ask: "request E (reading f) t = (Inl e, t\<lparr>tick := Suc (tick t)\<rparr>)" if "tick s + 6 \<le> tick t" for f and t :: link
    using assms(3) that by (simp add: request_def Let_def arrived_quiet[OF assms(1)])
  have "connection_init E ?u = (Inr (), ?u\<lparr>tick := tick s + 6, session_open := True\<rparr>)"
    using assms(2) by (simp add: connection_init_def bnd_def get_state_def try_except_def modify_def ping unconnected_def)
  then have made: "new_connection E c t = (Inr (?u\<lparr>tick := tick s + 6, session_open := True\<rparr>), t\<lparr>tick := tick s + 6\<rparr>)"
    if "db t = db s" "tick t = tick s" for t :: waiter
    using that by (simp add: new_connection_def making_def unconnected_def)
  have probe: "probe E c (s\<lparr>readings := n\<rparr>) = (Inl e, s\<lparr>readings := n, tick := tick s + 9\<rparr>)" for n
    by (simp add: probe_def bnd_def try_except_def made ret_def calling_def link_server_version_def ask link_close_def get_state_def
        modify_def try_finally_def run_if_def ping unconnected_def)
  show ?thesis
    using assms(4) unfolding wait_until_unavailable_def
    by (subst wait_unavailable.simps) (simp add: probe)
qed

theorem wait_unavailable_raises_when_gone_witness:
  "wait_until_unavailable (sample_env\<lparr>outcome := (\<lambda>n. if n < 6 then Proceeds else FailsBefore (TimeoutError ''gone''))\<rparr>)
     (\<lambda>k. int k * pause) sample_config 1000000000 \<lparr>db = empty_tables, tick = 0, readings = 0\<rparr> =
   Some (Inl (TimeoutError ''gone''), \<lparr>db = empty_tables, tick = 9, readings = 2\<rparr>)"
proof -
  let ?E = "sample_env\<lparr>outcome := (\<lambda>n. if n < 6 then Proceeds else FailsBefore (TimeoutError ''gone''))\<rparr>"
  have "quiet ?E" using sample_calm by (simp add: calm_def)
  moreover have "blocking_websocket ?E (endpoint sample_config)" by (simp add: sample_env_def)
  ultimately show ?thesis
    using wait_unavailable_raises_when_gone[of ?E sample_config "\<lparr>db = empty_tables, tick = 0, readings = 0\<rparr>"
        "TimeoutError ''gone''" "\<lambda>k. int k * pause" 1000000000]
    by (simp add: pause_def)
qed

end
