(* ===== verification/Harness.thy ===== *)
theory Harness
  imports Runtime
begin

text \<open>
  \<open>harness.py\<close>: loading an external pack library onto two stores of one database. The state is the
  process: the server, the two stores, \<open>sys.path\<close>, \<open>sys.modules\<close>, the state of ActiveGraph's own
  objects (of a type \<open>'h\<close> left open), and what belongs to one \<open>build_runtime\<close>, its \<open>ExitStack\<close> and the handle's \<open>loaded_packs\<close>. The file system, the import
  machinery and ActiveGraph are parameters.
\<close>

section \<open>Paths\<close>

text \<open>\<open>pathlib.Path\<close> on POSIX: the root and the parts.\<close>

record path =
  path_root :: string
  path_parts :: "string list"

definition path_of :: "string \<Rightarrow> path" where
  "path_of s =
     \<lparr>path_root = (if starts_with ''//'' s \<and> \<not> starts_with ''///'' s then ''//''
                  else if starts_with ''/'' s then ''/'' else []),
      path_parts = filter (\<lambda>p. p \<noteq> [] \<and> p \<noteq> ''.'') (split_on (CHR ''/'') [] s)\<rparr>"

definition path_text :: "path \<Rightarrow> string" where
  "path_text p =
     (if path_root p = [] \<and> path_parts p = [] then ''.'' else path_root p @ join ''/'' (path_parts p))"

definition packs_dir :: "path \<Rightarrow> path" where
  "packs_dir p = p\<lparr>path_parts := path_parts p @ [''packs'']\<rparr>"

text \<open>\<open>Path.expanduser()\<close>, where \<open>home\<close> is \<open>os.path.expanduser\<close> on a first part \<open>~\<close> or \<open>~name\<close>.\<close>

definition expanduser :: "(string \<Rightarrow> string) \<Rightarrow> path \<Rightarrow> exn + path" where
  "expanduser home p =
     (case path_parts p of
        [] \<Rightarrow> Inr p
      | first # rest \<Rightarrow>
          if path_root p = [] \<and> starts_with ''~'' first then
            (let h = home first in
             if starts_with ''~'' h then Inl (Foreign ''RuntimeError'' ''Could not determine home directory.'')
             else Inr ((path_of h)\<lparr>path_parts := path_parts (path_of h) @ rest\<rparr>))
          else Inr p)"

section \<open>The process and its surroundings\<close>

record ('m, 'h) interpreter = workspace +
  search_path :: "string list"
  module_table :: "(string \<times> 'm option) list"
  activegraph :: 'h

datatype callback = CloseEvents | CloseGraph

record ('m, 'h) process = "('m, 'h) interpreter" +
  exit_stack :: "callback list"
  loaded_packs :: "string list"

text \<open>
  What is not the provider's: the environment variables, the file system, \<open>importlib.import_module\<close>,
  the attributes of modules and packs that the harness reads, and ActiveGraph's \<open>Graph\<close> and \<open>Runtime\<close>.
\<close>

record ('m, 'h, 'p, 'c, 'g, 'r) surroundings =
  getenv :: "string \<Rightarrow> string option"
  home_directory :: "string \<Rightarrow> string"
  is_dir :: "path \<Rightarrow> exn + bool"
  resolve :: "path \<Rightarrow> exn + path"
  import_module :: "string \<Rightarrow> (('m, 'h) interpreter, exn, 'm) prog"
  module_path :: "'m \<Rightarrow> string list"
  module_pack :: "'m \<Rightarrow> 'p option"
  pack_name :: "'p \<Rightarrow> string"
  make_graph :: "string \<Rightarrow> (('m, 'h) interpreter, exn, 'g) prog"
  make_runtime :: "'g \<Rightarrow> (('m, 'h) interpreter, exn, 'r) prog"
  load_pack :: "'r \<Rightarrow> 'p \<Rightarrow> 'c option \<Rightarrow> (('m, 'h) interpreter, exn, unit) prog"

definition interpreter_of :: "('m, 'h, 's) interpreter_scheme \<Rightarrow> ('m, 'h) interpreter" where
  "interpreter_of w = interpreter.truncate w"

definition with_interpreter :: "('m, 'h) interpreter \<Rightarrow> ('m, 'h, 's) interpreter_scheme \<Rightarrow> ('m, 'h, 's) interpreter_scheme" where
  "with_interpreter i w = w\<lparr>db := db i, tick := tick i, events_obj := events_obj i, graph_obj := graph_obj i,
     search_path := search_path i, module_table := module_table i, activegraph := activegraph i\<rparr>"

definition outside :: "(('m, 'h) interpreter, exn, 'a) prog \<Rightarrow> (('m, 'h, 's) interpreter_scheme, exn, 'a) prog" where
  "outside p = (\<lambda>w. case p (interpreter_of w) of (r, i) \<Rightarrow> (r, with_interpreter i w))"

section \<open>Finding and importing packs\<close>

definition DEFAULT_PACKS_PATH :: string where
  "DEFAULT_PACKS_PATH = ''/opt/references/activegraph-packs''"

definition PACKS_PATH_ENV :: string where
  "PACKS_PATH_ENV = ''ACTIVEGRAPH_PACKS_PATH''"

definition HARNESS_PACK_MODULES :: "string list" where
  "HARNESS_PACK_MODULES =
     [''core'',
      ''tool_gateway'', ''secrets'', ''memory_gateway'', ''identity_auth'', ''agent_profile'', ''entity'',
      ''subject_profile'',
      ''communication'', ''chat'', ''email'', ''composio'',
      ''bridges'',
      ''mcp'', ''attention'', ''evolution'', ''semantic_extraction'', ''eval_outcome'', ''activity_normalizer'',
      ''connector_control'', ''skills'', ''usage'', ''schedule'',
      ''importers.local_files'', ''importers.chatgpt_export'', ''importers.claude_export'',
      ''importers.assistant_self_summary'', ''importers.assistant_local_sessions'',
      ''importers.public_presence'',
      ''_template'']"

definition packs_path :: "('m, 'h, 'p, 'c, 'g, 'r) surroundings \<Rightarrow> exn + path" where
  "packs_path api =
     and_then (expanduser (home_directory api)
       (path_of (case getenv api PACKS_PATH_ENV of None \<Rightarrow> DEFAULT_PACKS_PATH | Some v \<Rightarrow> v))) (\<lambda>root.
     and_then (is_dir api (packs_dir root)) (\<lambda>there.
     if there then Inr root
     else Inl (PackHarnessError (''no pack library at '' @ path_text root @ ''; set '' @ PACKS_PATH_ENV
       @ '' to a checkout containing a '' @ py_repr ''packs'' @ '' package''))))"

definition is_packs :: "string \<Rightarrow> bool" where
  "is_packs name \<longleftrightarrow> name = ''packs'' \<or> starts_with ''packs.'' name"

definition evict_foreign_packs ::
  "('m, 'h, 'p, 'c, 'g, 'r) surroundings \<Rightarrow> path \<Rightarrow> (('m, 'h, 's) interpreter_scheme, exn, unit) prog" where
  "evict_foreign_packs api root = with_self (\<lambda>w.
     case map_of (module_table w) ''packs'' of
       None \<Rightarrow> ret ()
     | Some None \<Rightarrow> ret ()
     | Some (Some cached) \<Rightarrow>
         bnd (lift (resolve api (packs_dir root))) (\<lambda>expected.
         bnd (lift (traverse (\<lambda>entry. resolve api (path_of entry)) (module_path api cached))) (\<lambda>cached_paths.
         if expected \<in> set cached_paths then ret ()
         else modify (\<lambda>w. w\<lparr>module_table := filter (\<lambda>(name, _). \<not> is_packs name) (module_table w)\<rparr>))))"

definition ensure_importable ::
  "('m, 'h, 'p, 'c, 'g, 'r) surroundings \<Rightarrow> path \<Rightarrow> (('m, 'h, 's) interpreter_scheme, exn, unit) prog" where
  "ensure_importable api root =
     bnd (modify (\<lambda>w. if path_text root \<in> set (search_path w) then w
                     else w\<lparr>search_path := path_text root # search_path w\<rparr>)) (\<lambda>_.
       evict_foreign_packs api root)"

text \<open>\<open>ImportError\<close> and the subclasses of it in the standard library.\<close>

definition is_import_error :: "exn \<Rightarrow> bool" where
  "is_import_error e \<longleftrightarrow> (case e of ImportError _ \<Rightarrow> True
     | Foreign c _ \<Rightarrow> c \<in> {''ModuleNotFoundError'', ''ZipImportError''} | _ \<Rightarrow> False)"

definition import_pack ::
  "('m, 'h, 'p, 'c, 'g, 'r) surroundings \<Rightarrow> string \<Rightarrow> path option \<Rightarrow> (('m, 'h, 's) interpreter_scheme, exn, 'm) prog" where
  "import_pack api name root =
     bnd (lift (case root of Some r \<Rightarrow> Inr r | None \<Rightarrow> packs_path api)) (\<lambda>r.
     bnd (ensure_importable api r) (\<lambda>_.
       try_except (outside (import_module api (''packs.'' @ name)))
         (\<lambda>e. if is_import_error e
              then throw (PackHarnessError (''could not import packs.'' @ name @ '': '' @ exn_text e))
              else throw e)))"

section \<open>The handle\<close>

record 'r surreal_pack_runtime =
  pr_config :: surreal_config
  pr_run_id :: string
  pr_scope :: string
  pr_runtime :: 'r

text \<open>\<open>SurrealPackRuntime.close\<close>; the handle's two stores are those of the process.\<close>

definition pack_runtime_close :: "('x, 'z) env_scheme \<Rightarrow> ('s workspace_scheme, exn, unit) prog" where
  "pack_runtime_close E = try_finally (on_events (es_close E)) (on_graph (gs_close E))"

section \<open>Loading\<close>

text \<open>What one iteration of \<open>_load_modules\<close> does.\<close>

definition load_module ::
  "('m, 'h, 'p, 'c, 'g, 'r) surroundings \<Rightarrow> 'r \<Rightarrow> (string \<Rightarrow> 'c option) \<Rightarrow> path option \<Rightarrow> string
    \<Rightarrow> (('m, 'h, 's) process_scheme, exn, unit) prog" where
  "load_module api rt sets root name =
     bnd (import_pack api name root) (\<lambda>m.
     case module_pack api m of
       None \<Rightarrow> throw (PackHarnessError (''packs.'' @ name @ '' does not export a '' @ py_repr ''pack''))
     | Some pk \<Rightarrow>
         bnd (outside (load_pack api rt pk (sets name))) (\<lambda>_.
           modify (\<lambda>w. if pack_name api pk \<in> set (loaded_packs w) then w
                       else w\<lparr>loaded_packs := loaded_packs w @ [pack_name api pk]\<rparr>)))"

definition load_modules ::
  "('m, 'h, 'p, 'c, 'g, 'r) surroundings \<Rightarrow> 'r \<Rightarrow> string list \<Rightarrow> (string \<Rightarrow> 'c option) \<Rightarrow> path option
    \<Rightarrow> (('m, 'h, 's) process_scheme, exn, unit) prog" where
  "load_modules api rt modules sets root = for_each (load_module api rt sets root) modules"

section \<open>Building\<close>

text \<open>\<open>with ExitStack()\<close>: whatever the block ends with, the callbacks run, the last registered first.\<close>

fun run_callback :: "('x, 'z) env_scheme \<Rightarrow> callback \<Rightarrow> (('m, 'h, 's) process_scheme, exn, unit) prog" where
  "run_callback E CloseEvents = on_events (es_close E)"
| "run_callback E CloseGraph = on_graph (gs_close E)"

fun unwind :: "('x, 'z) env_scheme \<Rightarrow> callback list \<Rightarrow> exn + 'a \<Rightarrow> (('m, 'h, 's) process_scheme, exn, 'a) prog" where
  "unwind E [] r = lift r"
| "unwind E (c # cs) r = (\<lambda>w. case run_callback E c w of
     (Inl e, w') \<Rightarrow> unwind E cs (Inl e) w'
   | (Inr _, w') \<Rightarrow> unwind E cs r w')"

definition with_exit_stack ::
  "('x, 'z) env_scheme \<Rightarrow> (('m, 'h, 's) process_scheme, exn, 'a) prog \<Rightarrow> (('m, 'h, 's) process_scheme, exn, 'a) prog" where
  "with_exit_stack E p = (\<lambda>w. case p (w\<lparr>exit_stack := []\<rparr>) of (r, w') \<Rightarrow> unwind E (rev (exit_stack w')) r w')"

text \<open>The body of the \<open>with\<close> of \<open>build_runtime\<close>.\<close>

definition build_body ::
  "('x, 'z) env_scheme \<Rightarrow> ('m, 'h, 'p, 'c, 'g, 'r) surroundings \<Rightarrow> surreal_config \<Rightarrow> string \<Rightarrow> string
    \<Rightarrow> string list \<Rightarrow> (string \<Rightarrow> 'c option) option \<Rightarrow> path option
    \<Rightarrow> (('m, 'h, 's) process_scheme, exn, 'r surreal_pack_runtime) prog" where
  "build_body E api c rid sc modules sets root =
     bnd (new_event_store E c rid sc) (\<lambda>es.
     bnd (modify (\<lambda>w. w\<lparr>events_obj := es, exit_stack := exit_stack w @ [CloseEvents]\<rparr>)) (\<lambda>_.
     bnd (new_graph_store E c rid sc) (\<lambda>gs.
     bnd (modify (\<lambda>w. w\<lparr>graph_obj := gs, exit_stack := exit_stack w @ [CloseGraph]\<rparr>)) (\<lambda>_.
     bnd (outside (make_graph api rid)) (\<lambda>g.
     bnd (outside (make_runtime api g)) (\<lambda>rt.
     bnd (modify (\<lambda>w. w\<lparr>loaded_packs := []\<rparr>)) (\<lambda>_.
     bnd (load_modules api rt modules (case sets of None \<Rightarrow> \<lambda>_. None | Some m \<Rightarrow> m) root) (\<lambda>_.
     bnd (modify (\<lambda>w. w\<lparr>exit_stack := []\<rparr>)) (\<lambda>_.
       ret \<lparr>pr_config = c, pr_run_id = rid, pr_scope = sc, pr_runtime = rt\<rparr>)))))))))"

definition build_runtime ::
  "('x, 'z) env_scheme \<Rightarrow> ('m, 'h, 'p, 'c, 'g, 'r) surroundings \<Rightarrow> surreal_config \<Rightarrow> string \<Rightarrow> string
    \<Rightarrow> string list \<Rightarrow> (string \<Rightarrow> 'c option) option \<Rightarrow> path option
    \<Rightarrow> (('m, 'h, 's) process_scheme, exn, 'r surreal_pack_runtime) prog" where
  "build_runtime E api c rid sc modules sets root =
     with_exit_stack E (build_body E api c rid sc modules sets root)"

end
