(* ===== verification/Scripts.thy ===== *)
theory Scripts
  imports Harness
begin

text \<open>
  The two runnable scripts under \<open>examples/\<close>, as programs on the process they run in: \<open>required_environment\<close>
  and the configuration both begin with, the printed JSON, and \<open>main\<close> of \<open>combined_store_pack.py\<close>. What the
  scripts do with ActiveGraph's \<open>Runtime\<close> and \<open>Graph\<close> are parameters.
\<close>

section \<open>The environment\<close>

definition required_environment :: "(string \<Rightarrow> string option) \<Rightarrow> string \<Rightarrow> exn + string" where
  "required_environment vars name =
     (let v = py_strip (case vars name of None \<Rightarrow> [] | Some v \<Rightarrow> v) in
      if v = [] then Inl (Foreign ''SystemExit'' (name @ '' is required; export the values from .env first''))
      else Inr v)"

definition environment_or :: "(string \<Rightarrow> string option) \<Rightarrow> string \<Rightarrow> string \<Rightarrow> string" where
  "environment_or vars name fallback = (case vars name of None \<Rightarrow> fallback | Some v \<Rightarrow> v)"

definition script_config :: "(string \<Rightarrow> string option) \<Rightarrow> exn + surreal_config" where
  "script_config vars =
     and_then (required_environment vars ''ACTIVEGRAPH_SURREALDB_TEST_PASSWORD'') (\<lambda>pw.
       make_config (environment_or vars ''ACTIVEGRAPH_SURREALDB_TEST_URL'' ''ws://127.0.0.1:8000'')
         (environment_or vars ''ACTIVEGRAPH_SURREALDB_TEST_NAMESPACE'' ''activegraph'')
         (environment_or vars ''ACTIVEGRAPH_SURREALDB_TEST_DATABASE'' ''provider_test'')
         (environment_or vars ''ACTIVEGRAPH_SURREALDB_TEST_USERNAME'' ''root'') pw)"

section \<open>Printing\<close>

text \<open>\<open>json.dumps(v, indent=2, ensure_ascii=False, sort_keys=True)\<close>, of a value at nesting depth \<open>n\<close>.\<close>

definition new_line :: "nat \<Rightarrow> string" where
  "new_line n = CHR 0x0A # replicate (2 * n) (CHR '' '')"

definition indented :: "nat \<Rightarrow> string \<Rightarrow> string \<Rightarrow> string list \<Rightarrow> string" where
  "indented n l r xs =
     (if xs = [] then l @ r
      else l @ new_line (Suc n) @ join ('','' @ new_line (Suc n)) xs @ new_line n @ r)"

fun dumps_indented :: "nat \<Rightarrow> json \<Rightarrow> string" where
  "dumps_indented n (JLeaf a) = write_scalar a"
| "dumps_indented n (JArr xs) = indented n ''['' '']'' (map (dumps_indented (Suc n)) xs)"
| "dumps_indented n (JObj kvs) = indented n ''{'' ''}''
     (map (\<lambda>(k, t). write_string k @ '': '' @ t)
       (sort_key fst (map (\<lambda>kv. (fst kv, dumps_indented (Suc n) (snd kv))) kvs)))"

definition texts :: "string list \<Rightarrow> json" where
  "texts xs = JArr (map (\<lambda>x. JLeaf (SStr x)) xs)"

definition number :: "int \<Rightarrow> json" where
  "number n = JLeaf (SInt n)"

definition py_assert :: "bool \<Rightarrow> string \<Rightarrow> ('s, exn, unit) prog" where
  "py_assert b m = (if b then ret () else throw (Foreign ''AssertionError'' m))"

section \<open>\<open>combined_store_pack.py\<close>\<close>

record ('m, 'h) script_process = "('m, 'h) process" +
  printed :: "string list"

text \<open>What the script uses of ActiveGraph; \<open>match_chain\<close> is the inherited method of the graph store.\<close>

record 'x chain =
  chain_objects :: "'x object list"
  chain_relations :: "'x relation list"

record ('m, 'h, 'r, 'x) script_api =
  add_object :: "'r \<Rightarrow> string \<Rightarrow> 'x pyval \<Rightarrow> (('m, 'h) interpreter, exn, 'x object) prog"
  run_until_idle :: "'r \<Rightarrow> (('m, 'h) interpreter, exn, unit) prog"
  match_chain :: "string option list \<Rightarrow> (string \<times> string) list \<Rightarrow> (graph_store, exn, 'x chain list) prog"

definition meeting_note :: "'x pyval" where
  "meeting_note = PDict
     [(''kind'', PLeaf (SStr ''meeting_note'')),
      (''content'', PLeaf (SStr (''The team decided to ship the release on Friday. ''
        @ ''We prefer dark mode in every editor.'')))]"

record 'x findings =
  log_events :: "'x event list"
  observations :: "'x object list"
  memory_candidates :: "'x object list"
  reachable_objects :: "'x object list"
  reachable_relations :: "'x relation list"
  grounds :: "'x relation list"
  chains :: "'x chain list"
  sources :: nat

definition chain_ids :: "'x chain \<Rightarrow> string list \<times> string list" where
  "chain_ids c = (map ob_id (chain_objects c), map re_id (chain_relations c))"

definition combined_trace :: "string \<Rightarrow> string list \<Rightarrow> 'x findings \<Rightarrow> json" where
  "combined_trace sc packs f = JObj
     [(''scope'', JLeaf (SStr sc)),
      (''packs_loaded'', texts packs),
      (''event_log'', JObj
        [(''count'', number (int (length (log_events f)))),
         (''types'', texts (sort (remdups (map ev_type (log_events f)))))]),
      (''projection'', JObj [(''objects'', JObj
        [(''source'', number (int (sources f))),
         (''observation'', number (int (length (observations f)))),
         (''memory_candidate'', number (int (length (memory_candidates f))))])]),
      (''pushdown'', JObj
        [(''neighborhood_objects'', texts (sort (map ob_id (reachable_objects f)))),
         (''neighborhood_relations'', texts (sort (map re_id (reachable_relations f)))),
         (''grounds_relations'', texts (sort (map re_id (grounds f)))),
         (''grounds_chains'', JArr (map (\<lambda>(os, rs). JArr [texts os, texts rs]) (sort (map chain_ids (chains f)))))])]"

text \<open>\<open>any(chain.objects[0].id == i for chain in chains)\<close>\<close>

fun starts_at :: "string \<Rightarrow> 'x chain list \<Rightarrow> exn + bool" where
  "starts_at i [] = Inr False"
| "starts_at i (c # cs) =
     (case chain_objects c of
        [] \<Rightarrow> Inl (Foreign ''IndexError'' ''index out of range'')
      | x # _ \<Rightarrow> if ob_id x = i then Inr True else starts_at i cs)"

definition combined_asserts :: "string \<Rightarrow> 'x findings \<Rightarrow> ('s, exn, unit) prog" where
  "combined_asserts i f =
     bnd (py_assert (log_events f \<noteq> []) ''the runtime should have appended events'') (\<lambda>_.
     bnd (py_assert (''object.created'' \<in> ev_type ` set (log_events f)) []) (\<lambda>_.
     bnd (py_assert (observations f \<noteq> []) ''observation_extractor should create observations'') (\<lambda>_.
     bnd (py_assert (grounds f \<noteq> []) ''observations should be grounded in the source'') (\<lambda>_.
     bnd (lift (starts_at i (chains f))) (\<lambda>there.
     bnd (py_assert there []) (\<lambda>_.
       py_assert (i \<in> ob_id ` set (reachable_objects f)) []))))))"

text \<open>The body of the \<open>try\<close> of \<open>main\<close>; the handle's stores are those of the process.\<close>

definition combined_body ::
  "('x, 'z) env_scheme \<Rightarrow> ('m, 'h, 'r, 'x) script_api \<Rightarrow> string \<Rightarrow> 'r surreal_pack_runtime
    \<Rightarrow> (('m, 'h, 's) script_process_scheme, exn, int) prog" where
  "combined_body E act sc h =
     bnd (outside (add_object act (pr_runtime h) ''source'' meeting_note)) (\<lambda>src.
     bnd (outside (run_until_idle act (pr_runtime h))) (\<lambda>_.
     bnd (on_events (iter_events E None None)) (\<lambda>events.
     bnd (on_graph (find_objects E (Some ''observation''))) (\<lambda>obs.
     bnd (on_graph (find_objects E (Some ''memory_candidate''))) (\<lambda>memories.
     bnd (on_graph (neighborhood E (ob_id src) 2)) (\<lambda>(objs, rels).
     bnd (on_graph (find_relations E (Some (ob_id src)) None (Some ''grounds''))) (\<lambda>gr.
     bnd (on_graph (match_chain act [None, None] [(''grounds'', ''right'')])) (\<lambda>cs.
     bnd (get_state loaded_packs) (\<lambda>packs.
     bnd (on_graph (find_objects E (Some ''source''))) (\<lambda>srcs.
     let f = \<lparr>log_events = events, observations = obs, memory_candidates = memories, reachable_objects = objs,
              reachable_relations = rels, grounds = gr, chains = cs, sources = length srcs\<rparr> in
     bnd (combined_asserts (ob_id src) f) (\<lambda>_.
     bnd (modify (\<lambda>w. w\<lparr>printed := printed w @ [dumps_indented 0 (combined_trace sc packs f)]\<rparr>)) (\<lambda>_.
       ret 0))))))))))))"

definition combined_main ::
  "('x, 'z) env_scheme \<Rightarrow> ('m, 'h, 'p, 'c, 'g, 'r) surroundings \<Rightarrow> ('m, 'h, 'r, 'x) script_api \<Rightarrow> string
    \<Rightarrow> (('m, 'h, 's) script_process_scheme, exn, int) prog" where
  "combined_main E api act uuid =
     bnd (try_except (lift (packs_path api))
           (\<lambda>e. case e of PackHarnessError m \<Rightarrow> throw (Foreign ''SystemExit'' m) | _ \<Rightarrow> throw e)) (\<lambda>root.
     bnd (lift (script_config (getenv api))) (\<lambda>c.
     (let sc = ''combined_'' @ uuid in
     bnd (build_runtime E api c ''run'' sc [''core''] None (Some root)) (\<lambda>h.
       try_finally (combined_body E act sc h) (pack_runtime_close E)))))"

section \<open>\<open>replay_fork_diff.py\<close>\<close>

text \<open>
  The four stores of one process. A program on one pair of them sees a \<open>workspace\<close>. An ActiveGraph object
  is the value it has: an operation that changes it returns it changed.
\<close>

record four_stores = server +
  parent_events :: event_store
  parent_projection :: graph_store
  child_events :: event_store
  child_projection :: graph_store

datatype resource = ParentEvents | ParentProjection | ChildEvents | ChildProjection

record experiment_process = four_stores +
  resources :: "resource list"
  console :: "string list"

definition parent_side :: "'s four_stores_scheme \<Rightarrow> workspace" where
  "parent_side w = \<lparr>db = db w, tick = tick w, events_obj = parent_events w, graph_obj = parent_projection w\<rparr>"

definition child_side :: "'s four_stores_scheme \<Rightarrow> workspace" where
  "child_side w = \<lparr>db = db w, tick = tick w, events_obj = child_events w, graph_obj = child_projection w\<rparr>"

definition with_parent :: "workspace \<Rightarrow> 's four_stores_scheme \<Rightarrow> 's four_stores_scheme" where
  "with_parent v w = w\<lparr>db := db v, tick := tick v, parent_events := events_obj v, parent_projection := graph_obj v\<rparr>"

definition with_child :: "workspace \<Rightarrow> 's four_stores_scheme \<Rightarrow> 's four_stores_scheme" where
  "with_child v w = w\<lparr>db := db v, tick := tick v, child_events := events_obj v, child_projection := graph_obj v\<rparr>"

definition on_parent :: "(workspace, exn, 'a) prog \<Rightarrow> ('s four_stores_scheme, exn, 'a) prog" where
  "on_parent p = (\<lambda>w. case p (parent_side w) of (r, v) \<Rightarrow> (r, with_parent v w))"

definition on_child :: "(workspace, exn, 'a) prog \<Rightarrow> ('s four_stores_scheme, exn, 'a) prog" where
  "on_child p = (\<lambda>w. case p (child_side w) of (r, v) \<Rightarrow> (r, with_child v w))"

lemma sides [simp]:
  "db (with_parent v w) = db v" "parent_events (with_parent v w) = events_obj v"
  "parent_projection (with_parent v w) = graph_obj v" "child_events (with_parent v w) = child_events w"
  "child_projection (with_parent v w) = child_projection w"
  "db (with_child v w) = db v" "child_events (with_child v w) = events_obj v"
  "child_projection (with_child v w) = graph_obj v" "parent_events (with_child v w) = parent_events w"
  "parent_projection (with_child v w) = parent_projection w"
  "events_obj (parent_side w) = parent_events w" "graph_obj (parent_side w) = parent_projection w"
  "events_obj (child_side w) = child_events w" "graph_obj (child_side w) = child_projection w"
  by (cases w; simp add: with_parent_def with_child_def parent_side_def child_side_def)+

definition on_both :: "(four_stores, exn, 'a) prog \<Rightarrow> ('s four_stores_scheme, exn, 'a) prog" where
  "on_both p = (\<lambda>w. case p (four_stores.truncate w) of (r, v) \<Rightarrow>
     (r, w\<lparr>db := db v, tick := tick v, parent_events := parent_events v, parent_projection := parent_projection v,
           child_events := child_events v, child_projection := child_projection v\<rparr>))"

text \<open>What the script uses of ActiveGraph's \<open>Runtime\<close> and \<open>Graph\<close>, and \<open>==\<close> of payloads.\<close>

record difference =
  shared_events :: "string list"
  parent_only_events :: "string list"
  fork_only_events :: "string list"
  divergent_objects :: "string list"

record ('g, 'r, 'x) experiment_api =
  start_runtime :: "'g \<Rightarrow> (workspace, exn, 'r) prog"
  runtime_graph :: "'r \<Rightarrow> 'g"
  graph_events :: "'g \<Rightarrow> 'x event list"
  new_object :: "'r \<Rightarrow> string \<Rightarrow> 'x pyval \<Rightarrow> (workspace, exn, 'x object \<times> 'r) prog"
  patch_object :: "'r \<Rightarrow> string \<Rightarrow> 'x pyval \<Rightarrow> (workspace, exn, 'r) prog"
  runtime_diff :: "'r \<Rightarrow> 'r \<Rightarrow> (four_stores, exn, difference) prog"
  graph_objects :: "'g \<Rightarrow> (workspace, exn, 'x object list) prog"
  graph_object :: "'g \<Rightarrow> string \<Rightarrow> (workspace, exn, 'x object option) prog"
  same_value :: "'x pyval \<Rightarrow> 'x pyval \<Rightarrow> bool"

type_synonym 'x snapshot_entry = "string \<times> string \<times> 'x pyval"

definition same_entry :: "('g, 'r, 'x) experiment_api \<Rightarrow> 'x snapshot_entry \<Rightarrow> 'x snapshot_entry \<Rightarrow> bool" where
  "same_entry act a b \<longleftrightarrow> fst a = fst b \<and> fst (snd a) = fst (snd b) \<and> same_value act (snd (snd a)) (snd (snd b))"

text \<open>\<open>sorted\<close> compares payloads only between entries of one id and type, and two dicts have no order.\<close>

fun comparable :: "('g, 'r, 'x) experiment_api \<Rightarrow> 'x snapshot_entry list \<Rightarrow> bool" where
  "comparable act [] = True"
| "comparable act (a # as) =
     (list_all (\<lambda>b. fst a = fst b \<and> fst (snd a) = fst (snd b) \<longrightarrow> same_entry act a b) as \<and> comparable act as)"

definition graph_snapshot ::
  "('g, 'r, 'x) experiment_api \<Rightarrow> 'g \<Rightarrow> (workspace, exn, 'x snapshot_entry list) prog" where
  "graph_snapshot act g =
     bnd (graph_objects act g) (\<lambda>objs.
     (let entries = map (\<lambda>x. (ob_id x, ob_type x, ob_data x)) objs in
      if comparable act entries then ret (sort_key (\<lambda>a. (fst a, fst (snd a))) entries)
      else throw (TypeError ''dicts are not ordered'')))"

definition last_event_id :: "'x event list \<Rightarrow> exn + string" where
  "last_event_id evs =
     (if evs = [] then Inl (Foreign ''IndexError'' ''list index out of range'') else Inr (ev_id (last evs)))"

definition ghost :: "'x object" where
  "ghost = \<lparr>ob_id = ''ghost#not-in-events'', ob_type = ''ghost'',
     ob_data = PDict [(''should_survive'', PLeaf (SBool False))], ob_version = 1, ob_provenance = PDict []\<rparr>"

definition resolved :: "string \<Rightarrow> 'x pyval" where
  "resolved x = PDict [(''resolution'', PLeaf (SStr x))]"

record outcome_of_run =
  fork_point :: string
  decision_id :: string
  difference :: difference
  rebuilt_exactly :: bool
  ghost_removed :: bool
  final_status :: string
  integrity :: integrity_report

definition experiment_trace :: "string \<Rightarrow> outcome_of_run \<Rightarrow> json" where
  "experiment_trace sc o' = JObj
     [(''scope'', JLeaf (SStr sc)),
      (''fork'', JObj
        [(''shared_event_ids'', texts (shared_events (difference o'))),
         (''parent_only_event_ids'', texts (parent_only_events (difference o'))),
         (''fork_only_event_ids'', texts (fork_only_events (difference o'))),
         (''divergent_object_ids'', texts (divergent_objects (difference o')))]),
      (''projection'', JObj
        [(''rebuilt_exactly'', JLeaf (SBool (rebuilt_exactly o'))),
         (''ghost_removed'', JLeaf (SBool (ghost_removed o'))),
         (''status'', JLeaf (SStr (final_status o')))]),
      (''event_log'', JObj
        [(''event_count'', number (event_count (integrity o'))),
         (''next_sequence'', number (report_next_seq (integrity o'))),
         (''head_hash'', JLeaf (case report_head_hash (integrity o') of None \<Rightarrow> SNull | Some h \<Rightarrow> SStr h))])]"

definition experiment_asserts :: "outcome_of_run \<Rightarrow> ('s, exn, unit) prog" where
  "experiment_asserts o' =
     bnd (py_assert (shared_events (difference o') = [fork_point o']) []) (\<lambda>_.
     bnd (py_assert (parent_only_events (difference o') \<noteq> []) []) (\<lambda>_.
     bnd (py_assert (fork_only_events (difference o') \<noteq> []) []) (\<lambda>_.
     bnd (py_assert (divergent_objects (difference o') = [decision_id o']) []) (\<lambda>_.
       py_assert (rebuilt_exactly o' \<and> ghost_removed o' \<and> final_status o' = ''ready'') []))))"

text \<open>Lines 47 to 70: the parent with its one decision, the fork at it, and the fork's own pair of stores.\<close>

definition open_parent ::
  "('x, 'z) env_scheme \<Rightarrow> ('x, 'g) graph_api \<Rightarrow> ('g, 'r, 'x) experiment_api \<Rightarrow> surreal_config \<Rightarrow> string
    \<Rightarrow> ('s experiment_process_scheme, exn, 'r) prog" where
  "open_parent E gapi act c sc =
     bnd (new_event_store E c ''parent'' sc) (\<lambda>es.
     bnd (modify (\<lambda>w. w\<lparr>parent_events := es, resources := resources w @ [ParentEvents]\<rparr>)) (\<lambda>_.
     bnd (new_graph_store E c ''parent'' sc) (\<lambda>gs.
     bnd (modify (\<lambda>w. w\<lparr>parent_projection := gs, resources := resources w @ [ParentProjection]\<rparr>)) (\<lambda>_.
     bnd (on_parent (replay_graph E gapi)) (\<lambda>g.
       on_parent (start_runtime act g))))))"

definition open_child ::
  "('x, 'z) env_scheme \<Rightarrow> ('x, 'g) graph_api \<Rightarrow> ('g, 'r, 'x) experiment_api \<Rightarrow> surreal_config \<Rightarrow> string
    \<Rightarrow> string \<Rightarrow> ('s experiment_process_scheme, exn, 'r) prog" where
  "open_child E gapi act c sc at =
     bnd (on_parent (on_events (fork_event_store E ''alternate'' at (Some ''alternate review outcome'')))) (\<lambda>es.
     bnd (modify (\<lambda>w. w\<lparr>child_events := es, resources := resources w @ [ChildEvents]\<rparr>)) (\<lambda>_.
     bnd (new_graph_store E c ''alternate'' sc) (\<lambda>gs.
     bnd (modify (\<lambda>w. w\<lparr>child_projection := gs, resources := resources w @ [ChildProjection]\<rparr>)) (\<lambda>_.
     bnd (on_child (replay_graph E gapi)) (\<lambda>g.
       on_child (start_runtime act g))))))"

definition experiment_body ::
  "('x, 'z) env_scheme \<Rightarrow> ('x, 'g) graph_api \<Rightarrow> ('g, 'r, 'x) experiment_api \<Rightarrow> surreal_config \<Rightarrow> string
    \<Rightarrow> ('s experiment_process_scheme, exn, int) prog" where
  "experiment_body E gapi act c sc =
     bnd (open_parent E gapi act c sc) (\<lambda>parent.
     bnd (on_parent (new_object act parent ''decision'' (PDict
            [(''subject'', PLeaf (SStr ''synthetic-case'')), (''resolution'', PLeaf (SStr ''unreviewed''))]))) (\<lambda>(decision, parent).
     bnd (lift (last_event_id (graph_events act (runtime_graph act parent)))) (\<lambda>at.
     bnd (open_child E gapi act c sc at) (\<lambda>child.
     bnd (on_parent (patch_object act parent (ob_id decision) (resolved ''accept''))) (\<lambda>parent.
     bnd (on_child (patch_object act child (ob_id decision) (resolved ''needs_review''))) (\<lambda>child.
     bnd (on_both (runtime_diff act parent child)) (\<lambda>diff.
     bnd (on_parent (graph_snapshot act (runtime_graph act parent))) (\<lambda>before.
     bnd (on_parent (on_graph (put_object E ghost))) (\<lambda>_.
     bnd (on_parent (replay_graph E gapi)) (\<lambda>rebuilt.
     bnd (on_parent (graph_snapshot act rebuilt)) (\<lambda>after.
     bnd (on_parent (on_events (verify_integrity E))) (\<lambda>report.
     bnd (on_parent (graph_object act rebuilt ''ghost#not-in-events'')) (\<lambda>left.
     bnd (on_parent (on_graph (projection_status E))) (\<lambda>st.
     let o' = \<lparr>fork_point = at, decision_id = ob_id decision, difference = diff,
                rebuilt_exactly = list_all2 (same_entry act) before after, ghost_removed = (left = None),
                final_status = st, integrity = report\<rparr> in
     bnd (experiment_asserts o') (\<lambda>_.
     bnd (modify (\<lambda>w. w\<lparr>console := console w @ [dumps_indented 0 (experiment_trace sc o')]\<rparr>)) (\<lambda>_.
       ret 0))))))))))))))))"

fun close_resource :: "('x, 'z) env_scheme \<Rightarrow> resource \<Rightarrow> ('s four_stores_scheme, exn, unit) prog" where
  "close_resource E ParentEvents = on_parent (on_events (es_close E))"
| "close_resource E ParentProjection = on_parent (on_graph (gs_close E))"
| "close_resource E ChildEvents = on_child (on_events (es_close E))"
| "close_resource E ChildProjection = on_child (on_graph (gs_close E))"

definition close_resources :: "('x, 'z) env_scheme \<Rightarrow> ('s experiment_process_scheme, exn, unit) prog" where
  "close_resources E = with_self (\<lambda>w. for_each (close_resource E) (rev (resources w)))"

definition experiment_main ::
  "('x, 'z) env_scheme \<Rightarrow> ('x, 'g) graph_api \<Rightarrow> ('g, 'r, 'x) experiment_api \<Rightarrow> (string \<Rightarrow> string option) \<Rightarrow> string
    \<Rightarrow> ('s experiment_process_scheme, exn, int) prog" where
  "experiment_main E gapi act vars uuid =
     bnd (lift (script_config vars)) (\<lambda>c.
     bnd (modify (\<lambda>w. w\<lparr>resources := []\<rparr>)) (\<lambda>_.
       try_finally (experiment_body E gapi act c (''experiment_'' @ uuid)) (close_resources E)))"

end
