(* ===== verification/HarnessTheorems.thy ===== *)
theory HarnessTheorems
  imports Harness Closing RuntimeTheorems
begin

text \<open>
  The properties of the pack harness: both stores are closed when building fails or the handle is
  closed, which checkout a pack is imported from, and what is listed as loaded.
\<close>

lemma workspace_fields [simp]:
  "db (w\<lparr>events_obj := es\<rparr>) = db w" "tick (w\<lparr>events_obj := es\<rparr>) = tick w"
  "db (w\<lparr>graph_obj := gs\<rparr>) = db w" "tick (w\<lparr>graph_obj := gs\<rparr>) = tick w"
  by (cases w; simp)+

section \<open>A process for the witnesses\<close>

text \<open>
  Every entry of \<open>sys.path\<close> holds a checkout; a module is its checkout's path and its name, and
  exports its name as pack, the module \<open>broken\<close> none.
\<close>

definition sample_surroundings :: "(string \<times> string, unit, string, unit, unit, unit) surroundings" where
  "sample_surroundings =
     \<lparr>getenv = (\<lambda>_. None), home_directory = (\<lambda>h. h), is_dir = (\<lambda>_. Inr True), resolve = Inr,
      import_module = (\<lambda>name i. case search_path i of
          [] \<Rightarrow> (Inl (ImportError ''no packs''), i)
        | entry # _ \<Rightarrow> (Inr (entry, drop 6 name), i\<lparr>module_table := module_table i @
            (''packs'', Some (entry, [])) # [(name, Some (entry, drop 6 name))]\<rparr>)),
      module_path = (\<lambda>m. [path_text (packs_dir (path_of (fst m)))]),
      module_pack = (\<lambda>m. if snd m = ''broken'' then None else Some (snd m)), pack_name = (\<lambda>p. p),
      make_graph = (\<lambda>_ i. (Inr (), i)), make_runtime = (\<lambda>_ i. (Inr (), i)),
      load_pack = (\<lambda>_ _ _ i. (Inr (), i))\<rparr>"

lemma sample_surroundings_fields [simp]:
  "is_dir sample_surroundings p = Inr True" "resolve sample_surroundings p = Inr p"
  "module_path sample_surroundings m = [path_text (packs_dir (path_of (fst m)))]"
  "module_pack sample_surroundings m = (if snd m = ''broken'' then None else Some (snd m))"
  "pack_name sample_surroundings pk = pk"
  by (simp_all add: sample_surroundings_def)

definition sample_process :: "(string \<times> string, unit) process" where
  "sample_process =
     \<lparr>db = empty_tables, tick = 0, events_obj = sample_store, graph_obj = sample_graph,
      search_path = [''/lib''], module_table = [(''sys'', None)], activegraph = (), exit_stack = [], loaded_packs = []\<rparr>"

definition checkout :: "string \<Rightarrow> path" where
  "checkout name = \<lparr>path_root = ''/'', path_parts = [name]\<rparr>"

section \<open>Closing\<close>

lemma run_callback_closes:
  assumes "run_callback E c w = (r, w')"
  shows "c = CloseEvents \<or> es_closed (events_obj w) \<Longrightarrow> es_closed (events_obj w')"
    and "c = CloseGraph \<or> gs_closed (graph_obj w) \<Longrightarrow> gs_closed (graph_obj w')"
  using assms by (cases c; auto simp: on_events_def on_graph_def split: prod.splits dest: event_closing.closes graph_closing.closes)+

lemma unwind_closes:
  "unwind E cs r w = (r', w') \<Longrightarrow>
   (CloseEvents \<in> set cs \<or> es_closed (events_obj w) \<longrightarrow> es_closed (events_obj w'))
   \<and> (CloseGraph \<in> set cs \<or> gs_closed (graph_obj w) \<longrightarrow> gs_closed (graph_obj w'))
   \<and> (cs = [] \<longrightarrow> w' = w) \<and> (r' = Inr x \<longrightarrow> r = Inr x)"
proof (induction cs arbitrary: r w)
  case Nil
  then show ?case by (simp add: lift_def)
next
  case (Cons c cs)
  obtain q w1 where c: "run_callback E c w = (q, w1)" by fastforce
  note IH = Cons.IH[of r w1] Cons.IH[of "Inl e" w1 for e]
  show ?case
    using Cons.prems run_callback_closes[OF c] IH by (cases q) (auto simp: c)
qed

text \<open>What runs on the stores, the server or the interpreter leaves the exit stack alone.\<close>

definition keeps_stack :: "(('m, 'h, 's) process_scheme, exn, 'a) prog \<Rightarrow> bool" where
  "keeps_stack p \<longleftrightarrow> (\<forall>w. exit_stack (snd (p w)) = exit_stack w)"

named_theorems keeps_stack_intros "programs that leave the exit stack alone"

lemma keeps_stackD: "keeps_stack p \<Longrightarrow> p w = (r, w') \<Longrightarrow> exit_stack w' = exit_stack w"
  by (metis keeps_stack_def snd_conv)

lemma keeps_stack_basic [keeps_stack_intros]:
  "keeps_stack (ret x)" "keeps_stack (throw e)" "keeps_stack (lift r)" "keeps_stack (outside p)"
  "keeps_stack (making fresh q)"
  by (auto simp: keeps_stack_def ret_def throw_def lift_def outside_def with_interpreter_def making_def
      split: prod.split sum.split)

lemma keeps_stack_modify [keeps_stack_intros]: "(\<And>w. exit_stack (f w) = exit_stack w) \<Longrightarrow> keeps_stack (modify f)"
  by (simp add: keeps_stack_def modify_def)

lemma keeps_stack_bnd [keeps_stack_intros]: "\<lbrakk>keeps_stack p; \<And>x. keeps_stack (f x)\<rbrakk> \<Longrightarrow> keeps_stack (bnd p f)"
  unfolding keeps_stack_def bnd_def by (auto split: prod.split sum.split) (metis snd_conv)+

lemma keeps_stack_try_except [keeps_stack_intros]:
  "\<lbrakk>keeps_stack p; \<And>e. keeps_stack (h e)\<rbrakk> \<Longrightarrow> keeps_stack (try_except p h)"
  unfolding keeps_stack_def try_except_def by (auto split: prod.split sum.split) (metis snd_conv)+

lemma keeps_stack_control [keeps_stack_intros]:
  "(\<And>t. keeps_stack (p t)) \<Longrightarrow> keeps_stack (with_self p)"
  "\<lbrakk>b \<Longrightarrow> keeps_stack q; \<not> b \<Longrightarrow> keeps_stack r\<rbrakk> \<Longrightarrow> keeps_stack (if b then q else r)"
  "\<lbrakk>keeps_stack q; \<And>x. keeps_stack (f x)\<rbrakk> \<Longrightarrow> keeps_stack (case z of None \<Rightarrow> q | Some x \<Rightarrow> f x)"
  by (auto simp: keeps_stack_def with_self_def split: option.split)

lemma keeps_stack_for_each [keeps_stack_intros]: "(\<And>x. keeps_stack (f x)) \<Longrightarrow> keeps_stack (for_each f xs)"
  by (induction xs) (auto intro: keeps_stack_intros)

lemma keeps_stack_import [keeps_stack_intros]: "keeps_stack (import_pack api name root)"
  unfolding import_pack_def ensure_importable_def evict_foreign_packs_def
  by (intro keeps_stack_intros) simp_all

lemma keeps_stack_load [keeps_stack_intros]: "keeps_stack (load_modules api rt modules sets root)"
  unfolding load_modules_def load_module_def by (intro keeps_stack_intros) simp

text \<open>The callbacks that are registered when the body of \<open>build_runtime\<close> ends.\<close>

lemma made_same:
  assumes "db w = db u" and "tick w = tick u"
  shows "fst (new_event_store E c rid sc w) = fst (new_event_store E c rid sc u)"
    and "fst (new_graph_store E c rid sc w) = fst (new_graph_store E c rid sc u)"
  using assms by (auto simp: new_event_store_def new_graph_store_def making_def fresh_event_store_def
      fresh_graph_store_def split: prod.split sum.split)

lemma build_body_ends:
  fixes w :: "('m, 'h, 's) process_scheme" and api :: "('m, 'h, 'p, 'c, 'g, 'r) surroundings"
  assumes "build_body E api c rid sc modules sets root (w\<lparr>exit_stack := []\<rparr>) = (r, w')"
  shows "case new_event_store E c rid sc w of
      (Inl e, u) \<Rightarrow> r = Inl e \<and> exit_stack w' = []
    | (Inr es, u) \<Rightarrow> (case fst (new_graph_store E c rid sc u) of
          Inl e \<Rightarrow> r = Inl e \<and> exit_stack w' = [CloseEvents]
        | Inr gs \<Rightarrow> exit_stack w' = (case r of Inl _ \<Rightarrow> [CloseEvents, CloseGraph] | Inr _ \<Rightarrow> []))"
proof -
  let ?w0 = "w\<lparr>exit_stack := []\<rparr>"
  obtain r1 w1 where w1: "new_event_store E c rid sc ?w0 = (r1, w1)" by fastforce
  obtain u where u: "new_event_store E c rid sc w = (r1, u)" "db u = db w1" "tick u = tick w1"
    using w1 by (auto simp: new_event_store_def making_def fresh_event_store_def split: prod.splits sum.splits)
  have s1: "exit_stack w1 = []"
    using w1 keeps_stackD[OF keeps_stack_basic(5) w1[unfolded new_event_store_def]] by simp
  show ?thesis
  proof (cases r1)
    case (Inl e)
    then show ?thesis using assms w1 u s1 by (auto simp: build_body_def bnd_def)
  next
    case (Inr es)
    let ?v = "w1\<lparr>events_obj := es, exit_stack := [CloseEvents]\<rparr>"
    obtain r2 w2 where w2: "new_graph_store E c rid sc ?v = (r2, w2)" by fastforce
    have f: "fst (new_graph_store E c rid sc u) = r2"
    proof -
      have "db ?v = db u" "tick ?v = tick u" using u(2,3) by simp_all
      from made_same(2)[OF this, of E c rid sc] show ?thesis using w2 by simp
    qed
    have s2: "exit_stack w2 = [CloseEvents]"
      using keeps_stackD[OF keeps_stack_basic(5) w2[unfolded new_graph_store_def]] by simp
    show ?thesis
    proof (cases r2)
      case (Inl e)
      then show ?thesis using assms w1 u s1 s2 Inr w2 f by (auto simp: build_body_def bnd_def modify_def)
    next
      case r2: (Inr gs)
      define rest :: "(('m, 'h, 's) process_scheme, exn, 'r surreal_pack_runtime) prog" where
        "rest = bnd (outside (make_graph api rid)) (\<lambda>g.
         bnd (outside (make_runtime api g)) (\<lambda>rt.
         bnd (modify (\<lambda>w. w\<lparr>loaded_packs := []\<rparr>)) (\<lambda>_.
         bnd (load_modules api rt modules (case sets of None \<Rightarrow> \<lambda>_. None | Some m \<Rightarrow> m) root) (\<lambda>_.
           ret \<lparr>pr_config = c, pr_run_id = rid, pr_scope = sc, pr_runtime = rt\<rparr>))))"
      have "keeps_stack rest" unfolding rest_def by (intro keeps_stack_intros) simp
      moreover obtain r3 w3 where w3: "rest (w2\<lparr>graph_obj := gs, exit_stack := [CloseEvents, CloseGraph]\<rparr>) = (r3, w3)" by fastforce
      ultimately have s3: "exit_stack w3 = [CloseEvents, CloseGraph]" by (auto dest: keeps_stackD)
      have "(r, w') = (case r3 of Inl e \<Rightarrow> (Inl e, w3) | Inr h \<Rightarrow> (Inr h, w3\<lparr>exit_stack := []\<rparr>))"
        using assms w1 Inr w2 r2 s1 s2 w3
        by (auto simp: build_body_def rest_def bnd_def modify_def ret_def split: prod.splits sum.splits)
      then show ?thesis using u Inr f r2 s3 by (cases r3) auto
    qed
  qed
qed

lemma build_runtime_outcome:
  assumes "build_runtime E api c rid sc modules sets root w = (r, w')"
  shows "case r of
      Inr h \<Rightarrow> build_body E api c rid sc modules sets root (w\<lparr>exit_stack := []\<rparr>) = (Inr h, w')
    | Inl e \<Rightarrow> (case new_event_store E c rid sc w of
          (Inl e1, u) \<Rightarrow> e = e1
        | (Inr es, u) \<Rightarrow> es_closed (events_obj w')
            \<and> (case fst (new_graph_store E c rid sc u) of Inl _ \<Rightarrow> True | Inr gs \<Rightarrow> gs_closed (graph_obj w')))"
proof -
  obtain q v where body: "build_body E api c rid sc modules sets root (w\<lparr>exit_stack := []\<rparr>) = (q, v)" by fastforce
  note ends = build_body_ends[OF body]
  have un: "unwind E (rev (exit_stack v)) q v = (r, w')"
    using assms body by (simp add: build_runtime_def with_exit_stack_def)
  note closes = unwind_closes[OF un]
  show ?thesis
  proof (cases r)
    case (Inr h)
    then have "q = Inr h" using closes by blast
    moreover from this have "exit_stack v = []" using ends by (auto split: prod.splits sum.splits)
    ultimately show ?thesis using closes body Inr by simp
  next
    case (Inl e)
    then show ?thesis using ends closes un
      by (cases q) (auto simp: lift_def split: prod.splits sum.splits)
  qed
qed

text \<open>
  Property C26. \<open>build_runtime\<close> owns what it opens: if it returns, exactly its body ran, no store was
  closed; if it raises, for whatever reason, the event store, if it was made, is closed, and so is
  the graph store, if it was made, even when closing one of them raises; when a constructor raised,
  the error is the constructor's unless a close replaced it.
\<close>

theorem build_runtime_closes_on_failure:
  assumes "build_runtime E api c rid sc modules sets root w = (r, w')"
  shows "case r of
      Inr h \<Rightarrow> build_body E api c rid sc modules sets root (w\<lparr>exit_stack := []\<rparr>) = (Inr h, w')
    | Inl e \<Rightarrow> (case new_event_store E c rid sc w of
          (Inl e1, u) \<Rightarrow> e = e1
        | (Inr es, u) \<Rightarrow> es_closed (events_obj w')
            \<and> (case fst (new_graph_store E c rid sc u) of Inl _ \<Rightarrow> True | Inr gs \<Rightarrow> gs_closed (graph_obj w')))"
  by (rule build_runtime_outcome[OF assms])

text \<open>
  Closing a handle closes both stores, even when closing the event store raises; the
  graph store's error, if it raises one, is the one that comes out. Closing again returns and
  sends nothing.
\<close>

lemma pack_runtime_close_closes_both:
  assumes "pack_runtime_close E w = (r, w')"
  shows "es_closed (events_obj w') \<and> gs_closed (graph_obj w')
     \<and> r = (case fst (on_graph (gs_close E) (snd (on_events (es_close E) w))) of
            Inl e \<Rightarrow> Inl e | Inr _ \<Rightarrow> fst (on_events (es_close E) w))
     \<and> (\<exists>w''. pack_runtime_close E w' = (Inr (), w'') \<and> db w'' = db w' \<and> tick w'' = tick w')"
proof -
  obtain r1 o1 where e: "es_close E (events_now w) = (r1, o1)" by fastforce
  let ?w1 = "with_events o1 w"
  obtain r2 g2 where g: "gs_close E (graph_now ?w1) = (r2, g2)" by fastforce
  have run: "r = (case r2 of Inl e \<Rightarrow> Inl e | Inr _ \<Rightarrow> r1)" "w' = with_graph g2 ?w1"
    using assms e g by (auto simp: pack_runtime_close_def try_finally_def on_events_def on_graph_def split: sum.splits prod.splits)
  have closed: "es_closed (events_obj w')" "gs_closed (graph_obj w')"
    using event_closing.closes[OF e] graph_closing.closes[OF g] by (simp_all add: run)
  have again: "es_close E (events_now w') = (Inr (), events_now w')"
    using closed by (simp add: event_closing.stays)
  have again': "gs_close E (graph_now v) = (Inr (), graph_now v)" if "gs_closed (graph_obj v)" for v :: "'a workspace_scheme"
    using that by (simp add: graph_closing.stays)
  have "pack_runtime_close E w' = (Inr (), with_graph (graph_now (with_events (events_now w') w')) (with_events (events_now w') w'))"
    using again again'[of "with_events (events_now w') w'"] closed
    by (simp add: pack_runtime_close_def try_finally_def on_events_def on_graph_def)
  then show ?thesis using closed e g run by (auto simp: on_events_def on_graph_def split: sum.split)
qed

section \<open>Loading\<close>

definition first_occurrences :: "'a list \<Rightarrow> 'a list" where
  "first_occurrences xs = rev (remdups (rev xs))"

lemma first_occurrences_snoc:
  "first_occurrences (xs @ [x]) = (if x \<in> set xs then first_occurrences xs else first_occurrences xs @ [x])"
  by (simp add: first_occurrences_def)

lemma first_occurrences_props [simp]:
  "set (first_occurrences xs) = set xs" "distinct (first_occurrences xs)"
  "distinct xs \<Longrightarrow> first_occurrences xs = xs"
  by (simp_all add: first_occurrences_def distinct_remdups_id)

lemma first_occurrences_again: "first_occurrences (first_occurrences xs @ ys) = first_occurrences (xs @ ys)"
proof (induction ys rule: rev_induct)
  case (snoc y ys)
  then show ?case
    using first_occurrences_snoc[of "first_occurrences xs @ ys" y] first_occurrences_snoc[of "xs @ ys" y] by simp
qed simp

lemma outside_packs: "outside p w = (r, w') \<Longrightarrow> loaded_packs w' = loaded_packs w"
  by (auto simp: outside_def with_interpreter_def split: prod.splits)

lemma ensure_importable_packs: "ensure_importable api root w = (r, w') \<Longrightarrow> loaded_packs w' = loaded_packs w"
  by (auto simp: ensure_importable_def evict_foreign_packs_def bnd_def modify_def with_self_def ret_def lift_def
      split: if_splits prod.splits sum.splits option.splits)

lemma import_pack_Inr:
  assumes "import_pack api name root w = (Inr m, w')"
  obtains i i' where "import_module api (''packs.'' @ name) i = (Inr m, i')" and "loaded_packs w' = loaded_packs w"
proof -
  from assms obtain u where u: "loaded_packs u = loaded_packs w" "outside (import_module api (''packs.'' @ name)) u = (Inr m, w')"
    by (auto simp: import_pack_def bnd_def lift_def try_except_def throw_def split: sum.splits prod.splits option.splits if_splits
        dest: ensure_importable_packs)
  then show thesis using that outside_packs[OF u(2)] by (auto simp: outside_def split: prod.splits)
qed

text \<open>What importing a pack's module gives exports a pack that depends on the module's name only.\<close>

definition exports :: "('m, 'h, 'p, 'c, 'g, 'r) surroundings \<Rightarrow> (string \<Rightarrow> 'p option) \<Rightarrow> bool" where
  "exports api exported \<longleftrightarrow> (\<forall>name i m i'. import_module api (''packs.'' @ name) i = (Inr m, i') \<longrightarrow>
     module_pack api m = exported name)"

lemma load_module_packs:
  assumes "load_module api rt sets root name w = (Inr (), w')"
    and "exports api exported"
    and "distinct (loaded_packs w)"
  obtains pk where "exported name = Some pk" and "loaded_packs w' = first_occurrences (loaded_packs w @ [pack_name api pk])"
proof -
  from assms(1) obtain m u where m: "import_pack api name root w = (Inr m, u)"
    by (auto simp: load_module_def bnd_def split: sum.splits prod.splits)
  from m obtain i i' where i: "import_module api (''packs.'' @ name) i = (Inr m, i')" "loaded_packs u = loaded_packs w"
    by (rule import_pack_Inr)
  from assms(1) m obtain pk where pk: "module_pack api m = Some pk"
    by (auto simp: load_module_def bnd_def throw_def split: option.splits)
  from assms(1) m pk obtain v where v: "outside (load_pack api rt pk (sets name)) u = (Inr (), v)"
    by (auto simp: load_module_def bnd_def split: sum.splits prod.splits)
  have "w' = (if pack_name api pk \<in> set (loaded_packs v) then v else v\<lparr>loaded_packs := loaded_packs v @ [pack_name api pk]\<rparr>)"
    using assms(1) m pk v by (simp add: load_module_def bnd_def modify_def)
  then have "loaded_packs w' = first_occurrences (loaded_packs w @ [pack_name api pk])"
    using outside_packs[OF v] i(2) assms(3) by (simp add: first_occurrences_snoc)
  moreover have "exported name = Some pk" using assms(2) i(1) pk unfolding exports_def by metis
  ultimately show thesis by (rule that[rotated])
qed

text \<open>
  When \<open>_load_modules\<close> returns, every requested module exported a pack, and \<open>loaded_packs\<close>
  lists the names of these packs in the order of the request, after those it held, each name once,
  at its first place.
\<close>

theorem loaded_packs_in_order:
  assumes "load_modules api rt modules sets root w = (Inr (), w')"
    and "exports api exported"
    and "distinct (loaded_packs w)"
  shows "list_all (\<lambda>name. exported name \<noteq> None) modules
     \<and> loaded_packs w' = first_occurrences (loaded_packs w @ map (\<lambda>name. pack_name api (the (exported name))) modules)
     \<and> distinct (loaded_packs w')"
  using assms(1,3)
proof (induction modules arbitrary: w)
  case Nil
  then show ?case by (auto simp: load_modules_def ret_def)
next
  case (Cons name modules)
  obtain u where u: "load_module api rt sets root name w = (Inr (), u)" "load_modules api rt modules sets root u = (Inr (), w')"
    using Cons.prems(1) by (auto simp: load_modules_def bnd_def split: sum.splits prod.splits)
  obtain pk where pk: "exported name = Some pk" "loaded_packs u = first_occurrences (loaded_packs w @ [pack_name api pk])"
    by (rule load_module_packs[OF u(1) assms(2) Cons.prems(2)])
  have "distinct (loaded_packs u)" by (simp add: pk(2))
  from Cons.IH[OF u(2) this] show ?case
    using first_occurrences_again[of "loaded_packs w @ [pack_name api pk]"] by (simp add: pk)
qed

lemma sample_stores:
  "\<exists>es u gs. new_event_store sample_env sample_config ''r'' ''s'' sample_process = (Inr es, u)
     \<and> fst (new_graph_store sample_env sample_config ''r'' ''s'' u) = Inr gs"
proof -
  have d: "db sample_process = empty_tables" by (simp add: sample_process_def)
  have "tables_ok sample_env (db sample_process)" "map_of (ag_run (db sample_process)) (run_key sample_env ''s'' ''r'') = None"
    "openable sample_env sample_config (db sample_process)"
    using sample_openable by (simp_all add: d) (simp_all add: tables_ok_def empty_tables_def)
  with new_event_store_fresh[OF sample_calm, of "''r''" "''s''" sample_config sample_process]
  obtain es n at at' where es: "new_event_store sample_env sample_config ''r'' ''s'' sample_process = (Inr es, sample_process
      \<lparr>db := with_new_run sample_env (new_run_row ''s'' ''r'' at') (installed sample_env at empty_tables), tick := n\<rparr>)"
    by (auto simp: d)
  let ?u = "sample_process\<lparr>db := with_new_run sample_env (new_run_row ''s'' ''r'' at') (installed sample_env at empty_tables), tick := n\<rparr>"
  have inst: "schema_sane sample_env (installed sample_env at empty_tables)"
    "\<exists>row. found_schema (installed sample_env at empty_tables) = Some row \<and> schema_version_field row = Some SCHEMA_VERSION"
    using installed_found[OF sample_schema_sane] by blast+
  have "openable sample_env sample_config (db ?u)"
    using sample_openable inst
    by (auto simp: openable_def schema_sane_def found_schema_def table_defined_def with_new_run_def version_ok_def
        SCHEMA_VERSION_def MIN_SCHEMA_VERSION_def split: if_splits)
  moreover have "projection_own sample_env ''s'' ''r'' (db ?u)"
    by (simp add: projection_own_def keyed_def with_new_run_def) (simp add: empty_tables_def)
  ultimately obtain gs u' where "new_graph_store sample_env sample_config ''r'' ''s'' ?u = (Inr gs, u')"
    using new_graph_store_calm[OF sample_calm, of "''r''" "''s''" sample_config ?u] by auto
  with es show ?thesis by fastforce
qed

lemma sample_exports: "exports sample_surroundings (\<lambda>name. if name = ''broken'' then None else Some name)"
  by (auto simp: exports_def sample_surroundings_def split: list.splits)

text \<open>A module that exports no pack: \<open>build_runtime\<close> raises, and both stores it had opened are closed.\<close>

theorem build_runtime_closes_on_failure_witness:
  "\<exists>e w'. build_runtime sample_env sample_surroundings sample_config ''r'' ''s'' [''broken''] None (Some (checkout ''a'')) sample_process = (Inl e, w')
     \<and> es_closed (events_obj w') \<and> gs_closed (graph_obj w')"
proof -
  let ?run = "build_runtime sample_env sample_surroundings sample_config ''r'' ''s'' [''broken''] None (Some (checkout ''a'')) sample_process"
  obtain r w' where run: "?run = (r, w')" by fastforce
  obtain es u gs where made: "new_event_store sample_env sample_config ''r'' ''s'' sample_process = (Inr es, u)"
    "fst (new_graph_store sample_env sample_config ''r'' ''s'' u) = Inr gs"
    using sample_stores by blast
  have never: "fst (load_modules sample_surroundings rt [''broken''] sets root w) \<noteq> Inr ()"
    if "loaded_packs w = []" for rt sets root w
  proof
    assume "fst (load_modules sample_surroundings rt [''broken''] sets root w) = Inr ()"
    then obtain v where "load_module sample_surroundings rt sets root ''broken'' w = (Inr (), v)"
      by (auto simp: load_modules_def bnd_def split: prod.splits sum.splits)
    then show False using that load_module_packs[OF _ sample_exports] by fastforce
  qed
  note cases = build_runtime_closes_on_failure[OF run]
  show ?thesis
  proof (cases r)
    case (Inl e)
    then show ?thesis using run cases made by auto
  next
    case (Inr h)
    then have "build_body sample_env sample_surroundings sample_config ''r'' ''s'' [''broken''] None (Some (checkout ''a''))
        (sample_process\<lparr>exit_stack := []\<rparr>) = (Inr h, w')" using cases by simp
    then obtain rt sets and v q :: "(string \<times> string, unit) process" where
      "load_modules sample_surroundings rt [''broken''] sets (Some (checkout ''a'')) v = (Inr (), q)"
      "loaded_packs v = []"
      by (auto simp: build_body_def bnd_def modify_def split: prod.splits sum.splits)
    then show ?thesis using never by (metis fst_conv)
  qed
qed

theorem loaded_packs_in_order_witness:
  "\<exists>w'. load_modules sample_surroundings () [''core'', ''chat'', ''core''] (\<lambda>_. None) (Some (checkout ''a'')) sample_process = (Inr (), w')
     \<and> loaded_packs w' = [''core'', ''chat'']"
proof -
  let ?run = "load_modules sample_surroundings () [''core'', ''chat'', ''core''] (\<lambda>_. None) (Some (checkout ''a'')) sample_process"
  have "fst ?run = Inr ()" by code_simp
  then obtain w' where run: "?run = (Inr (), w')" by (metis prod.collapse)
  have "distinct (loaded_packs sample_process)" by (simp add: sample_process_def)
  from loaded_packs_in_order[OF run sample_exports this] run show ?thesis
    by (simp add: sample_process_def first_occurrences_def)
qed

section \<open>Importing\<close>

subsection \<open>Paths and their texts\<close>

definition path_ok :: "path \<Rightarrow> bool" where
  "path_ok p \<longleftrightarrow> path_root p \<in> {[], ''/'', ''//''}
     \<and> list_all (\<lambda>t. t \<noteq> [] \<and> t \<noteq> ''.'' \<and> CHR ''/'' \<notin> set t) (path_parts p)"

lemma split_on_none: "d \<notin> set t \<Longrightarrow> split_on d part t = [part @ t]"
  by (induction t arbitrary: part) auto

lemma split_on_sep: "d \<notin> set t \<Longrightarrow> split_on d part (t @ d # s) = (part @ t) # split_on d [] s"
  by (induction t arbitrary: part) auto

lemma split_join:
  "\<lbrakk>ts \<noteq> []; list_all (\<lambda>t. d \<notin> set t) ts\<rbrakk> \<Longrightarrow> split_on d [] (join [d] ts) = ts"
proof (induction ts)
  case (Cons t ts)
  then show ?case by (cases ts) (simp_all add: split_on_none split_on_sep)
qed simp

lemma path_of_parts:
  "list_all (\<lambda>t. t \<noteq> [] \<and> t \<noteq> ''.'' \<and> CHR ''/'' \<notin> set t) ts \<Longrightarrow>
   filter (\<lambda>t. t \<noteq> [] \<and> t \<noteq> ''.'') (split_on (CHR ''/'') [] (join ''/'' ts)) = ts"
proof (cases "ts = []")
  case False
  assume ok: "list_all (\<lambda>t. t \<noteq> [] \<and> t \<noteq> ''.'' \<and> CHR ''/'' \<notin> set t) ts"
  then have "split_on (CHR ''/'') [] (join ''/'' ts) = ts"
    using split_join[OF False, of "CHR ''/''"] by (simp add: list_all_iff)
  with ok show ?thesis by (simp add: list_all_iff filter_True)
qed simp

lemma path_round_trip:
  assumes "path_ok p"
  shows "path_of (path_text p) = p"
proof -
  let ?ok = "\<lambda>t. t \<noteq> [] \<and> t \<noteq> ''.'' \<and> CHR ''/'' \<notin> set t"
  have parts: "list_all ?ok (path_parts p)" using assms by (simp add: path_ok_def)
  have hd: "\<not> starts_with ''/'' (join ''/'' (path_parts p))"
  proof (cases "path_parts p")
    case (Cons t ts)
    then obtain c t' where "t = c # t'" "c \<noteq> CHR ''/''" using parts by (cases t) auto
    with Cons show ?thesis by (cases ts) (simp_all add: starts_with_def)
  qed (simp add: starts_with_def)
  consider "path_root p = []" | "path_root p = ''/''" | "path_root p = ''//''"
    using assms by (auto simp: path_ok_def)
  then show ?thesis
  proof cases
    case 1
    show ?thesis
    proof (cases "path_parts p = []")
      case True
      with 1 show ?thesis by (cases p) (simp add: path_of_def path_text_def starts_with_def)
    next
      case False
      then show ?thesis using 1 hd path_of_parts[OF parts]
        by (cases p) (auto simp: path_of_def path_text_def starts_with_iff)
    qed
  next
    case 2
    then show ?thesis using hd path_of_parts[OF parts]
      by (cases p) (auto simp: path_of_def path_text_def starts_with_iff)
  next
    case 3
    then show ?thesis using hd path_of_parts[OF parts]
      by (cases p) (auto simp: path_of_def path_text_def starts_with_iff)
  qed
qed

lemma packs_dir_ok: "path_ok p \<Longrightarrow> path_ok (packs_dir p)"
  by (auto simp: path_ok_def packs_dir_def)

subsection \<open>Which checkout is imported\<close>

text \<open>
  What the harness relies on of Python's path-based finder: with no \<open>packs\<close> module loaded, importing
  \<open>packs.name\<close> takes the first entry of \<open>sys.path\<close> that holds a \<open>packs\<close> directory; the package's
  \<open>__path__\<close> is that directory, and only modules of the package are added to \<open>sys.modules\<close>.
\<close>

definition has_packs :: "('m, 'h, 'p, 'c, 'g, 'r) surroundings \<Rightarrow> string \<Rightarrow> bool" where
  "has_packs api entry \<longleftrightarrow> is_dir api (packs_dir (path_of entry)) = Inr True"

definition path_finder ::
  "('m, 'h, 'p, 'c, 'g, 'r) surroundings \<Rightarrow> (string \<Rightarrow> 'm) \<Rightarrow> (string \<Rightarrow> string \<Rightarrow> 'm) \<Rightarrow> bool" where
  "path_finder api package made \<longleftrightarrow>
     (\<forall>entry. module_path api (package entry) = [path_text (packs_dir (path_of entry))])
     \<and> (\<forall>name i entry. list_all (\<lambda>(n, _). \<not> is_packs n) (module_table i)
          \<and> find (has_packs api) (search_path i) = Some entry \<longrightarrow>
          (\<exists>extra. list_all (\<lambda>(n, _). is_packs n) extra \<and> import_module api (''packs.'' @ name) i =
            (Inr (made entry name), i\<lparr>module_table := module_table i @ (''packs'', Some (package entry)) # extra\<rparr>)))"

text \<open>No \<open>packs\<close> module is loaded, or the loaded package is that of another checkout.\<close>

definition foreign_packs :: "('m, 'h, 'p, 'c, 'g, 'r) surroundings \<Rightarrow> path \<Rightarrow> (string \<times> 'm option) list \<Rightarrow> bool" where
  "foreign_packs api root table \<longleftrightarrow>
     (case map_of table ''packs'' of
        None \<Rightarrow> list_all (\<lambda>(n, _). \<not> is_packs n) table
      | Some None \<Rightarrow> False
      | Some (Some m) \<Rightarrow> \<exists>x ps. resolve api (packs_dir root) = Inr x
          \<and> traverse (\<lambda>entry. resolve api (path_of entry)) (module_path api m) = Inr ps \<and> x \<notin> set ps)"

definition other_modules :: "(string \<times> 'm option) list \<Rightarrow> (string \<times> 'm option) list" where
  "other_modules table = filter (\<lambda>(n, _). \<not> is_packs n) table"

definition with_entry :: "string \<Rightarrow> string list \<Rightarrow> string list" where
  "with_entry e p = (if e \<in> set p then p else e # p)"

lemma ensure_importable_foreign:
  assumes "foreign_packs api root (module_table w)"
  shows "ensure_importable api root w = (Inr (), w\<lparr>search_path := with_entry (path_text root) (search_path w),
     module_table := other_modules (module_table w)\<rparr>)"
proof -
  have same: "w\<lparr>search_path := search_path w, module_table := x\<rparr> = w\<lparr>module_table := x\<rparr>"
    "w\<lparr>search_path := y, module_table := module_table w\<rparr> = w\<lparr>search_path := y\<rparr>" for x y by (cases w; simp)+
  have id: "w\<lparr>search_path := search_path w, module_table := module_table w\<rparr> = w" by (cases w) simp
  have all: "other_modules (module_table w) = module_table w" if "list_all (\<lambda>(n, _). \<not> is_packs n) (module_table w)"
    using that by (auto simp: other_modules_def list_all_iff intro!: filter_True)
  show ?thesis
    using assms all
    by (auto simp: foreign_packs_def ensure_importable_def evict_foreign_packs_def bnd_def modify_def with_self_def
        ret_def lift_def with_entry_def same id other_modules_def split: option.splits)
qed

lemma back_inside:
  "with_interpreter ((interpreter_of w)\<lparr>module_table := x\<rparr>) w = w\<lparr>module_table := x\<rparr>"
  "search_path (interpreter_of w) = search_path w" "module_table (interpreter_of w) = module_table w"
  by (cases w; simp add: with_interpreter_def interpreter_of_def interpreter.defs)+

lemma import_pack_foreign:
  assumes "path_finder api package made" and "foreign_packs api root (module_table w)"
    and "find (has_packs api) (with_entry (path_text root) (search_path w)) = Some entry"
  obtains extra where "list_all (\<lambda>(n, _). is_packs n) extra"
    and "import_pack api name (Some root) w = (Inr (made entry name),
      w\<lparr>search_path := with_entry (path_text root) (search_path w),
        module_table := other_modules (module_table w) @ (''packs'', Some (package entry)) # extra\<rparr>)"
proof -
  let ?u = "w\<lparr>search_path := with_entry (path_text root) (search_path w), module_table := other_modules (module_table w)\<rparr>"
  have "list_all (\<lambda>(n, _). \<not> is_packs n) (module_table (interpreter_of ?u))"
    by (auto simp: back_inside other_modules_def list_all_iff)
  moreover have "find (has_packs api) (search_path (interpreter_of ?u)) = Some entry"
    using assms(3) by (simp add: back_inside)
  ultimately obtain extra where extra: "list_all (\<lambda>(n, _). is_packs n) extra"
    "import_module api (''packs.'' @ name) (interpreter_of ?u) = (Inr (made entry name),
      (interpreter_of ?u)\<lparr>module_table := module_table (interpreter_of ?u) @ (''packs'', Some (package entry)) # extra\<rparr>)"
    using assms(1) unfolding path_finder_def by blast
  have "import_pack api name (Some root) w = (Inr (made entry name),
      ?u\<lparr>module_table := other_modules (module_table w) @ (''packs'', Some (package entry)) # extra\<rparr>)"
    using extra(2) ensure_importable_foreign[OF assms(2)]
    by (simp add: import_pack_def bnd_def lift_def try_except_def outside_def back_inside)
  then show thesis using that[OF extra(1)] by simp
qed

lemma other_modules_simps [simp]:
  "other_modules (other_modules t) = other_modules t"
  "other_modules (t @ u) = other_modules t @ other_modules u"
  "list_all (\<lambda>(n, _). is_packs n) extra \<Longrightarrow> other_modules extra = []"
  "other_modules ((''packs'', m) # t) = other_modules t"
  by (auto simp: other_modules_def list_all_iff is_packs_def filter_empty_conv)

lemma packs_gone [simp]: "map_of (other_modules t) ''packs'' = None"
  by (auto simp: other_modules_def map_of_eq_None_iff is_packs_def)

text \<open>One import in terms of what it leaves, and a checkout whose modules another checkout finds foreign.\<close>

lemma import_from:
  assumes "path_finder api package made" and "foreign_packs api root (module_table w)"
    and "find (has_packs api) (with_entry (path_text root) (search_path w)) = Some entry"
  obtains w' where "import_pack api name (Some root) w = (Inr (made entry name), w')"
    and "search_path w' = with_entry (path_text root) (search_path w)"
    and "map_of (module_table w') ''packs'' = Some (Some (package entry))"
    and "other_modules (module_table w') = other_modules (module_table w)"
proof -
  from import_pack_foreign[OF assms, of name] obtain extra where extra: "list_all (\<lambda>(n, _). is_packs n) extra"
    "import_pack api name (Some root) w = (Inr (made entry name),
      w\<lparr>search_path := with_entry (path_text root) (search_path w),
        module_table := other_modules (module_table w) @ (''packs'', Some (package entry)) # extra\<rparr>)"
    by blast
  show thesis by (rule that[OF extra(2)]) (use extra(1) in \<open>simp_all add: map_add_def\<close>)
qed

lemma foreign_checkout:
  assumes "path_finder api package made" and "path_ok q" and "map_of ms ''packs'' = Some (Some (package (path_text q)))"
    and "resolve api (packs_dir q) = Inr rq" and "resolve api (packs_dir root) = Inr rr" and "rq \<noteq> rr"
  shows "foreign_packs api root ms"
proof -
  have "module_path api (package (path_text q)) = [path_text (packs_dir q)]"
    using assms(1,2) by (simp add: path_finder_def path_round_trip)
  then show ?thesis using assms(2-6) by (simp add: foreign_packs_def path_round_trip packs_dir_ok)
qed




lemma sample_finder: "path_finder sample_surroundings (\<lambda>entry. (entry, [])) (\<lambda>entry name. (entry, name))"
proof -
  have "import_module sample_surroundings (''packs.'' @ name) i = (Inr (entry, name), i\<lparr>module_table := module_table i @
      (''packs'', Some (entry, [])) # [(''packs.'' @ name, Some (entry, name))]\<rparr>)"
    if found: "find (has_packs sample_surroundings) (search_path i) = Some entry" for name entry and i :: "(string \<times> string, unit) interpreter"
  proof -
    obtain p where "search_path i = entry # p"
      using found by (cases "search_path i") (auto simp: has_packs_def)
    then show ?thesis by (simp add: sample_surroundings_def)
  qed
  moreover have "list_all (\<lambda>(n, _). is_packs n) [(''packs.'' @ name, x)]" for name and x :: "(string \<times> string) option"
    by (simp add: is_packs_def starts_with_def)
  ultimately show ?thesis
    unfolding path_finder_def by (intro conjI allI impI, simp, intro exI conjI) auto
qed

lemma sample_checkouts: "path_ok (checkout ''a'')" "path_ok (checkout ''b'')"
  "path_text (checkout ''a'') = ''/a''" "path_text (checkout ''b'') = ''/b''"
  by code_simp+

lemma sample_process_imports: "search_path sample_process = [''/lib'']" "module_table sample_process = [(''sys'', None)]"
  by (simp_all add: sample_process_def)



end
