(* ===== verification/ScriptTheorems.thy ===== *)
theory ScriptTheorems
  imports Scripts HarnessTheorems
begin

text \<open>
  What the scripts leave behind: \<open>combined_store_pack.py\<close> closes every store it opened, whatever fails;
  \<open>replay_fork_diff.py\<close> does as long as no close raises, and stops closing at the first one that does.
\<close>

section \<open>\<open>combined_store_pack.py\<close>\<close>

lemma build_runtime_made:
  assumes "build_runtime E api c rid sc modules sets root w = (Inr h, w')"
  obtains es u where "new_event_store E c rid sc w = (Inr es, u)"
proof -
  obtain v where "build_body E api c rid sc modules sets root (w\<lparr>exit_stack := []\<rparr>) = (Inr h, v)"
    using build_runtime_outcome[OF assms] by auto
  from build_body_ends[OF this] that show thesis by (auto split: prod.splits sum.splits)
qed

text \<open>
  Property C27. The combined-store script closes what it opens. When the pack library is missing or the
  password is not in the environment it ends before it sends or changes anything. Otherwise, if the event
  store could be made, it is closed when \<open>main\<close> ends, and so is the graph store if it could be made: whether
  the packs load, the runtime raises, a query fails, an assertion does not hold or a close itself raises.
\<close>

theorem combined_main_closes:
  "case combined_main E api act uuid w of (r, w') \<Rightarrow>
     (case (packs_path api, script_config (getenv api)) of
        (Inr root, Inr c) \<Rightarrow>
          (case new_event_store E c ''run'' (''combined_'' @ uuid) w of
             (Inl e, u) \<Rightarrow> r = Inl e
           | (Inr es, u) \<Rightarrow> es_closed (events_obj w')
               \<and> (case fst (new_graph_store E c ''run'' (''combined_'' @ uuid) u) of
                    Inl _ \<Rightarrow> True | Inr gs \<Rightarrow> gs_closed (graph_obj w')))
      | _ \<Rightarrow> w' = w \<and> (\<exists>e. r = Inl e))"
proof -
  obtain r w' where run: "combined_main E api act uuid w = (r, w')" by fastforce
  show ?thesis
  proof (cases "packs_path api")
    case (Inl e)
    then show ?thesis
      by (auto simp: combined_main_def try_except_def lift_def bnd_def throw_def split: exn.split)
  next
    case root: (Inr root)
    show ?thesis
    proof (cases "script_config (getenv api)")
      case (Inl e)
      with root show ?thesis by (auto simp: combined_main_def try_except_def lift_def bnd_def)
    next
      case (Inr c)
      let ?sc = "''combined_'' @ uuid"
      obtain q v where b: "build_runtime E api c ''run'' ?sc [''core''] None (Some root) w = (q, v)" by fastforce
      show ?thesis
      proof (cases q)
        case (Inl e)
        then have "r = Inl e" "w' = v"
          using run root Inr b by (simp_all add: combined_main_def try_except_def lift_def bnd_def Let_def)
        with build_runtime_outcome[OF b] Inl root Inr run show ?thesis by (auto split: prod.split sum.split)
      next
        case (Inr h)
        obtain es u where "new_event_store E c ''run'' ?sc w = (Inr es, u)"
          using build_runtime_made[OF b[unfolded Inr]] .
        moreover obtain x y where "combined_body E act ?sc h v = (x, y)" by fastforce
        moreover obtain z t where z: "pack_runtime_close E y = (z, t)" by fastforce
        ultimately show ?thesis
          using run root \<open>script_config (getenv api) = Inr c\<close> b Inr pack_runtime_close_closes_both[OF z]
          by (auto simp: combined_main_def try_except_def lift_def bnd_def try_finally_def Let_def split: sum.splits)
      qed
    qed
  qed
qed

section \<open>\<open>replay_fork_diff.py\<close>\<close>

fun resource_closed :: "resource \<Rightarrow> 's four_stores_scheme \<Rightarrow> bool" where
  "resource_closed ParentEvents w = es_closed (parent_events w)"
| "resource_closed ParentProjection w = gs_closed (parent_projection w)"
| "resource_closed ChildEvents w = es_closed (child_events w)"
| "resource_closed ChildProjection w = gs_closed (child_projection w)"

lemma close_resource_closes:
  assumes "close_resource E x w = (r, w')"
  shows "resource_closed y w' \<longleftrightarrow> y = x \<or> resource_closed y w"
  using assms
  by (cases x; cases y) (auto simp: on_parent_def on_child_def on_events_def on_graph_def
      dest: event_closing.closes graph_closing.closes split: prod.splits)

lemma close_each:
  assumes "for_each (close_resource E) xs w = (r, w')"
  shows "(r = Inr () \<and> (\<forall>y. resource_closed y w' \<longleftrightarrow> y \<in> set xs \<or> resource_closed y w))
    \<or> (\<exists>e before x rest. r = Inl e \<and> xs = before @ x # rest
        \<and> (\<forall>y. resource_closed y w' \<longleftrightarrow> y \<in> set (before @ [x]) \<or> resource_closed y w))"
  using assms
proof (induction xs arbitrary: w)
  case Nil
  then show ?case by (simp add: ret_def)
next
  case (Cons x xs)
  obtain q v where q: "close_resource E x w = (q, v)" by fastforce
  note here = close_resource_closes[OF q]
  show ?case
  proof (cases q)
    case (Inl e)
    then have "r = Inl e" "w' = v" using Cons.prems q by (simp_all add: bnd_def)
    then show ?thesis using here by (intro disjI2 exI[of _ e] exI[of _ "[]"] exI[of _ x] exI[of _ xs]) simp
  next
    case (Inr u)
    then have "for_each (close_resource E) xs v = (r, w')" using Cons.prems q by (simp add: bnd_def)
    from Cons.IH[OF this] show ?thesis
    proof
      assume "r = Inr () \<and> (\<forall>y. resource_closed y w' \<longleftrightarrow> y \<in> set xs \<or> resource_closed y v)"
      then show ?thesis using here by auto
    next
      assume "\<exists>e before z rest. r = Inl e \<and> xs = before @ z # rest
        \<and> (\<forall>y. resource_closed y w' \<longleftrightarrow> y \<in> set (before @ [z]) \<or> resource_closed y v)"
      then obtain e before z rest where "r = Inl e" "xs = before @ z # rest"
        "\<forall>y. resource_closed y w' \<longleftrightarrow> y \<in> set (before @ [z]) \<or> resource_closed y v" by blast
      then show ?thesis
        using here by (intro disjI2 exI[of _ e] exI[of _ "x # before"] exI[of _ z] exI[of _ rest]) auto
    qed
  qed
qed

text \<open>
  The clean-up of \<open>main\<close>: it closes what the body opened, the last opened first. When every close returns, all
  of it is closed and the body's outcome comes out; when one raises, its error comes out and the handles
  opened before it stay as the body left them.
\<close>

lemma experiment_main_closes:
  "case experiment_main E gapi act vars uuid w of (r, w') \<Rightarrow>
     (case script_config vars of
        Inl e \<Rightarrow> r = Inl e \<and> w' = w
      | Inr c \<Rightarrow>
          (case experiment_body E gapi act c (''experiment_'' @ uuid) (w\<lparr>resources := []\<rparr>) of (q, v) \<Rightarrow>
             (r = q \<and> (\<forall>y. resource_closed y w' \<longleftrightarrow> y \<in> set (resources v) \<or> resource_closed y v))
             \<or> (\<exists>e rest x before. r = Inl e \<and> resources v = rest @ x # before
                 \<and> (\<forall>y. resource_closed y w' \<longleftrightarrow> y \<in> set (x # before) \<or> resource_closed y v))))"
proof -
  obtain r w' where run: "experiment_main E gapi act vars uuid w = (r, w')" by fastforce
  show ?thesis
  proof (cases "script_config vars")
    case (Inl e)
    then show ?thesis by (simp add: experiment_main_def lift_def bnd_def)
  next
    case (Inr c)
    obtain q v where q: "experiment_body E gapi act c (''experiment_'' @ uuid) (w\<lparr>resources := []\<rparr>) = (q, v)" by fastforce
    obtain z t where z: "for_each (close_resource E) (rev (resources v)) v = (z, t)" by fastforce
    have r: "r = (case z of Inl e \<Rightarrow> Inl e | Inr _ \<Rightarrow> q)" "w' = t"
      using run Inr q z
      by (auto simp: experiment_main_def lift_def bnd_def modify_def try_finally_def close_resources_def with_self_def
          split: sum.splits)
    from close_each[OF z] show ?thesis
    proof
      assume "z = Inr () \<and> (\<forall>y. resource_closed y t \<longleftrightarrow> y \<in> set (rev (resources v)) \<or> resource_closed y v)"
      then have "r = q \<and> (\<forall>y. resource_closed y w' \<longleftrightarrow> y \<in> set (resources v) \<or> resource_closed y v)"
        using r by auto
      then show ?thesis using run Inr q by simp
    next
      assume "\<exists>e before x rest. z = Inl e \<and> rev (resources v) = before @ x # rest
        \<and> (\<forall>y. resource_closed y t \<longleftrightarrow> y \<in> set (before @ [x]) \<or> resource_closed y v)"
      then obtain e before x rest where b: "z = Inl e" "rev (resources v) = before @ x # rest"
        "\<forall>y. resource_closed y t \<longleftrightarrow> y \<in> set (before @ [x]) \<or> resource_closed y v" by blast
      have r': "r = Inl e" "w' = t" using r b(1) by simp_all
      have "resources v = rev rest @ x # rev before" using arg_cong[OF b(2), of rev] by simp
      moreover have "resource_closed y w' \<longleftrightarrow> y \<in> set (x # rev before) \<or> resource_closed y v" for y
        using b(3)[rule_format, of y] unfolding r'(2) by auto
      ultimately have "\<exists>e rest x before. r = Inl e \<and> resources v = rest @ x # before
          \<and> (\<forall>y. resource_closed y w' \<longleftrightarrow> y \<in> set (x # before) \<or> resource_closed y v)"
        using r'(1) by blast
      then show ?thesis unfolding run Inr prod.case sum.case q by (rule disjI2)
    qed
  qed
qed

text \<open>The server goes away before the clean-up: the projection's close raises, the event store stays open.\<close>

definition stranded :: experiment_process where
  "stranded = \<lparr>db = empty_tables, tick = 0, parent_events = sample_store, parent_projection = sample_graph,
     child_events = sample_store, child_projection = sample_graph, resources = [ParentEvents, ParentProjection],
     console = []\<rparr>"

lemma close_resources_strands:
  "\<exists>w'. close_resources sample_down stranded = (Inl (TimeoutError ''down''), w')
     \<and> resource_closed ParentProjection w' \<and> \<not> resource_closed ParentEvents w'"
proof -
  have q: "quiet sample_down" using sample_calm by (simp add: calm_def sample_down_def)
  have o: "outcome sample_down n = FailsBefore (TimeoutError ''down'')" for n by (simp add: sample_down_def)
  have ping: "ping sample_down s = (Inl (TimeoutError ''down''), s\<lparr>tick := Suc (tick s)\<rparr>)" for s :: graph_store
    by (simp add: ping_def request_def o arrived_quiet[OF q])
  obtain g where g: "gs_close sample_down (graph_now (parent_side stranded)) = (Inl (TimeoutError ''down''), g)"
    by (simp add: gs_close_def link_close_def bnd_def get_state_def modify_def try_finally_def run_if_def ping
        graph_now_def parent_side_def stranded_def sample_graph_def)
  have p: "close_resource sample_down ParentProjection stranded =
      (Inl (TimeoutError ''down''), with_parent (with_graph g (parent_side stranded)) stranded)"
    by (simp add: on_parent_def on_graph_def g)
  have "close_resources sample_down stranded =
      (Inl (TimeoutError ''down''), with_parent (with_graph g (parent_side stranded)) stranded)"
    by (simp add: close_resources_def with_self_def bnd_def p del: close_resource.simps) (simp add: stranded_def bnd_def p[unfolded stranded_def] del: close_resource.simps)
  moreover have "resource_closed ParentProjection (with_parent (with_graph g (parent_side stranded)) stranded)"
    using close_resource_closes[OF p, of ParentProjection] by simp
  moreover have "\<not> es_closed (parent_events stranded)" by (simp add: stranded_def sample_store_def)
  ultimately show ?thesis using close_resource_closes[OF p, of ParentEvents] by auto
qed

end
