(* ===== verification/Spec2Isabelle.thy ===== *)
theory Spec2Isabelle
  imports LogTheorems LogReads DataTheorems DecodedTypes ConnectionTheorems StoreSafety Waiting ScriptTheorems
begin

text \<open>
  A verification of the ActiveGraph provider for SurrealDB, the Python package
  \<open>src/activegraph_surrealdb\<close>. The provider keeps, in one SurrealDB database, the append-only event log of
  an ActiveGraph run and a materialised graph that can be rebuilt from it. The log is hash-chained and
  guarded against concurrent writers by the run's head; the graph (the projection) is disposable, and
  a status record says whether it may be served.

  \<^bold>\<open>The parts and their theories.\<close>

  \<^item> \<open>config.py\<close>: \<open>Config\<close>. The settings as records, their validation as a result. \<open>errors.py\<close>:
    \<open>Errors\<close>, all exceptions as one datatype, with \<open>str\<close>, class name and bases. \<open>keys.py\<close>: \<open>Keys\<close>.
  \<^item> \<open>serde.py\<close>: \<open>Json\<close> (Python's \<open>json.dumps\<close> and \<open>json.loads\<close>, byte by byte) and \<open>Serde\<close> (payloads,
    the row formats, the event hash). The locale \<open>codec\<close> states what a row format promises; it is
    interpreted for events, objects, relations and patches.
  \<^item> \<open>schema.surql\<close> and the statements the sources send: \<open>Surreal\<close>, a typed row per table, the unique
    indexes, one definition per statement. \<open>Engine\<close>: requests, snapshots, commits, and every way a
    request may fail.
  \<^item> \<open>connection.py\<close>: \<open>Connection\<close>; the regular expressions and the splitting of the schema resource are
    in \<open>Patterns\<close>. \<open>Schema\<close> and \<open>ConnectionTheorems\<close>: what \<open>ensure_schema\<close> accepts and leaves.
  \<^item> \<open>event_store.py\<close>: \<open>EventStore\<close>, every method and helper. \<open>Reach\<close>: what other sessions may do
    meanwhile. \<open>Chain\<close>: verified logs. \<open>EventLog\<close> and \<open>Truncation\<close>: the two write transactions under all
    failures. \<open>Ledger\<close>: well-formed tables and intact logs. \<open>Forks\<close>, \<open>Opening\<close>, \<open>ForkRuns\<close>,
    \<open>ForkTheorems\<close>, \<open>ForkFaults\<close>: forking and opening, undisturbed and under failures. \<open>LogSafety\<close>: every log
    stays intact. \<open>LogReads\<close>: reading. \<open>LogTheorems\<close>: the log's other properties.
  \<^item> \<open>graph_store.py\<close>: \<open>GraphStore\<close>, every method and helper. \<open>Projection\<close>: the invariant of its tables; the
    locale \<open>keyed_table\<close> is interpreted for each of the four. \<open>Graphs\<close>: the abstract graph, three finite
    maps, and what each call does undisturbed. \<open>Reads\<close>: queries and the neighborhood. \<open>Lifecycle\<close>:
    rebuilds and opening. \<open>GraphTheorems\<close> and \<open>GraphFaults\<close>: the properties without and with failures.
  \<^item> \<open>runtime.py\<close>: \<open>Runtime\<close>. \<open>Replay\<close>, \<open>ReplaySafety\<close>, \<open>RuntimeTheorems\<close>: replay. \<open>Waiting\<close>: the waiting
    loops, as \<open>partial_function\<close>s, so that not returning is a value of the model.
  \<^item> \<open>harness.py\<close>: \<open>Harness\<close> and \<open>HarnessTheorems\<close>. \<open>Closing\<close>: the locale \<open>closable\<close>, the contract of
    \<open>close\<close>, interpreted for the connection and both stores.
  \<^item> Both stores together: \<open>Separation\<close>, where the locale \<open>table_part\<close> is interpreted for the tables of the
    log and those of the projection, shows that each store stays off the other's; \<open>StoreSafety\<close>: any
    interleaving of calls of both, replays included. \<open>DecodedTypes\<close>: what decoders may return; its locale
    \<open>typed_codec\<close> extends \<open>codec\<close>.
  \<^item> \<open>examples/combined_store_pack.py\<close> and \<open>examples/replay_fork_diff.py\<close>: \<open>Scripts\<close>, their \<open>main\<close> functions
    over the process of the harness and over two pairs of stores; \<open>ScriptTheorems\<close>: what they leave open.
  \<^item> \<open>Framing\<close>: programs that keep a property of the database, or leave an object's own fields alone.
    \<open>Prelude\<close> holds what all share; \<open>Sample\<close> and \<open>GraphSample\<close> the concrete runs of the witnesses.

  \<^bold>\<open>How programs are modelled.\<close> A method is a program \<open>('s, exn, 'a) prog\<close>: from a state to an error or a
  value and a state. \<open>bnd\<close> is sequencing, \<open>try_except\<close>, \<open>try_finally\<close> and \<open>suppress\<close> are Python's. An
  object is a record that extends the connection's record \<open>link\<close>, which extends \<open>server\<close>: the tables \<open>db\<close>
  and the number \<open>tick\<close> of requests so far. Several objects of one process see one server: \<open>making\<close> and
  \<open>calling\<close> construct and use an object inside another program, \<open>workspace\<close> holds two stores. \<open>wp\<close> is the
  weakest precondition of a program; the collection \<open>wp_rules\<close> holds one equation per construct, and most
  proofs about programs are simplifications with it. A text is the list of its UTF-8 bytes.

  \<^bold>\<open>What is a parameter.\<close> The record \<open>env\<close> holds, beside SHA-256, the text of floats and ActiveGraph's
  payload encoder, the server's choices, indexed by request: which requests fail, before their effect or
  after it (\<open>outcome\<close>), what other sessions commit before a request (\<open>others\<close>), which commits are refused
  (\<open>verdict\<close>), with which texts (\<open>refusal\<close>), the order of unordered scans (\<open>scan\<close>), the clock. \<open>graph_api\<close>
  is ActiveGraph's \<open>Graph\<close> during a replay, \<open>surroundings\<close> the file system, the import machinery,
  ActiveGraph and the packs; \<open>script_api\<close> and \<open>experiment_api\<close> what the scripts call of ActiveGraph.

  \<^bold>\<open>What properties assume of them\<close>, by name: \<open>quiet\<close>, no other session writes; \<open>calm\<close>, moreover no request
  fails; \<open>first_committer_wins\<close>, SurrealDB refuses a commit whose records have changed; \<open>graph_rely\<close>, other
  sessions keep the projection's invariant; \<open>log_rely\<close>, they keep every log intact and
  the first committer of a record wins; \<open>lib_ok\<close>, the encoder writes the JSON of what it adapts and a float's
  text reads back; \<open>scans_all\<close>, an unordered scan visits every record once; \<open>separate\<close> and
  \<open>new_rows\<close>, no two of the ids at hand share a key; \<open>replays_with\<close>, replaying an event makes calls on the
  graph store that depend on the event; \<open>clock_from\<close>, the monotonic clock is monotonic and \<open>sleep(0.2)\<close> takes
  as long; \<open>path_finder\<close>, an import takes the first entry of \<open>sys.path\<close> that has the package. Every property
  with a hypothesis is applied to a concrete run in its witness.

  \<^bold>\<open>What is proved.\<close> Log: every log stays intact under any calls, faults and interleavings;
  append adds one verified row and loses no concurrent update; append, truncation and forking are all or nothing under every failure, stale handles and duplicates are refused, equal head hashes
  mean equal logs up to a SHA-256 collision, reading windows, a fork copies a prefix. Data: JSON, row and
  hash round trips, keys that separate. Schema: which versions are accepted, idempotence. Projection: the
  invariant under any calls, faults and interleavings; refinement of finite maps; writes whole or absent;
  queries equal filters, the neighborhood is the ball; the status gate; the rebuild lifecycle; counter
  bounds. Runtime: replay rebuilds the graph of the log, a failed replay is never served, the waiting loops
  end. Both: any interleaving of calls of the two stores keeps both invariants, and neither writes the other's
  tables; decoded values are JSON, encode again and settle. Harness: stores are closed when building fails,
  which checkout is imported, what is listed; the combined-store script closes what it opened.

  \<^bold>\<open>Bounds.\<close> Integers are unbounded as in Python; the engine's 64-bit range is a condition of the statements
  that store integers (\<open>fits_int64\<close>), and \<open>int\<close>'s limit of 4300 digits is one of \<open>object_counter\<close>. The only
  bounded recursion is \<open>walk\<close>, by the \<open>depth\<close> its caller gives. The waiting loops are bounded by the clock.

  \<^bold>\<open>What is not modelled.\<close> The locks of \<open>SurrealConnection\<close> and \<open>SurrealEventStore\<close>: an object is used by one
  thread at a time, while other sessions interleave freely between requests. The wire protocol, the SDK's own
  state, permissions and the indexes that are not unique. \<open>raw_query\<close> sends the caller's statement and is modelled
  by that statement. ActiveGraph's base class \<open>GraphStore\<close>, of which \<open>match_chain\<close> is inherited, is not part of
  the sources. \<open>__init__.py\<close> only re-exports. The scripts under \<open>tools\<close> and the tests exercise the package
  and are not part of it.
\<close>

end
